(* ===== verification/Prelude.thy ===== *)
theory Prelude
  imports Main "HOL-Library.AList" "HOL-Library.Char_ord" "HOL-Library.List_Lexorder"
    "HOL-Library.Sublist"
begin

text \<open>
  What every component of the development shares.

  \<^item> Go strings are byte sequences: they are modelled as \<^typ>\<open>string\<close>, a list of 8-bit characters,
    so \<^const>\<open>length\<close> is Go's \<open>len\<close> and the order of \<open>HOL-Library.List_Lexorder\<close> over \<open>Char_ord\<close> is
    Go's bytewise string order.
  \<^item> Go maps are association lists \<^typ>\<open>('k \<times> 'v) list\<close>, read with \<^const>\<open>map_of\<close>, written with
    \<^const>\<open>AList.update\<close> and \<^const>\<open>AList.delete\<close>. No result of a modelled function depends on the
    order of a map: where the code iterates over one it sorts afterwards, and so does the model.
  \<^item> The functions of package \<open>strings\<close> the program calls are defined here as the standard library
    documents them, on bytes. Case mapping and white space are those of ASCII; a byte of 128 and
    above is left as it is.
  \<^item> An error return is the left side of a sum; the collection \<open>go_simps\<close> holds the equations
    that evaluate the library functions on literals.
\<close>

named_theorems go_simps "evaluation of the modelled standard library"
named_theorems inv_intros "introduction rules for component invariants"

type_synonym ('k, 'v) gomap = "('k \<times> 'v) list"

subsection \<open>Bytes and characters\<close>

abbreviation newline :: char where "newline \<equiv> CHR 10"
abbreviation dquote :: char where "dquote \<equiv> CHR 34"
abbreviation backquote :: char where "backquote \<equiv> CHR 96"

definition is_space_byte :: "char \<Rightarrow> bool" where
  "is_space_byte c \<longleftrightarrow> c \<in> {CHR 9, CHR 10, CHR 11, CHR 12, CHR 13, CHR 32}"

definition is_digit :: "char \<Rightarrow> bool" where
  "is_digit c \<longleftrightarrow> (48::nat) \<le> of_char c \<and> (of_char c :: nat) \<le> 57"

definition is_lower :: "char \<Rightarrow> bool" where
  "is_lower c \<longleftrightarrow> (97::nat) \<le> of_char c \<and> (of_char c :: nat) \<le> 122"

definition is_upper :: "char \<Rightarrow> bool" where
  "is_upper c \<longleftrightarrow> (65::nat) \<le> of_char c \<and> (of_char c :: nat) \<le> 90"

definition lower_char :: "char \<Rightarrow> char" where
  "lower_char c = (if is_upper c then char_of ((of_char c :: nat) + 32) else c)"

definition upper_char :: "char \<Rightarrow> char" where
  "upper_char c = (if is_lower c then char_of ((of_char c :: nat) - 32) else c)"

definition to_lower :: "string \<Rightarrow> string" where
  "to_lower s = map lower_char s"

definition to_upper :: "string \<Rightarrow> string" where
  "to_upper s = map upper_char s"

definition equal_fold :: "string \<Rightarrow> string \<Rightarrow> bool" where
  "equal_fold a b \<longleftrightarrow> to_lower a = to_lower b"

lemma length_to_lower [simp]: "length (to_lower s) = length s"
  by (simp add: to_lower_def)

lemma equal_fold_refl [simp]: "equal_fold s s"
  by (simp add: equal_fold_def)

lemma equal_fold_sym: "equal_fold a b \<longleftrightarrow> equal_fold b a"
  by (auto simp: equal_fold_def)

lemma equal_fold_trans: "equal_fold a b \<Longrightarrow> equal_fold b c \<Longrightarrow> equal_fold a c"
  by (simp add: equal_fold_def)

subsection \<open>Package strings\<close>

definition has_prefix :: "string \<Rightarrow> string \<Rightarrow> bool" where
  "has_prefix s p \<longleftrightarrow> take (length p) s = p"

definition has_suffix :: "string \<Rightarrow> string \<Rightarrow> bool" where
  "has_suffix s p \<longleftrightarrow> length p \<le> length s \<and> drop (length s - length p) s = p"

fun str_index :: "string \<Rightarrow> string \<Rightarrow> nat option" where
  "str_index [] p = (if p = [] then Some 0 else None)"
| "str_index (c # cs) p =
     (if has_prefix (c # cs) p then Some 0 else map_option Suc (str_index cs p))"

definition str_contains :: "string \<Rightarrow> string \<Rightarrow> bool" where
  "str_contains s p \<longleftrightarrow> str_index s p \<noteq> None"

fun last_index_byte :: "string \<Rightarrow> (char \<Rightarrow> bool) \<Rightarrow> nat option" where
  "last_index_byte [] P = None"
| "last_index_byte (c # cs) P =
     (case last_index_byte cs P of
        Some i \<Rightarrow> Some (Suc i)
      | None \<Rightarrow> if P c then Some 0 else None)"

definition trim_prefix :: "string \<Rightarrow> string \<Rightarrow> string" where
  "trim_prefix s p = (if has_prefix s p then drop (length p) s else s)"

definition trim_suffix :: "string \<Rightarrow> string \<Rightarrow> string" where
  "trim_suffix s p = (if has_suffix s p then take (length s - length p) s else s)"

definition cut_prefix :: "string \<Rightarrow> string \<Rightarrow> string option" where
  "cut_prefix s p = (if has_prefix s p then Some (drop (length p) s) else None)"

definition cut_suffix :: "string \<Rightarrow> string \<Rightarrow> string option" where
  "cut_suffix s p = (if has_suffix s p then Some (take (length s - length p) s) else None)"

definition str_cut :: "string \<Rightarrow> string \<Rightarrow> (string \<times> string) option" where
  "str_cut s p =
     (case str_index s p of
        None \<Rightarrow> None
      | Some i \<Rightarrow> Some (take i s, drop (i + length p) s))"

fun split_on :: "char \<Rightarrow> string \<Rightarrow> string list" where
  "split_on sep [] = [[]]"
| "split_on sep (c # cs) =
     (if c = sep then [] # split_on sep cs
      else (case split_on sep cs of [] \<Rightarrow> [[c]] | w # ws \<Rightarrow> (c # w) # ws))"

fun str_join :: "string \<Rightarrow> string list \<Rightarrow> string" where
  "str_join sep [] = []"
| "str_join sep [w] = w"
| "str_join sep (w # v # ws) = w @ sep @ str_join sep (v # ws)"

definition trim_left :: "(char \<Rightarrow> bool) \<Rightarrow> string \<Rightarrow> string" where
  "trim_left P s = dropWhile P s"

definition trim_right :: "(char \<Rightarrow> bool) \<Rightarrow> string \<Rightarrow> string" where
  "trim_right P s = rev (dropWhile P (rev s))"

definition trim_space :: "string \<Rightarrow> string" where
  "trim_space s = trim_right is_space_byte (trim_left is_space_byte s)"

definition count_byte :: "char \<Rightarrow> string \<Rightarrow> nat" where
  "count_byte c s = length (filter (\<lambda>x. x = c) s)"

fun nat_digits :: "nat \<Rightarrow> string" where
  "nat_digits n =
     (if n < 10 then [char_of (48 + n)] else nat_digits (n div 10) @ [char_of (48 + n mod 10)])"

declare nat_digits.simps [simp del]

definition itoa :: "int \<Rightarrow> string" where
  "itoa n = (if n < 0 then ''-'' @ nat_digits (nat (- n)) else nat_digits (nat n))"

lemma nat_digits_nonempty [simp]: "nat_digits n \<noteq> []"
  by (subst nat_digits.simps) simp

lemma nat_digits_inj: "nat_digits m = nat_digits n \<Longrightarrow> m = n"
proof (induction m arbitrary: n rule: less_induct)
  case (less m)
  have digit: "char_of (48 + i) = (char_of (48 + j) :: char) \<longleftrightarrow> i = j" if "i < 10" "j < 10" for i j :: nat
    using that by (simp add: char_of_eq_iff take_bit_eq_mod)
  have one: "nat_digits k = [x] \<longleftrightarrow> k < 10 \<and> x = char_of (48 + k)" for k x
    by (subst nat_digits.simps) auto
  show ?case
  proof (cases "m < 10 \<or> n < 10")
    case True
    then show ?thesis
      using less.prems one digit by (metis nat_digits.simps)
  next
    case False
    then have "nat_digits (m div 10) @ [char_of (48 + m mod 10)] = nat_digits (n div 10) @ [char_of (48 + n mod 10)]"
      using less.prems by (metis nat_digits.simps)
    then have "nat_digits (m div 10) = nat_digits (n div 10)" "m mod 10 = n mod 10"
      using digit by auto
    then have "m div 10 = n div 10" using False less.IH by simp
    with \<open>m mod 10 = n mod 10\<close> show ?thesis by (metis div_mult_mod_eq)
  qed
qed

lemma has_prefix_append [simp]: "has_prefix (p @ s) p"
  by (simp add: has_prefix_def)

lemma has_prefix_iff: "has_prefix s p \<longleftrightarrow> (\<exists>r. s = p @ r)"
  by (metis append_eq_conv_conj append_take_drop_id has_prefix_def)

lemma has_suffix_iff: "has_suffix s p \<longleftrightarrow> (\<exists>r. s = r @ p)"
proof
  assume "has_suffix s p"
  then have "s = take (length s - length p) s @ p"
    by (metis append_take_drop_id has_suffix_def)
  then show "\<exists>r. s = r @ p" ..
qed (auto simp: has_suffix_def)

lemma has_prefix_refl [simp]: "has_prefix s s"
  by (simp add: has_prefix_def)

lemma has_prefix_Nil [simp]: "has_prefix s []"
  by (simp add: has_prefix_def)

lemma has_prefix_Cons [simp]: "has_prefix (c # s) (d # p) \<longleftrightarrow> c = d \<and> has_prefix s p"
  by (auto simp: has_prefix_def)

lemma has_prefix_Nil_Cons [simp]: "\<not> has_prefix [] (d # p)"
  by (simp add: has_prefix_def)

lemma has_prefix_append_mono: "has_prefix s p \<Longrightarrow> has_prefix (s @ r) p"
  by (auto simp: has_prefix_iff)

lemma has_suffix_append [simp]: "has_suffix (r @ p) p"
  by (auto simp: has_suffix_iff)

lemma has_prefix_trans: "has_prefix a b \<Longrightarrow> has_prefix b c \<Longrightarrow> has_prefix a c"
  by (auto simp: has_prefix_iff)

lemma str_index_Some: "str_index s p = Some i \<Longrightarrow> i \<le> length s \<and> has_prefix (drop i s) p"
  by (induction s arbitrary: i) (auto split: if_splits)

lemma str_index_length: "str_index s p = Some i \<Longrightarrow> i + length p \<le> length s"
  by (drule str_index_Some) (auto simp: has_prefix_iff dest!: arg_cong [where f = length])

lemma str_index_append: "str_index (a @ p @ b) p \<noteq> None"
proof (induction a)
  case Nil
  then show ?case by (cases "p @ b") (auto, (metis has_prefix_append)+)
next
  case (Cons c a)
  then show ?case by auto
qed

lemma str_contains_iff: "str_contains s p \<longleftrightarrow> (\<exists>a b. s = a @ p @ b)"
proof
  assume "str_contains s p"
  then obtain i where "str_index s p = Some i" by (auto simp: str_contains_def)
  then have "has_prefix (drop i s) p" by (auto dest: str_index_Some)
  then obtain b where "drop i s = p @ b" by (auto simp: has_prefix_iff)
  then have "s = take i s @ p @ b" by (metis append_take_drop_id)
  then show "\<exists>a b. s = a @ p @ b" by blast
next
  assume "\<exists>a b. s = a @ p @ b"
  then show "str_contains s p"
    using str_index_append by (auto simp: str_contains_def)
qed

lemma str_contains_append_mono: "str_contains s p \<Longrightarrow> str_contains (s @ r) p"
  unfolding str_contains_iff by (metis append.assoc)

lemma split_on_nonempty [simp]: "split_on sep s \<noteq> []"
  by (induction s) (auto split: list.splits)

lemma join_split_on: "str_join [sep] (split_on sep s) = s"
proof (induction s)
  case Nil
  then show ?case by simp
next
  case (Cons c s)
  then show ?case
    by (cases "split_on sep s" rule: list.exhaust; cases "tl (split_on sep s)")
      (auto split: list.splits)
qed

lemma split_on_no_sep: "w \<in> set (split_on sep s) \<Longrightarrow> sep \<notin> set w"
  by (induction s arbitrary: w) (auto split: if_splits list.splits)

lemma split_on_append: "split_on c (a @ c # b) = split_on c a @ split_on c b"
  by (induction a) (auto split: list.splits)

lemma split_on_append_sep: "sep \<notin> set w \<Longrightarrow> split_on sep (w @ sep # s) = w # split_on sep s"
  by (induction w) auto

lemma split_on_word: "sep \<notin> set w \<Longrightarrow> split_on sep w = [w]"
  by (induction w) auto

lemma split_join:
  "ws \<noteq> [] \<Longrightarrow> \<forall>w\<in>set ws. sep \<notin> set w \<Longrightarrow> split_on sep (str_join [sep] ws) = ws"
proof (induction "[sep]" ws rule: str_join.induct)
  case 1
  then show ?case by simp
next
  case (2 w)
  then show ?case by (simp add: split_on_word)
next
  case (3 w v ws)
  then show ?case by (simp add: split_on_append_sep)
qed

lemma trim_right_idem [simp]: "trim_right P (trim_right P s) = trim_right P s"
  by (simp add: trim_right_def)

lemma bex_Collect2: "(\<exists>e\<in>{f x y |x y. Q x y}. R e) \<longleftrightarrow> (\<exists>x y. Q x y \<and> R (f x y))"
  by blast

lemma str_index_sep: "c \<notin> set n \<Longrightarrow> str_index (n @ c # v) [c] = Some (length n)"
  by (induction n) auto

lemma str_cut_sep: "c \<notin> set n \<Longrightarrow> str_cut (n @ [c] @ v) [c] = Some (n, v)"
  by (simp add: str_cut_def str_index_sep)

subsection \<open>Package path/filepath\<close>

text \<open>Lexical processing of paths, with slashes as separators.\<close>

fun clean_steps :: "bool \<Rightarrow> string list \<Rightarrow> string list \<Rightarrow> string list" where
  "clean_steps rooted acc [] = rev acc"
| "clean_steps rooted acc (seg # segs) =
     (if seg = [] \<or> seg = ''.'' then clean_steps rooted acc segs
      else if seg = ''..'' then
        (case acc of
           [] \<Rightarrow> clean_steps rooted (if rooted then [] else [seg]) segs
         | seg' # below \<Rightarrow>
             if seg' = ''..'' then clean_steps rooted (seg # acc) segs else clean_steps rooted below segs)
      else clean_steps rooted (seg # acc) segs)"

definition path_Clean :: "string \<Rightarrow> string" where
  "path_Clean p =
     (let rooted = has_prefix p ''/'';
          body = str_join ''/'' (clean_steps rooted [] (split_on CHR ''/'' p))
      in if rooted then CHR ''/'' # body else if body = [] then ''.'' else body)"

definition path_Join :: "string list \<Rightarrow> string" where
  "path_Join ps =
     (let qs = filter (\<lambda>p. p \<noteq> []) ps in if qs = [] then [] else path_Clean (str_join ''/'' qs))"

definition path_base :: "string \<Rightarrow> string" where
  "path_base p =
     (if p = [] then ''.''
      else let s = trim_right (\<lambda>c. c = CHR ''/'') p
           in if s = [] then ''/'' else last (split_on CHR ''/'' s))"

definition path_ext :: "string \<Rightarrow> string" where
  "path_ext p =
     (let b = last (split_on CHR ''/'' p)
      in (case last_index_byte b (\<lambda>c. c = CHR ''.'') of None \<Rightarrow> [] | Some i \<Rightarrow> drop i b))"

subsection \<open>Go maps\<close>

abbreviation lookup :: "('k, 'v) gomap \<Rightarrow> 'k \<rightharpoonup> 'v" where "lookup m \<equiv> map_of m"

definition get_or :: "'v \<Rightarrow> ('k, 'v) gomap \<Rightarrow> 'k \<Rightarrow> 'v" where
  "get_or d m k = (case lookup m k of None \<Rightarrow> d | Some v \<Rightarrow> v)"

definition map_keys :: "('k, 'v) gomap \<Rightarrow> 'k list" where
  "map_keys m = map fst m"

lemma lookup_update [simp]: "lookup (AList.update k v m) = (lookup m)(k \<mapsto> v)"
  by (rule AList.update_conv')

lemma lookup_delete [simp]: "lookup (AList.delete k m) = (lookup m)(k := None)"
  by (rule AList.delete_conv')

lemma set_map_keys: "set (map_keys m) = dom (lookup m)"
  by (simp add: map_keys_def dom_map_of_conv_image_fst)

lemma get_or_cong: "lookup m k = lookup m' k \<Longrightarrow> get_or d m k = get_or d m' k"
  by (simp add: get_or_def)

lemma get_or_None: "lookup m k = None \<Longrightarrow> get_or d m k = d"
  by (simp add: get_or_def)

lemma get_or_Some: "lookup m k = Some v \<Longrightarrow> get_or d m k = v"
  by (simp add: get_or_def)

lemma lookup_map_const: "lookup (map (\<lambda>k. (k, v)) ks) k = (if k \<in> set ks then Some v else None)"
  by (induction ks) auto

lemma in_set_map_filter: "y \<in> set (List.map_filter f xs) \<longleftrightarrow> (\<exists>x\<in>set xs. f x = Some y)"
  by (force simp: List.map_filter_def)

subsection \<open>Package sort\<close>

text \<open>
  \<open>sort.SliceStable\<close> with its \<open>less\<close>; \<open>sort.Slice\<close> gives the same list wherever \<open>less\<close> tells any two
  elements apart.
\<close>

fun insert_by :: "('a \<Rightarrow> 'a \<Rightarrow> bool) \<Rightarrow> 'a \<Rightarrow> 'a list \<Rightarrow> 'a list" where
  "insert_by lt x [] = [x]"
| "insert_by lt x (y # ys) = (if lt y x then y # insert_by lt x ys else x # y # ys)"

definition sort_by :: "('a \<Rightarrow> 'a \<Rightarrow> bool) \<Rightarrow> 'a list \<Rightarrow> 'a list" where
  "sort_by lt xs = foldr (insert_by lt) xs []"

lemma sort_by_simps [simp]:
  "sort_by lt [] = []" "sort_by lt (x # xs) = insert_by lt x (sort_by lt xs)"
  by (simp_all add: sort_by_def)

lemma set_insert_by [simp]: "set (insert_by lt x ys) = insert x (set ys)"
  by (induction ys) auto

lemma set_sort_by [simp]: "set (sort_by lt xs) = set xs"
  by (induction xs) simp_all

lemma length_insert_by [simp]: "length (insert_by lt x ys) = length ys + 1"
  by (induction ys) simp_all

lemma length_sort_by [simp]: "length (sort_by lt xs) = length xs"
  by (induction xs) simp_all

lemma distinct_insert_by [simp]: "distinct (insert_by lt x ys) \<longleftrightarrow> x \<notin> set ys \<and> distinct ys"
  by (induction ys) auto

lemma distinct_sort_by [simp]: "distinct (sort_by lt xs) \<longleftrightarrow> distinct xs"
  by (induction xs) simp_all

lemma sorted_sort_by:
  assumes "\<And>a b. lt a b \<Longrightarrow> \<not> lt b a"
    and "\<And>a b c. \<not> lt b a \<Longrightarrow> \<not> lt c b \<Longrightarrow> \<not> lt c a"
  shows "sorted_wrt (\<lambda>a b. \<not> lt b a) (sort_by lt xs)"
proof (induction xs)
  case (Cons x xs)
  have "sorted_wrt (\<lambda>a b. \<not> lt b a) ys \<Longrightarrow> sorted_wrt (\<lambda>a b. \<not> lt b a) (insert_by lt x ys)" for ys
  proof (induction ys)
    case (Cons y ys)
    then have ys: "sorted_wrt (\<lambda>a b. \<not> lt b a) (insert_by lt x ys)" "\<And>z. z \<in> set ys \<Longrightarrow> \<not> lt z y"
      by simp_all
    show ?case
    proof (cases "lt y x")
      case True
      then show ?thesis using ys assms(1) by simp
    next
      case False
      then have "\<not> lt z x" if "z \<in> set ys" for z
        using assms(2) ys(2) that by blast
      then show ?thesis using False Cons.prems by simp
    qed
  qed simp
  then show ?case using Cons by simp
qed simp

subsection \<open>Loops that return at the first error\<close>

fun first_error :: "('a \<Rightarrow> 'e option) \<Rightarrow> 'a list \<Rightarrow> 'e option" where
  "first_error f [] = None"
| "first_error f (x # xs) = (case f x of Some e \<Rightarrow> Some e | None \<Rightarrow> first_error f xs)"

lemma first_error_None [simp]: "first_error f xs = None \<longleftrightarrow> (\<forall>x\<in>set xs. f x = None)"
  by (induction xs) (auto split: option.splits)

lemma first_error_Some: "first_error f xs = Some e \<Longrightarrow> \<exists>x\<in>set xs. f x = Some e"
  by (induction xs) (auto split: option.splits)

text \<open>Two checks in sequence.\<close>

definition and_then :: "'e option \<Rightarrow> 'e option \<Rightarrow> 'e option" where
  "and_then a b = (case a of Some e \<Rightarrow> Some e | None \<Rightarrow> b)"

lemma and_then_None [simp]: "and_then a b = None \<longleftrightarrow> a = None \<and> b = None"
  by (cases a) (simp_all add: and_then_def)

lemma has_prefix_take_nat: "has_prefix s p \<Longrightarrow> length p \<le> length s"
  by (auto simp: has_prefix_iff)

lemma last_index_byte_Some:
  "last_index_byte s P = Some i \<Longrightarrow>
   i < length s \<and> P (s ! i) \<and> (\<forall>j. i < j \<longrightarrow> j < length s \<longrightarrow> \<not> P (s ! j))"
proof (induction s arbitrary: i)
  case (Cons c s)
  have none: "last_index_byte s P = None \<Longrightarrow> \<forall>j<length s. \<not> P (s ! j)" for s
    by (induction s) (auto simp: less_Suc_eq_0_disj nth_Cons split: option.splits if_splits nat.splits)
  show ?case
  proof (cases "last_index_byte s P")
    case None
    then show ?thesis using Cons.prems none [OF None]
      by (auto split: if_splits simp: nth_Cons split: nat.splits)
  next
    case (Some k)
    then show ?thesis using Cons.prems Cons.IH [OF Some]
      by (auto simp: nth_Cons split: nat.splits)
  qed
qed simp

lemma last_index_byte_last:
  "P c \<Longrightarrow> \<forall>x\<in>set b. \<not> P x \<Longrightarrow> last_index_byte (a @ c # b) P = Some (length a)"
proof (induction a)
  case Nil
  then have "last_index_byte b P = None"
    by (induction b) auto
  then show ?case using Nil by simp
qed simp

end
