(* ===== verification/Sha256.thy ===== *)
theory Sha256
  imports Prelude "HOL-Library.Word"
begin

unbundle bit_operations_syntax

text \<open>
  Package \<open>crypto/sha256\<close> of the Go standard library, as FIPS 180-4 states it, on 32-bit words.
  The program uses it for file checksums (\<open>fmt.Sprintf("%x", sha256.Sum256(data))\<close>), for block
  identifiers and for idempotency keys. Nothing below claims that it has no collisions: a property
  that needs two contents told apart names that as a hypothesis about these contents.
\<close>

type_synonym w32 = "32 word"

definition rotr :: "nat \<Rightarrow> w32 \<Rightarrow> w32" where
  "rotr n x = drop_bit n x OR push_bit (32 - n) x"

text \<open>
  The constants of the standard are the first 32 bits of the fractional parts of roots of primes:
  cube roots of the first 64 for the rounds, square roots of the first 8 for the initial state. A root
  is found bit by bit, scaled by \<open>2 ^ 32\<close>.
\<close>

fun root_bits :: "(int \<Rightarrow> bool) \<Rightarrow> nat \<Rightarrow> int \<Rightarrow> int" where
  "root_bits below 0 r = r"
| "root_bits below (Suc b) r = root_bits below b (if below (r + 2 ^ b) then r + 2 ^ b else r)"

definition root_fraction :: "nat \<Rightarrow> int \<Rightarrow> w32" where
  "root_fraction n p = word_of_int (root_bits (\<lambda>x. x ^ n \<le> p * 2 ^ (32 * n)) 37 0)"

definition primes_to :: "int \<Rightarrow> int list" where
  "primes_to n = filter (\<lambda>p. list_all (\<lambda>d. p mod d \<noteq> 0) [2..p - 1]) [2..n]"

definition sha_k :: "w32 list" where
  "sha_k = map (root_fraction 3) (primes_to 311)"

definition sha_h0 :: "w32 list" where
  "sha_h0 = map (root_fraction 2) (primes_to 19)"

lemma length_sha_h0 [simp]: "length sha_h0 = 8"
proof -
  have "length (primes_to 19) = 8" by code_simp
  then show ?thesis by (simp add: sha_h0_def)
qed

definition be_bytes :: "nat \<Rightarrow> int \<Rightarrow> int list" where
  "be_bytes k n = map (\<lambda>i. (n div 256 ^ i) mod 256) (rev [0..<k])"

definition sha_pad :: "int list \<Rightarrow> int list" where
  "sha_pad bs =
     (let n = length bs
      in bs @ [128] @ replicate ((119 - n mod 64) mod 64) 0 @ be_bytes 8 ((8 * int n) mod 2 ^ 64))"

fun be_words :: "int list \<Rightarrow> w32 list" where
  "be_words (a # b # c # d # r) =
     word_of_int (a * 16777216 + b * 65536 + c * 256 + d) # be_words r"
| "be_words _ = []"

text \<open>The message schedule, newest word first: \<open>sha_extend k ws\<close> adds \<open>k\<close> words.\<close>

definition sha_next :: "w32 list \<Rightarrow> w32" where
  "sha_next ws =
     (let w15 = ws ! 14; w2 = ws ! 1;
          s0 = rotr 7 w15 XOR rotr 18 w15 XOR drop_bit 3 w15;
          s1 = rotr 17 w2 XOR rotr 19 w2 XOR drop_bit 10 w2
      in ws ! 15 + s0 + ws ! 6 + s1)"

fun sha_extend :: "nat \<Rightarrow> w32 list \<Rightarrow> w32 list" where
  "sha_extend 0 ws = ws"
| "sha_extend (Suc k) ws = sha_extend k (sha_next ws # ws)"

fun sha_round :: "w32 \<times> w32 \<Rightarrow> w32 list \<Rightarrow> w32 list" where
  "sha_round (k, w) [a, b, c, d, e, f, g, h] =
     (let s1 = rotr 6 e XOR rotr 11 e XOR rotr 25 e;
          ch = (e AND f) XOR (NOT e AND g);
          t1 = h + s1 + ch + k + w;
          s0 = rotr 2 a XOR rotr 13 a XOR rotr 22 a;
          maj = (a AND b) XOR (a AND c) XOR (b AND c);
          t2 = s0 + maj
      in [t1 + t2, a, b, c, d + t1, e, f, g])"
| "sha_round _ hs = hs"

definition sha_block :: "w32 list \<Rightarrow> w32 list \<Rightarrow> w32 list" where
  "sha_block hs ws =
     map2 (+) hs (fold sha_round (zip sha_k (rev (sha_extend 48 (rev ws)))) hs)"

fun sha_blocks :: "nat \<Rightarrow> w32 list \<Rightarrow> w32 list \<Rightarrow> w32 list" where
  "sha_blocks 0 hs ws = hs"
| "sha_blocks (Suc n) hs ws = sha_blocks n (sha_block hs (take 16 ws)) (drop 16 ws)"

definition sha256_words :: "string \<Rightarrow> w32 list" where
  "sha256_words s =
     (let ws = be_words (sha_pad (map of_char s)) in sha_blocks (length ws div 16) sha_h0 ws)"

definition hex_digit :: "int \<Rightarrow> char" where
  "hex_digit n = (if n < 10 then char_of (48 + n) else char_of (87 + n))"

definition hex_word :: "w32 \<Rightarrow> string" where
  "hex_word w = map (\<lambda>i. hex_digit ((uint w div 16 ^ i) mod 16)) (rev [0..<8])"

text \<open>The lower-case hexadecimal digest, \<open>fmt.Sprintf("%x", sha256.Sum256(data))\<close>.\<close>

definition sha256_hex :: "string \<Rightarrow> string" where
  "sha256_hex s = concat (map hex_word (sha256_words s))"

subsection \<open>Shape of the digest\<close>

lemma sha_round_length: "length (sha_round kw hs) = length hs"
  by (induction kw hs rule: sha_round.induct) (auto simp: Let_def)

lemma fold_sha_round_length: "length (fold sha_round kws hs) = length hs"
  by (induction kws arbitrary: hs) (auto simp: sha_round_length)

lemma sha_block_length: "length (sha_block hs ws) = length hs"
  by (simp add: sha_block_def fold_sha_round_length)

lemma sha_blocks_length: "length (sha_blocks n hs ws) = length hs"
  by (induction n arbitrary: hs ws) (auto simp: sha_block_length)

lemma hex_word_length: "length (hex_word w) = 8"
  by (simp add: hex_word_def)

lemma sha256_words_length: "length (sha256_words s) = 8"
  by (simp add: sha256_words_def Let_def sha_blocks_length)

lemma concat_const_length: "\<forall>x\<in>set xs. length (f x) = k \<Longrightarrow> length (concat (map f xs)) = k * length xs"
  by (induction xs) auto

lemma sha256_hex_length [simp]: "length (sha256_hex s) = 64"
  using concat_const_length [of "sha256_words s" hex_word 8]
  by (simp add: sha256_hex_def hex_word_length sha256_words_length)

lemma sha256_hex_nonempty [simp]: "sha256_hex s \<noteq> []"
  by (metis length_0_conv sha256_hex_length zero_neq_numeral)

lemma sha256_hex_neq [simp]:
  "length s \<noteq> 64 \<Longrightarrow> sha256_hex c \<noteq> s" "length s \<noteq> 64 \<Longrightarrow> s \<noteq> sha256_hex c"
  by auto

end
