(* ===== verification/GoTime.thy ===== *)
theory GoTime
  imports Prelude "HOL-Library.Monad_Syntax"
begin

text \<open>
  Package \<open>time\<close> of the Go standard library, as far as the program uses it. An instant is the
  number of nanoseconds since the Unix epoch, a duration a number of nanoseconds; Go's zero time is
  the first of January of year 1. The proleptic Gregorian calendar is computed from the day number
  with the year starting in March. Formatting and parsing are those of the layouts \<open>RFC3339\<close>,
  \<open>RFC3339Nano\<close>, \<open>2006-01-02\<close> and \<open>2006-01\<close>, for years 0 to 9999, and formatting is in UTC, as the
  program always asks. Parsing accepts the grammar of RFC 3339 with any number of fraction digits.
  Durations are not cut at the 292 years a 64-bit count holds.
\<close>

type_synonym instant = int
type_synonym duration = int

abbreviation second :: duration where "second \<equiv> 1000000000"
abbreviation minute :: duration where "minute \<equiv> 60000000000"
abbreviation hour :: duration where "hour \<equiv> 3600000000000"
abbreviation day :: duration where "day \<equiv> 86400000000000"

definition zero_time :: instant where
  "zero_time = -62135596800 * second"

subsection \<open>Calendar\<close>

definition days_from_civil :: "int \<Rightarrow> int \<Rightarrow> int \<Rightarrow> int" where
  "days_from_civil y m d =
     (let y' = (if m \<le> 2 then y - 1 else y);
          era = y' div 400;
          yoe = y' - era * 400;
          doy = (153 * (if m > 2 then m - 3 else m + 9) + 2) div 5 + d - 1;
          doe = yoe * 365 + yoe div 4 - yoe div 100 + doy
      in era * 146097 + doe - 719468)"

definition civil_from_days :: "int \<Rightarrow> int \<times> int \<times> int" where
  "civil_from_days n =
     (let z = n + 719468;
          era = z div 146097;
          doe = z - era * 146097;
          yoe = (doe - doe div 1460 + doe div 36524 - doe div 146096) div 365;
          doy = doe - (365 * yoe + yoe div 4 - yoe div 100);
          mp = (5 * doy + 2) div 153;
          d = doy - (153 * mp + 2) div 5 + 1;
          m = (if mp < 10 then mp + 3 else mp - 9);
          y = yoe + era * 400
      in (if m \<le> 2 then y + 1 else y, m, d))"

definition day_of :: "instant \<Rightarrow> int" where "day_of t = t div day"

definition date_of :: "instant \<Rightarrow> int \<times> int \<times> int" where
  "date_of t = civil_from_days (day_of t)"

definition start_of_day :: "instant \<Rightarrow> instant" where
  "start_of_day t = day_of t * day"

text \<open>\<open>time.Date(y, m, d, 0, 0, 0, 0, time.UTC)\<close>: a month past December moves into the next year.\<close>

definition date_instant :: "int \<Rightarrow> int \<Rightarrow> int \<Rightarrow> instant" where
  "date_instant y m d =
     (let y' = y + (m - 1) div 12; m' = (m - 1) mod 12 + 1 in days_from_civil y' m' d * day)"

definition leap_year :: "int \<Rightarrow> bool" where
  "leap_year y \<longleftrightarrow> y mod 4 = 0 \<and> (y mod 100 \<noteq> 0 \<or> y mod 400 = 0)"

definition days_in_month :: "int \<Rightarrow> int \<Rightarrow> int" where
  "days_in_month y m =
     (if m = 2 then (if leap_year y then 29 else 28) else if m \<in> {4, 6, 9, 11} then 30 else 31)"

subsection \<open>Formatting\<close>

definition digit_char :: "int \<Rightarrow> char" where
  "digit_char n = char_of (48 + nat (n mod 10))"

fun pad_digits :: "nat \<Rightarrow> int \<Rightarrow> string" where
  "pad_digits 0 n = []"
| "pad_digits (Suc k) n = pad_digits k (n div 10) @ [digit_char n]"

definition format_day :: "instant \<Rightarrow> string" where
  "format_day t =
     (case date_of t of (y, m, d) \<Rightarrow>
        pad_digits 4 y @ ''-'' @ pad_digits 2 m @ ''-'' @ pad_digits 2 d)"

definition format_month :: "instant \<Rightarrow> string" where
  "format_month t = (case date_of t of (y, m, d) \<Rightarrow> pad_digits 4 y @ ''-'' @ pad_digits 2 m)"

definition format_clock :: "instant \<Rightarrow> string" where
  "format_clock t =
     (let s = (t mod day) div second
      in pad_digits 2 (s div 3600) @ '':'' @ pad_digits 2 ((s div 60) mod 60) @ '':''
         @ pad_digits 2 (s mod 60))"

definition format_rfc3339 :: "instant \<Rightarrow> string" where
  "format_rfc3339 t = format_day t @ ''T'' @ format_clock t @ ''Z''"

definition format_fraction :: "instant \<Rightarrow> string" where
  "format_fraction t =
     (let f = trim_right (\<lambda>c. c = CHR ''0'') (pad_digits 9 (t mod second))
      in if f = [] then [] else CHR ''.'' # f)"

definition format_rfc3339_nano :: "instant \<Rightarrow> string" where
  "format_rfc3339_nano t = format_day t @ ''T'' @ format_clock t @ format_fraction t @ ''Z''"

subsection \<open>Parsing\<close>

definition digit_val :: "char \<Rightarrow> int" where
  "digit_val c = of_char c - 48"

definition digits_val :: "string \<Rightarrow> int" where
  "digits_val s = foldl (\<lambda>a c. 10 * a + digit_val c) 0 s"

definition parse_digits :: "nat \<Rightarrow> string \<Rightarrow> (int \<times> string) option" where
  "parse_digits k s =
     (if k \<le> length s \<and> list_all is_digit (take k s)
      then Some (digits_val (take k s), drop k s) else None)"

definition parse_char :: "char \<Rightarrow> string \<Rightarrow> string option" where
  "parse_char c s = (case s of [] \<Rightarrow> None | d # r \<Rightarrow> if d = c then Some r else None)"

definition parse_date :: "string \<Rightarrow> (int \<times> string) option" where
  "parse_date s =
     do { (y, s) \<leftarrow> parse_digits 4 s;
          s \<leftarrow> parse_char CHR ''-'' s;
          (m, s) \<leftarrow> parse_digits 2 s;
          s \<leftarrow> parse_char CHR ''-'' s;
          (d, s) \<leftarrow> parse_digits 2 s;
          (if 1 \<le> m \<and> m \<le> 12 \<and> 1 \<le> d \<and> d \<le> days_in_month y m
           then Some (days_from_civil y m d * day, s) else None) }"

text \<open>\<open>time.Parse("2006-01-02", s)\<close>: nothing may follow the date.\<close>

definition parse_day_layout :: "string \<Rightarrow> instant option" where
  "parse_day_layout s = do { (t, r) \<leftarrow> parse_date s; (if r = [] then Some t else None) }"

definition parse_fraction :: "string \<Rightarrow> int \<times> string" where
  "parse_fraction s =
     (case s of
        c # r \<Rightarrow>
          (let ds = takeWhile is_digit r in
             if c = CHR ''.'' \<and> ds \<noteq> []
             then (digits_val (take 9 (ds @ replicate 9 CHR ''0'')), dropWhile is_digit r)
             else (0, s))
      | [] \<Rightarrow> (0, s))"

definition parse_zone :: "string \<Rightarrow> duration option" where
  "parse_zone s =
     (if s = ''Z'' then Some 0
      else case s of
        c # r \<Rightarrow>
          do { (h, r) \<leftarrow> parse_digits 2 r;
               r \<leftarrow> parse_char CHR '':'' r;
               (m, r) \<leftarrow> parse_digits 2 r;
               (if r = [] \<and> h \<le> 23 \<and> m \<le> 59 \<and> c \<in> {CHR ''+'', CHR ''-''}
                then Some ((if c = CHR ''-'' then -1 else 1) * (h * hour + m * minute)) else None) }
      | [] \<Rightarrow> None)"

definition parse_rfc3339 :: "string \<Rightarrow> instant option" where
  "parse_rfc3339 s =
     do { (date, s) \<leftarrow> parse_date s;
          s \<leftarrow> parse_char CHR ''T'' s;
          (h, s) \<leftarrow> parse_digits 2 s;
          s \<leftarrow> parse_char CHR '':'' s;
          (mi, s) \<leftarrow> parse_digits 2 s;
          s \<leftarrow> parse_char CHR '':'' s;
          (sec, s) \<leftarrow> parse_digits 2 s;
          (let (frac, z) = parse_fraction s in
             do { off \<leftarrow> parse_zone z;
                  (if h \<le> 23 \<and> mi \<le> 59 \<and> sec \<le> 59
                   then Some (date + h * hour + mi * minute + sec * second + frac - off)
                   else None) }) }"

end
