(* ===== verification/SyncPaths.thy ===== *)
theory SyncPaths
  imports Prelude Sha256 GoTime
begin

text \<open>
  Which paths the file sync may touch, and how a tree is listed. Models
  \<open>internal/sync/tree.go\<close>, the path helpers of \<open>internal/sync/conflict.go\<close> and
  \<open>singlewriter.go\<close>, and the path rules of \<open>internal/server/sync_api.go\<close>.

  A data directory is a Go map from relative slash-separated paths to files; a directory exists as
  the prefix of the files below it. \<open>filepath.Walk\<close> visits files in the order of their lists of
  path segments.
\<close>

record fsfile =
  f_data :: string
  f_mtime :: instant

type_synonym disk = "(string, fsfile) gomap"

record FileEntry =
  fe_path :: string
  fe_checksum :: string
  fe_size :: int
  fe_mod_time :: string

subsection \<open>Constants of internal/sync/sync.go\<close>

definition manifestName :: string where "manifestName = ''.sync-base.json''"
definition conflictExt :: string where "conflictExt = ''.conflict''"
definition tempExt :: string where "tempExt = ''.tmp''"
definition conflictDir :: string where "conflictDir = ''.conflicts''"
definition tokensFile :: string where "tokensFile = ''tokens.json''"
definition usagePrefix :: string where "usagePrefix = ''usage/''"

lemmas sync_names = conflictExt_def tempExt_def conflictDir_def tokensFile_def usagePrefix_def
  manifestName_def

subsection \<open>The client's rule\<close>

definition inPackageDir :: "string \<Rightarrow> bool" where
  "inPackageDir rel \<longleftrightarrow>
     has_prefix rel ''node_modules/'' \<or> str_contains rel ''/node_modules/''"

definition syncSkip :: "string \<Rightarrow> bool" where
  "syncSkip rel \<longleftrightarrow>
     rel = tokensFile \<or>
     has_prefix rel ''.'' \<or>
     has_prefix rel ''runs/'' \<or>
     has_prefix rel ''local/'' \<or>
     inPackageDir rel \<or>
     has_suffix rel conflictExt \<or>
     has_suffix rel tempExt \<or>
     has_suffix rel ''.log''"

definition skipWalkDir :: "string \<Rightarrow> bool" where
  "skipWalkDir rel \<longleftrightarrow> rel \<noteq> ''.'' \<and> syncSkip (rel @ ''/'')"

definition checksum :: "string \<Rightarrow> string" where
  "checksum data = sha256_hex data"

text \<open>The directories a walk enters to reach a file: \<open>a/b/c\<close> lies in \<open>a\<close> and in \<open>a/b\<close>.\<close>

fun parent_dirs :: "string \<Rightarrow> string list" where
  "parent_dirs [] = []"
| "parent_dirs (c # cs) =
     (if c = CHR ''/'' then [] # map ((#) c) (parent_dirs cs) else map ((#) c) (parent_dirs cs))"

definition walk_order :: "string list \<Rightarrow> string list" where
  "walk_order ps = sort_key (split_on CHR ''/'') ps"

definition walked_files :: "disk \<Rightarrow> string list" where
  "walked_files d =
     filter (\<lambda>p. list_all (\<lambda>dir. \<not> skipWalkDir dir) (parent_dirs p))
       (walk_order (remdups (map_keys d)))"

definition file_entry :: "(instant \<Rightarrow> string) \<Rightarrow> string \<Rightarrow> fsfile \<Rightarrow> FileEntry" where
  "file_entry fmt p f =
     \<lparr>fe_path = p, fe_checksum = checksum (f_data f), fe_size = int (length (f_data f)),
      fe_mod_time = fmt (f_mtime f)\<rparr>"

lemma file_entry_sel [simp]:
  "fe_path (file_entry fmt p f) = p" "fe_checksum (file_entry fmt p f) = checksum (f_data f)"
  "fe_mod_time (file_entry fmt p f) = fmt (f_mtime f)"
  by (simp_all add: file_entry_def)

definition LocalTree :: "disk \<Rightarrow> FileEntry list" where
  "LocalTree d =
     map (\<lambda>p. file_entry format_rfc3339_nano p (the (lookup d p)))
       (filter (\<lambda>p. \<not> syncSkip p) (walked_files d))"

subsection \<open>Conflict copies and single-writer paths\<close>

definition conflictPath :: "string \<Rightarrow> string" where
  "conflictPath p = conflictDir @ ''/'' @ p"

definition backedUpPath :: "string \<Rightarrow> string" where
  "backedUpPath rel =
     (case cut_prefix rel (conflictDir @ ''/'') of
        Some page \<Rightarrow> page
      | None \<Rightarrow> (case cut_suffix rel conflictExt of Some page \<Rightarrow> page | None \<Rightarrow> []))"

definition conflict_walked :: "string \<Rightarrow> bool" where
  "conflict_walked p =
     list_all (\<lambda>dir. has_prefix dir conflictDir \<or> \<not> skipWalkDir dir) (parent_dirs p)"

definition ConflictBackups :: "disk \<Rightarrow> string list" where
  "ConflictBackups d =
     sort (filter (\<lambda>page. page \<noteq> [])
             (map backedUpPath (filter conflict_walked (walk_order (remdups (map_keys d))))))"

definition singleWriter :: "string \<Rightarrow> bool" where
  "singleWriter rel =
     (case cut_prefix rel usagePrefix of Some rest \<Rightarrow> str_contains rest ''/'' | None \<Rightarrow> False)"

subsection \<open>The server's rule\<close>

definition server_inPackageDir :: "string \<Rightarrow> bool" where
  "server_inPackageDir rel \<longleftrightarrow>
     has_prefix rel ''node_modules/'' \<or> str_contains rel ''/node_modules/''"

definition server_syncSkip :: "string \<Rightarrow> bool" where
  "server_syncSkip rel \<longleftrightarrow>
     rel = ''tokens.json'' \<or>
     has_prefix rel ''.'' \<or>
     has_prefix rel ''runs/'' \<or>
     server_inPackageDir rel \<or>
     has_suffix rel ''.conflict'' \<or>
     has_suffix rel ''.tmp'' \<or>
     rel = ''spaces'' \<or> has_prefix rel ''spaces/''"

text \<open>
  \<open>filepath.Clean\<close> of a rooted path, \<open>strings.TrimPrefix\<close>-ed of its slash: empty and \<open>.\<close> segments
  go, a \<open>..\<close> takes the segment before it away and stops at the root.
\<close>

fun clean_segments :: "string list \<Rightarrow> string list \<Rightarrow> string list" where
  "clean_segments acc [] = rev acc"
| "clean_segments acc (s # ss) =
     (if s = [] \<or> s = ''.'' then clean_segments acc ss
      else if s = ''..'' then clean_segments (tl acc) ss
      else clean_segments (s # acc) ss)"

definition clean_rooted :: "string \<Rightarrow> string" where
  "clean_rooted rel = str_join ''/'' (clean_segments [] (split_on CHR ''/'' rel))"

definition resolveSyncPath :: "string \<Rightarrow> string \<Rightarrow> (string \<times> string) option" where
  "resolveSyncPath root rel =
     (let clean = clean_rooted rel in
        if clean = ''.'' \<or> server_syncSkip clean then None
        else let full = (if clean = [] then root else root @ ''/'' @ clean) in
          if full \<noteq> root \<and> \<not> has_prefix full (root @ ''/'') then None
          else Some (full, clean))"

subsection \<open>Pruning a walk loses no file the rule keeps\<close>

lemma parent_dir_prefix: "d \<in> set (parent_dirs p) \<Longrightarrow> has_prefix p (d @ ''/'')"
  by (induction p arbitrary: d) (auto split: if_splits)

lemma has_suffix_last: "has_suffix s p \<Longrightarrow> p \<noteq> [] \<Longrightarrow> last s = last p"
  by (auto simp: has_suffix_iff)

lemma inPackageDir_mono: "inPackageDir d \<Longrightarrow> inPackageDir (d @ r)"
  unfolding inPackageDir_def by (metis has_prefix_append_mono str_contains_append_mono)

lemma syncSkip_parent:
  assumes "has_prefix p (d @ ''/'')" and skip: "syncSkip (d @ ''/'')"
  shows "syncSkip p"
proof -
  have mono: "has_prefix (d @ ''/'') x \<Longrightarrow> has_prefix p x" for x
    using assms(1) has_prefix_trans by blast
  have pkg: "inPackageDir (d @ ''/'') \<Longrightarrow> inPackageDir p"
    using assms(1) inPackageDir_mono by (auto simp only: has_prefix_iff)
  have no_suffix: "\<not> has_suffix (d @ ''/'') x" if "x \<noteq> []" "last x \<noteq> CHR ''/''" for x
    using that has_suffix_last [of "d @ ''/''" x] by auto
  have "d @ ''/'' \<noteq> tokensFile"
  proof
    assume "d @ ''/'' = tokensFile"
    then have "last (d @ ''/'') = last tokensFile" by simp
    then show False by (simp add: tokensFile_def)
  qed
  moreover have "\<not> has_suffix (d @ ''/'') conflictExt" "\<not> has_suffix (d @ ''/'') tempExt"
      "\<not> has_suffix (d @ ''/'') ''.log''"
    by (simp_all add: no_suffix sync_names)
  ultimately show ?thesis
    using skip mono pkg unfolding syncSkip_def by blast
qed

lemma walked_unless_skipped:
  "\<not> syncSkip p \<Longrightarrow> list_all (\<lambda>dir. \<not> skipWalkDir dir) (parent_dirs p)"
  using parent_dir_prefix syncSkip_parent by (auto simp: list_all_iff skipWalkDir_def)

lemma set_walk_order [simp]: "set (walk_order ps) = set ps"
  by (simp add: walk_order_def)

lemma distinct_walk_order [simp]: "distinct (walk_order ps) = distinct ps"
  by (simp add: walk_order_def)

lemma map_path_LocalTree:
  "map fe_path (LocalTree d) = filter (\<lambda>p. \<not> syncSkip p) (walked_files d)"
  by (simp add: LocalTree_def file_entry_def comp_def)

lemma filter_walked_files:
  "filter (\<lambda>p. \<not> syncSkip p) (walked_files d) =
   filter (\<lambda>p. \<not> syncSkip p) (walk_order (remdups (map_keys d)))"
  unfolding walked_files_def filter_filter
  by (rule filter_cong) (auto dest: walked_unless_skipped)

lemma LocalTree_paths:
  "set (map fe_path (LocalTree d)) = {p \<in> dom (lookup d). \<not> syncSkip p}"
  unfolding map_path_LocalTree filter_walked_files by (auto simp: set_map_keys)

lemma distinct_LocalTree: "distinct (map fe_path (LocalTree d))"
  unfolding map_path_LocalTree filter_walked_files by simp

lemma LocalTree_set:
  "set (LocalTree d) =
   {file_entry format_rfc3339_nano p f |p f. lookup d p = Some f \<and> \<not> syncSkip p}"
  unfolding LocalTree_def filter_walked_files
  by (force simp: set_map_keys image_iff)

subsection \<open>Resolved server paths stay inside the tree\<close>

definition good_segment :: "string \<Rightarrow> bool" where
  "good_segment s \<longleftrightarrow> s \<noteq> [] \<and> s \<noteq> ''.'' \<and> s \<noteq> ''..''"

definition proper_path :: "string \<Rightarrow> bool" where
  "proper_path p \<longleftrightarrow> list_all good_segment (split_on CHR ''/'' p)"

lemma clean_segments_good:
  "list_all good_segment acc \<Longrightarrow> list_all good_segment (clean_segments acc ss)"
proof (induction acc ss rule: clean_segments.induct)
  case (2 acc s ss)
  moreover have "list_all good_segment (tl acc)"
    using "2.prems" by (cases acc) auto
  ultimately show ?case by (auto simp: good_segment_def [of s])
qed simp

lemma clean_segments_subset: "set (clean_segments acc ss) \<subseteq> set acc \<union> set ss"
proof (induction acc ss rule: clean_segments.induct)
  case (2 acc s ss)
  moreover have "set (tl acc) \<subseteq> set acc"
    by (cases acc) auto
  ultimately show ?case by auto
qed simp

lemma clean_segments_id:
  "list_all good_segment ss \<Longrightarrow> clean_segments acc ss = rev acc @ ss"
  by (induction acc ss rule: clean_segments.induct) (auto simp: good_segment_def)

lemma clean_rooted_proper: "proper_path p \<Longrightarrow> clean_rooted p = p"
  by (simp add: clean_rooted_def clean_segments_id proper_path_def join_split_on)

lemma clean_rooted_good: "clean_rooted rel = [] \<or> proper_path (clean_rooted rel)"
proof -
  let ?segs = "clean_segments [] (split_on CHR ''/'' rel)"
  have "\<forall>s\<in>set ?segs. CHR ''/'' \<notin> set s"
    using clean_segments_subset [of "[]" "split_on CHR ''/'' rel"] split_on_no_sep by fastforce
  moreover have "list_all good_segment ?segs"
    by (rule clean_segments_good) simp
  ultimately show ?thesis
    by (cases "?segs = []") (simp_all add: clean_rooted_def proper_path_def split_join)
qed

lemma resolveSyncPath_Some:
  "resolveSyncPath root rel = Some (full, clean) \<longleftrightarrow>
     clean = clean_rooted rel \<and> \<not> server_syncSkip clean \<and>
     full = (if clean = [] then root else root @ ''/'' @ clean)"
proof -
  have "clean_rooted rel \<noteq> ''.''"
    using clean_rooted_good [of rel] by (auto simp: proper_path_def good_segment_def)
  then show ?thesis
    using has_prefix_append [of "root @ ''/''" "clean_rooted rel"]
    by (auto simp: resolveSyncPath_def Let_def)
qed

lemma resolveSyncPath_proper:
  "proper_path p \<Longrightarrow> \<not> server_syncSkip p \<Longrightarrow> p \<noteq> [] \<Longrightarrow>
   resolveSyncPath root p = Some (root @ ''/'' @ p, p)"
  by (simp add: resolveSyncPath_Some clean_rooted_proper)

lemma proper_path_nonempty: "proper_path p \<Longrightarrow> p \<noteq> []"
  by (auto simp: proper_path_def good_segment_def)

lemma conflictPath_inj: "conflictPath p = conflictPath q \<longleftrightarrow> p = q"
  by (simp add: conflictPath_def)

lemma conflictPath_skipped: "syncSkip (conflictPath p)" "server_syncSkip (conflictPath p)"
  by (simp_all add: conflictPath_def conflictDir_def syncSkip_def server_syncSkip_def)

end
