(* ===== verification/EmbedQueue.thy ===== *)
theory EmbedQueue
  imports SyncPaths
begin

text \<open>
  The queue of wiki pages waiting to be re-embedded: \<open>internal/server/embed_queue.go\<close> and the
  enqueue path of \<open>embed_worker.go\<close>. The Go map \<open>pending\<close> with the value \<open>true\<close> everywhere is a set,
  kept as a list without repetitions; the buffered \<open>kick\<close> channel of capacity one is a flag. The
  file \<open>.embed-queue.json\<close> holds the list of targets, \<open>None\<close> when it is absent or does not parse; its
  JSON coding is the standard library's. Each write of the file succeeds or fails as the script of
  outcomes says, and a failure is only logged.
\<close>

record embedTarget =
  et_root :: string
  et_path :: string

record EmbedWorker =
  pending :: "embedTarget list"
  kick :: bool
  queue_file :: "embedTarget list option"

definition target_less :: "embedTarget \<Rightarrow> embedTarget \<Rightarrow> bool" where
  "target_less s t \<longleftrightarrow>
     (if et_root s \<noteq> et_root t then et_root s < et_root t else et_path s < et_path t)"

fun insert_target :: "embedTarget \<Rightarrow> embedTarget list \<Rightarrow> embedTarget list" where
  "insert_target t [] = [t]"
| "insert_target t (s # ss) = (if target_less s t then s # insert_target t ss else t # s # ss)"

definition sort_targets :: "embedTarget list \<Rightarrow> embedTarget list" where
  "sort_targets ts = foldr insert_target ts []"

definition embedTargetFor :: "string \<Rightarrow> string \<Rightarrow> embedTarget option" where
  "embedTargetFor root clean =
     (case cut_prefix clean ''memory/'' of
        None \<Rightarrow> None
      | Some rel \<Rightarrow>
          if has_prefix rel ''..'' \<or> \<not> has_suffix rel ''.md'' then None
          else Some \<lparr>et_root = root, et_path = rel\<rparr>)"

definition persistLocked :: "bool \<Rightarrow> EmbedWorker \<Rightarrow> EmbedWorker" where
  "persistLocked write_ok w = (if write_ok then w\<lparr>queue_file := Some (pending w)\<rparr> else w)"

definition wake :: "EmbedWorker \<Rightarrow> EmbedWorker" where
  "wake w = w\<lparr>kick := True\<rparr>"

definition hasPending :: "EmbedWorker \<Rightarrow> bool" where
  "hasPending w \<longleftrightarrow> pending w \<noteq> []"

definition add_pending :: "embedTarget \<Rightarrow> EmbedWorker \<Rightarrow> EmbedWorker" where
  "add_pending t w = w\<lparr>pending := List.insert t (pending w)\<rparr>"

definition Enqueue :: "bool \<Rightarrow> string \<Rightarrow> string \<Rightarrow> EmbedWorker \<Rightarrow> EmbedWorker" where
  "Enqueue write_ok root clean w =
     (case embedTargetFor root clean of
        None \<Rightarrow> w
      | Some t \<Rightarrow> wake (persistLocked write_ok (add_pending t w)))"

definition take_queue :: "bool \<Rightarrow> EmbedWorker \<Rightarrow> embedTarget list \<times> EmbedWorker" where
  "take_queue write_ok w =
     (sort_targets (pending w), persistLocked write_ok (w\<lparr>pending := []\<rparr>))"

definition requeue :: "bool \<Rightarrow> embedTarget \<Rightarrow> EmbedWorker \<Rightarrow> EmbedWorker" where
  "requeue write_ok t w = persistLocked write_ok (add_pending t w)"

definition restore :: "EmbedWorker \<Rightarrow> EmbedWorker" where
  "restore w =
     (case queue_file w of
        None \<Rightarrow> w
      | Some ts \<Rightarrow> fold add_pending ts w)"

text \<open>A process that dies keeps nothing but the file; the next one starts with \<open>restore\<close>.\<close>

definition restart :: "EmbedWorker \<Rightarrow> EmbedWorker" where
  "restart w = restore \<lparr>pending = [], kick = False, queue_file = queue_file w\<rparr>"

text \<open>
  \<open>flush\<close> takes the whole queue and processes it page by page; \<open>process\<close> is the embedding of one
  page, which fails or not. A page that failed goes back to the queue without a wakeup.
\<close>

definition flush_step :: "(embedTarget \<Rightarrow> bool) \<Rightarrow> embedTarget \<Rightarrow> EmbedWorker \<Rightarrow> EmbedWorker" where
  "flush_step process t w = (if process t then w else requeue True t w)"

definition flush_queue :: "(embedTarget \<Rightarrow> bool) \<Rightarrow> EmbedWorker \<Rightarrow> EmbedWorker" where
  "flush_queue process w =
     (let (targets, w') = take_queue True w
      in if targets = [] then w' else fold (flush_step process) targets w')"

subsection \<open>Order and content of a taken queue\<close>

lemma set_insert_target [simp]: "set (insert_target t ts) = insert t (set ts)"
  by (induction ts) auto

lemma set_sort_targets [simp]: "set (sort_targets ts) = set ts"
  by (induction ts) (auto simp: sort_targets_def)

lemma distinct_insert_target: "distinct (insert_target t ts) \<longleftrightarrow> t \<notin> set ts \<and> distinct ts"
  by (induction ts) auto

lemma distinct_sort_targets [simp]: "distinct (sort_targets ts) \<longleftrightarrow> distinct ts"
proof -
  have "distinct (foldr insert_target ts []) \<longleftrightarrow> distinct ts"
    using set_sort_targets by (induction ts) (auto simp: distinct_insert_target sort_targets_def)
  then show ?thesis by (simp add: sort_targets_def)
qed

lemma target_less_key: "target_less s t \<longleftrightarrow>
    et_root s < et_root t \<or> et_root s = et_root t \<and> et_path s < et_path t"
  by (auto simp: target_less_def)

lemma target_less_total: "\<not> target_less s t \<Longrightarrow> t = s \<or> target_less t s"
  by (cases s; cases t) (auto simp: target_less_key not_less)

lemma target_less_trans: "target_less a b \<Longrightarrow> target_less b c \<Longrightarrow> target_less a c"
  by (auto simp: target_less_key)

lemma sorted_insert_target:
  "sorted_wrt target_less ts \<Longrightarrow> t \<notin> set ts \<Longrightarrow> sorted_wrt target_less (insert_target t ts)"
proof (induction ts)
  case (Cons s ss)
  then have "\<not> target_less s t \<Longrightarrow> target_less t s"
    using target_less_total by auto
  with Cons show ?case by (auto intro: target_less_trans)
qed simp

lemma sorted_sort_targets: "distinct ts \<Longrightarrow> sorted_wrt target_less (sort_targets ts)"
proof (induction ts)
  case (Cons t ts)
  then show ?case
    using sorted_insert_target set_sort_targets by (auto simp: sort_targets_def)
qed (simp add: sort_targets_def)

subsection \<open>The queue on disk\<close>

text \<open>Well-formed: no target twice. Saved: the file says what the memory holds.\<close>

definition queue_wf :: "EmbedWorker \<Rightarrow> bool" where
  "queue_wf w \<longleftrightarrow> distinct (pending w)"

definition queue_saved :: "EmbedWorker \<Rightarrow> bool" where
  "queue_saved w \<longleftrightarrow> (case queue_file w of None \<Rightarrow> pending w = [] | Some ts \<Rightarrow> set ts = set (pending w))"

lemmas queue_defs = persistLocked_def wake_def add_pending_def requeue_def

lemma Enqueue_wf [inv_intros]: "queue_wf w \<Longrightarrow> queue_wf (Enqueue ok root clean w)"
  by (simp add: queue_wf_def Enqueue_def queue_defs split: option.split)

lemma Enqueue_pending:
  "set (pending (Enqueue ok root clean w)) =
     (case embedTargetFor root clean of None \<Rightarrow> {} | Some t \<Rightarrow> {t}) \<union> set (pending w)"
  by (simp add: Enqueue_def queue_defs split: option.split)

lemma Enqueue_saved [inv_intros]: "queue_saved w \<Longrightarrow> queue_saved (Enqueue True root clean w)"
  by (auto simp: queue_saved_def Enqueue_def queue_defs split: option.split)

lemma set_pending_fold_add: "set (pending (fold add_pending ts w)) = set ts \<union> set (pending w)"
  by (induction ts arbitrary: w) (auto simp: add_pending_def)

lemma restart_pending: "queue_saved w \<Longrightarrow> set (pending (restart w)) = set (pending w)"
  by (auto simp: restart_def restore_def queue_saved_def set_pending_fold_add split: option.splits)

lemma flush_step_pending:
  "set (pending (flush_step process t w)) = {x. x = t \<and> \<not> process x} \<union> set (pending w)"
  by (auto simp: flush_step_def queue_defs)

lemma fold_flush_pending:
  "set (pending (fold (flush_step process) ts w)) = {t \<in> set ts. \<not> process t} \<union> set (pending w)"
  by (induction ts arbitrary: w) (auto simp: flush_step_pending)

lemma sort_targets_Nil [simp]: "sort_targets ts = [] \<longleftrightarrow> ts = []"
  by (metis set_empty set_sort_targets)

lemma flush_queue_pending: "set (pending (flush_queue process w)) = {t \<in> set (pending w). \<not> process t}"
  by (cases "pending w = []")
    (simp_all add: flush_queue_def take_queue_def persistLocked_def fold_flush_pending)

subsection \<open>Properties\<close>

lemma fold_Enqueue:
  "queue_saved w \<Longrightarrow> queue_saved (fold (Enqueue True root) ps w) \<and>
   set (pending (fold (Enqueue True root) ps w)) =
     set (pending w) \<union> {t. \<exists>p\<in>set ps. embedTargetFor root p = Some t}"
proof (induction ps arbitrary: w)
  case (Cons p ps)
  have "queue_saved (Enqueue True root p w)" using Cons.prems by (rule Enqueue_saved)
  from Cons.IH [OF this] show ?case by (auto simp: Enqueue_pending split: option.splits)
qed simp

text \<open>
  As long as the queue file can be written, every page that was queued is queued again after the
  process dies and another one starts.
\<close>

theorem queue_survives_restart:
  assumes "queue_saved w"
  shows "set (pending (restart (fold (Enqueue True root) ps w))) =
    set (pending w) \<union> {t. \<exists>p\<in>set ps. embedTargetFor root p = Some t}"
  using restart_pending fold_Enqueue [OF assms] by blast

lemma queue_survives_restart_witness:
  "set (pending (restart (fold (Enqueue True ''/d'') [''memory/a.md'', ''flows/x.yml'']
     \<lparr>pending = [], kick = False, queue_file = None\<rparr>))) = {\<lparr>et_root = ''/d'', et_path = ''a.md''\<rparr>}"
proof -
  have "embedTargetFor ''/d'' ''memory/a.md'' = Some \<lparr>et_root = ''/d'', et_path = ''a.md''\<rparr>"
      "embedTargetFor ''/d'' ''flows/x.yml'' = None"
    by code_simp+
  then show ?thesis
    by (subst queue_survives_restart) (auto simp: queue_saved_def)
qed

text \<open>
  A flush takes every page once, in the order of roots and paths, and leaves exactly the pages whose
  embedding failed.
\<close>

theorem flush_leaves_failed:
  assumes "queue_wf w"
  shows "set (pending (flush_queue process w)) = {t \<in> set (pending w). \<not> process t} \<and>
    sorted_wrt target_less (fst (take_queue ok w)) \<and> set (fst (take_queue ok w)) = set (pending w)"
  using assms sorted_sort_targets by (simp add: flush_queue_pending take_queue_def queue_wf_def)

lemma flush_leaves_failed_witness:
  "set (pending (flush_queue (\<lambda>t. et_path t = ''a.md'')
     \<lparr>pending = [\<lparr>et_root = ''/d'', et_path = ''b.md''\<rparr>, \<lparr>et_root = ''/d'', et_path = ''a.md''\<rparr>],
       kick = True, queue_file = None\<rparr>)) = {\<lparr>et_root = ''/d'', et_path = ''b.md''\<rparr>}"
  by (subst conjunct1 [OF flush_leaves_failed]) (auto simp: queue_wf_def)

text \<open>
  Between taking the queue and finishing the work on it the file says that nothing waits. A process
  that dies there forgets every page it had taken.
\<close>

theorem crash_in_flush_forgets: "pending (restart (snd (take_queue True w))) = []"
  by (simp add: take_queue_def persistLocked_def restart_def restore_def)

end
