(* ===== verification/Effects.thy ===== *)
theory Effects
  imports Prelude
begin

text \<open>
  Effectful code: an operation takes the world and returns an error or a value with the world it
  leaves behind. \<open>io_bind\<close> is the sequence of two statements with Go's \<open>if err != nil \{ return err
  \}\<close> between them, \<open>io_each\<close> the \<open>for\<close> loop that returns at the first error.

  An effect can fail at any point. The outcome of each one is read from a script that is part of the
  world, so a property proved for every script holds for every pattern of failures. \<open>Broken s\<close> is an
  effect that fails half way, a write that leaves the bytes \<open>s\<close> behind; \<open>Lost\<close> is one that is carried
  out and reports an error all the same, as a request whose reply never arrives.

  \<open>io_valid P m Q E\<close> is the triple the component proofs use: from a world where \<open>P\<close> holds, \<open>m\<close>
  ends in \<open>Q\<close> with its value, or in \<open>E\<close> with its error.
\<close>

datatype outcome = Done | Refused | Broken string | Lost

type_synonym ('e, 'a, 'w) io = "'w \<Rightarrow> ('e + 'a) \<times> 'w"

definition io_return :: "'a \<Rightarrow> ('e, 'a, 'w) io" where
  "io_return x w = (Inr x, w)"

definition io_fail :: "'e \<Rightarrow> ('e, 'a, 'w) io" where
  "io_fail e w = (Inl e, w)"

definition io_bind :: "('e, 'a, 'w) io \<Rightarrow> ('a \<Rightarrow> ('e, 'b, 'w) io) \<Rightarrow> ('e, 'b, 'w) io" where
  "io_bind m f w = (case m w of (Inl e, w') \<Rightarrow> (Inl e, w') | (Inr x, w') \<Rightarrow> f x w')"

definition io_then :: "('e, unit, 'w) io \<Rightarrow> ('e, 'b, 'w) io \<Rightarrow> ('e, 'b, 'w) io" where
  "io_then m n = io_bind m (\<lambda>_. n)"

fun io_each :: "('a \<Rightarrow> ('e, unit, 'w) io) \<Rightarrow> 'a list \<Rightarrow> ('e, unit, 'w) io" where
  "io_each f [] = io_return ()"
| "io_each f (x # xs) = io_then (f x) (io_each f xs)"

definition io_valid ::
  "('w \<Rightarrow> bool) \<Rightarrow> ('e, 'a, 'w) io \<Rightarrow> ('a \<Rightarrow> 'w \<Rightarrow> bool) \<Rightarrow> ('e \<Rightarrow> 'w \<Rightarrow> bool) \<Rightarrow> bool" where
  "io_valid P m Q E \<longleftrightarrow>
     (\<forall>w. P w \<longrightarrow> (case m w of (Inl e, w') \<Rightarrow> E e w' | (Inr x, w') \<Rightarrow> Q x w'))"

named_theorems io_rules "triples of effectful operations"

lemma io_validI:
  "(\<And>w e w'. P w \<Longrightarrow> m w = (Inl e, w') \<Longrightarrow> E e w') \<Longrightarrow>
   (\<And>w x w'. P w \<Longrightarrow> m w = (Inr x, w') \<Longrightarrow> Q x w') \<Longrightarrow> io_valid P m Q E"
  unfolding io_valid_def by (auto split: prod.splits sum.splits)

lemma io_valid_Inr: "io_valid P m Q E \<Longrightarrow> P w \<Longrightarrow> m w = (Inr x, w') \<Longrightarrow> Q x w'"
  by (force simp: io_valid_def)

lemma io_valid_Inl: "io_valid P m Q E \<Longrightarrow> P w \<Longrightarrow> m w = (Inl e, w') \<Longrightarrow> E e w'"
  by (force simp: io_valid_def)

lemma io_valid_return [io_rules]: "io_valid (Q x) (io_return x) Q E"
  by (simp add: io_valid_def io_return_def)

lemma io_valid_fail [io_rules]: "io_valid (E e) (io_fail e) Q E"
  by (simp add: io_valid_def io_fail_def)

lemma io_valid_bind:
  assumes "io_valid P m R E" and "\<And>x. io_valid (R x) (f x) Q E"
  shows "io_valid P (io_bind m f) Q E"
proof (rule io_validI)
  fix w e w'
  assume "P w" and run: "io_bind m f w = (Inl e, w')"
  then show "E e w'"
    using assms by (cases "m w") (auto simp: io_bind_def split: sum.splits dest: io_valid_Inl io_valid_Inr)
next
  fix w x w'
  assume "P w" and run: "io_bind m f w = (Inr x, w')"
  then show "Q x w'"
    using assms by (cases "m w") (auto simp: io_bind_def split: sum.splits dest: io_valid_Inl io_valid_Inr)
qed

lemma io_valid_then:
  assumes "io_valid P m (\<lambda>_. R) E" and "io_valid R n Q E"
  shows "io_valid P (io_then m n) Q E"
  unfolding io_then_def by (rule io_valid_bind [where R = "\<lambda>_. R"]) (fact assms)+

lemma io_valid_weaken:
  assumes "io_valid P' m Q' E'" and "\<And>w. P w \<Longrightarrow> P' w" and "\<And>x w. Q' x w \<Longrightarrow> Q x w"
    and "\<And>e w. E' e w \<Longrightarrow> E e w"
  shows "io_valid P m Q E"
  using assms by (intro io_validI) (blast dest: io_valid_Inl io_valid_Inr)+

lemma io_valid_pre: "io_valid P' m Q E \<Longrightarrow> (\<And>w. P w \<Longrightarrow> P' w) \<Longrightarrow> io_valid P m Q E"
  by (rule io_valid_weaken)

text \<open>A run of a sequence, taken apart: the first statement failed, or both ran.\<close>

lemma io_bindE:
  assumes "io_bind m f w = (out, w')"
  obtains (fail) e where "m w = (Inl e, w')" "out = Inl e"
    | (run) x w1 where "m w = (Inr x, w1)" "f x w1 = (out, w')"
  using assms by (cases "m w") (auto simp: io_bind_def split: sum.splits)

lemma io_thenE:
  assumes "io_then m n w = (out, w')"
  obtains (fail) e where "m w = (Inl e, w')" "out = Inl e"
    | (run) w1 where "m w = (Inr (), w1)" "n w1 = (out, w')"
  using assms unfolding io_then_def by (cases rule: io_bindE) auto

lemma io_each_ConsE:
  assumes "io_each f (x # xs) w = (out, w')"
  obtains (fail) e where "f x w = (Inl e, w')" "out = Inl e"
    | (run) w1 where "f x w = (Inr (), w1)" "io_each f xs w1 = (out, w')"
  using assms by (auto elim: io_thenE)

lemma io_valid_if:
  "(b \<Longrightarrow> io_valid P m Q E) \<Longrightarrow> (\<not> b \<Longrightarrow> io_valid P n Q E) \<Longrightarrow> io_valid P (if b then m else n) Q E"
  by simp

text \<open>A loop keeps an invariant indexed by what is left to do.\<close>

lemma io_valid_each:
  assumes "\<And>x xs. io_valid (I (x # xs)) (f x) (\<lambda>_. I xs) E"
  shows "io_valid (I xs) (io_each f xs) (\<lambda>_. I []) E"
proof (induction xs)
  case Nil
  show ?case by (simp add: io_valid_def io_return_def)
next
  case (Cons x xs)
  show ?case using assms Cons.IH by (auto intro: io_valid_then)
qed

lemma io_valid_each_in:
  assumes "\<And>x. x \<in> set xs \<Longrightarrow> io_valid I (f x) (\<lambda>_. I) E"
  shows "io_valid I (io_each f xs) (\<lambda>_. I) E"
  using assms
proof (induction xs)
  case Nil
  show ?case by (simp add: io_valid_def io_return_def)
next
  case (Cons x xs)
  then show ?case by (auto intro: io_valid_then)
qed

lemma io_valid_conj:
  assumes "io_valid P m Q E" and "io_valid P' m Q' E'"
  shows "io_valid (\<lambda>w. P w \<and> P' w) m (\<lambda>x w. Q x w \<and> Q' x w) (\<lambda>e w. E e w \<and> E' e w)"
  using assms by (intro io_validI) (blast dest: io_valid_Inl io_valid_Inr)+

lemma io_bind_return [simp]: "io_bind (io_return x) f = f x"
  by (rule ext) (simp add: io_bind_def io_return_def)

lemma io_bind_fail [simp]: "io_bind (io_fail e) f = io_fail e"
  by (rule ext) (simp add: io_bind_def io_fail_def)

text \<open>An operation that keeps an invariant, whether it fails or not.\<close>

definition io_keeps :: "('w \<Rightarrow> bool) \<Rightarrow> ('e, 'a, 'w) io \<Rightarrow> bool" where
  "io_keeps I m \<longleftrightarrow> (\<forall>w. I w \<longrightarrow> I (snd (m w)))"

named_theorems io_keeps "operations that keep an invariant"

lemma io_keepsI: "(\<And>w. I w \<Longrightarrow> I (snd (m w))) \<Longrightarrow> io_keeps I m"
  by (simp add: io_keeps_def)

lemma io_keepsD: "io_keeps I m \<Longrightarrow> I w \<Longrightarrow> m w = (x, w') \<Longrightarrow> I w'"
  by (metis io_keeps_def snd_conv)

lemma io_keeps_return [io_keeps]: "io_keeps I (io_return x)"
  by (simp add: io_keeps_def io_return_def)

lemma io_keeps_fail [io_keeps]: "io_keeps I (io_fail e)"
  by (simp add: io_keeps_def io_fail_def)

lemma io_keeps_bind [io_keeps]:
  "io_keeps I m \<Longrightarrow> (\<And>x. io_keeps I (f x)) \<Longrightarrow> io_keeps I (io_bind m f)"
  by (force simp: io_keeps_def io_bind_def split: prod.split sum.split)

lemma io_keeps_then [io_keeps]: "io_keeps I m \<Longrightarrow> io_keeps I n \<Longrightarrow> io_keeps I (io_then m n)"
  unfolding io_then_def by (rule io_keeps_bind)

lemma io_keeps_if [io_keeps]: "io_keeps I m \<Longrightarrow> io_keeps I n \<Longrightarrow> io_keeps I (if b then m else n)"
  by simp

lemma io_keeps_let [io_keeps]: "io_keeps I (f x) \<Longrightarrow> io_keeps I (Let x f)"
  by simp

lemma io_keeps_option [io_keeps]:
  "io_keeps I a \<Longrightarrow> (\<And>y. io_keeps I (b y)) \<Longrightarrow> io_keeps I (case x of None \<Rightarrow> a | Some y \<Rightarrow> b y)"
  by (cases x) simp_all

lemma io_keeps_prod [io_keeps]:
  "(\<And>a b. io_keeps I (f a b)) \<Longrightarrow> io_keeps I (case x of (a, b) \<Rightarrow> f a b)"
  by (cases x) simp

subsection \<open>Checks and state\<close>

definition require :: "bool \<Rightarrow> 'e \<Rightarrow> ('e, unit, 'w) io" where
  "require b e = (if b then io_return () else io_fail e)"

definition io_get :: "('w \<Rightarrow> 'a) \<Rightarrow> ('e, 'a, 'w) io" where
  "io_get f w = (Inr (f w), w)"

definition io_modify :: "('w \<Rightarrow> 'w) \<Rightarrow> ('e, unit, 'w) io" where
  "io_modify f w = (Inr (), f w)"

lemma io_valid_require [io_rules]:
  "io_valid (\<lambda>w. if b then Q () w else E e w) (require b e) Q E"
  by (simp add: io_valid_def require_def io_return_def io_fail_def)

lemma io_valid_get [io_rules]: "io_valid (\<lambda>w. Q (f w) w) (io_get f) Q E"
  by (simp add: io_valid_def io_get_def)

lemma io_valid_modify [io_rules]: "io_valid (\<lambda>w. Q () (f w)) (io_modify f) Q E"
  by (simp add: io_valid_def io_modify_def)

lemma io_keeps_require [io_keeps]: "io_keeps I (require b e)"
  by (simp add: io_keeps_def require_def io_return_def io_fail_def)

lemma io_keeps_get [io_keeps]: "io_keeps I (io_get f)"
  by (simp add: io_keeps_def io_get_def)

lemma io_keeps_modify: "(\<And>w. I w \<Longrightarrow> I (f w)) \<Longrightarrow> io_keeps I (io_modify f)"
  by (simp add: io_keeps_def io_modify_def)

lemma require_True [simp]: "b \<Longrightarrow> require b e = io_return ()"
  by (simp add: require_def)

lemma require_False [simp]: "\<not> b \<Longrightarrow> require b e = io_fail e"
  by (simp add: require_def)

lemma io_then_return [simp]: "io_then (io_return x) n = n"
  by (simp add: io_then_def)

lemma io_then_fail [simp]: "io_then (io_fail e) n = io_fail e"
  by (simp add: io_then_def)

lemma io_then_require: "io_then (require b e) n = (if b then n else io_fail e)"
  by (simp add: require_def)

lemma io_bind_get: "io_bind (io_get f) g w = g (f w) w"
  by (simp add: io_bind_def io_get_def)

lemma io_bind_modify: "io_then (io_modify f) g w = g (f w)"
  by (simp add: io_then_def io_bind_def io_modify_def)

lemma io_bind_simp: "io_bind m f w = (case m w of (Inl e, w') \<Rightarrow> (Inl e, w') | (Inr x, w') \<Rightarrow> f x w')"
  by (simp add: io_bind_def)

lemmas io_eval = io_then_require io_bind_get io_bind_modify io_return_def io_fail_def

subsection \<open>Store files\<close>

text \<open>A file holding JSON: absent, not parsing, or the value it decodes to.\<close>

datatype 'a json_file = Absent | Corrupt | Stored 'a

definition stored_or_empty :: "('k, 'v) gomap json_file \<Rightarrow> ('k, 'v) gomap" where
  "stored_or_empty f = (case f of Stored m \<Rightarrow> m | _ \<Rightarrow> [])"

definition write_json :: "'a \<Rightarrow> outcome \<Rightarrow> 'a json_file \<Rightarrow> bool \<times> 'a json_file" where
  "write_json x o' f =
     (case o' of
        Done \<Rightarrow> (True, Stored x)
      | Refused \<Rightarrow> (False, f)
      | Broken _ \<Rightarrow> (False, Corrupt)
      | Lost \<Rightarrow> (False, Stored x))"

lemmas io_defs = io_bind_def io_then_def io_return_def io_fail_def

end
