(* ===== verification/SyncServer.thy ===== *)
theory SyncServer
  imports SyncPaths EmbedQueue Effects
begin

text \<open>
  The server's side of the file sync: the handlers of \<open>internal/server/sync_api.go\<close> over one tree
  root, with \<open>pathParam\<close> of \<open>helpers.go\<close>. A handler returns a status and the state it leaves. The
  request has passed authentication and \<open>scopeRoot\<close>; these are modelled in their own theory.

  The end of the theory states the interface the client relies on as the locale \<open>sync_server\<close> and
  interprets it on these handlers.
\<close>

datatype status = StatusOK string | NoContent | BadRequest | NotFoundStatus | InternalError

record server_state =
  srv_root :: string
  srv_disk :: disk
  srv_now :: instant
  srv_semantic :: bool
  srv_embed :: EmbedWorker

definition enqueueEmbed :: "string \<Rightarrow> server_state \<Rightarrow> server_state" where
  "enqueueEmbed clean s =
     (if srv_semantic s then s\<lparr>srv_embed := Enqueue True (srv_root s) clean (srv_embed s)\<rparr> else s)"

definition hex_val :: "char \<Rightarrow> nat option" where
  "hex_val c =
     (if is_digit c then Some (of_char c - 48)
      else if (97::nat) \<le> of_char c \<and> (of_char c :: nat) \<le> 102 then Some (of_char c - 87)
      else if (65::nat) \<le> of_char c \<and> (of_char c :: nat) \<le> 70 then Some (of_char c - 55)
      else None)"

fun PathUnescape :: "string \<Rightarrow> string option" where
  "PathUnescape [] = Some []"
| "PathUnescape (c # cs) =
     (if c = CHR ''%'' then
        (case cs of
           a # b # r \<Rightarrow>
             (case (hex_val a, hex_val b) of
                (Some x, Some y) \<Rightarrow> map_option ((#) (char_of (16 * x + y))) (PathUnescape r)
              | _ \<Rightarrow> None)
         | _ \<Rightarrow> None)
      else map_option ((#) c) (PathUnescape cs))"

definition pathParam :: "string \<Rightarrow> string" where
  "pathParam raw = (case PathUnescape raw of None \<Rightarrow> raw | Some s \<Rightarrow> s)"

definition syncTree :: "server_state \<Rightarrow> FileEntry list" where
  "syncTree s =
     map (\<lambda>p. file_entry format_rfc3339 p (the (lookup (srv_disk s) p)))
       (filter (\<lambda>p. \<not> server_syncSkip p) (walk_order (remdups (map_keys (srv_disk s)))))"

definition syncGetFile :: "string \<Rightarrow> server_state \<Rightarrow> status" where
  "syncGetFile raw s =
     (case resolveSyncPath (srv_root s) (pathParam raw) of
        None \<Rightarrow> BadRequest
      | Some (full, clean) \<Rightarrow>
          (case lookup (srv_disk s) clean of
             None \<Rightarrow> NotFoundStatus
           | Some f \<Rightarrow> StatusOK (f_data f)))"

definition write_server_file :: "string \<Rightarrow> string \<Rightarrow> server_state \<Rightarrow> server_state" where
  "write_server_file clean body s =
     s\<lparr>srv_disk := AList.update clean \<lparr>f_data = body, f_mtime = srv_now s\<rparr> (srv_disk s)\<rparr>"

text \<open>
  The outcome is that of the handler's own file operations: \<open>Refused\<close> when the directory cannot be
  made or the body cannot be read, \<open>Broken\<close> when \<open>os.WriteFile\<close> stops half way.
\<close>

definition syncPutFile :: "outcome \<Rightarrow> string \<Rightarrow> string \<Rightarrow> server_state \<Rightarrow> status \<times> server_state" where
  "syncPutFile io raw body s =
     (case resolveSyncPath (srv_root s) (pathParam raw) of
        None \<Rightarrow> (BadRequest, s)
      | Some (full, clean) \<Rightarrow>
          if clean = [] then (InternalError, s)
          else
            (case io of
               Refused \<Rightarrow> (InternalError, s)
             | Broken t \<Rightarrow> (InternalError, write_server_file clean t s)
             | _ \<Rightarrow> (NoContent, enqueueEmbed clean (write_server_file clean body s))))"

definition syncDeleteFile :: "outcome \<Rightarrow> string \<Rightarrow> server_state \<Rightarrow> status \<times> server_state" where
  "syncDeleteFile io raw s =
     (case resolveSyncPath (srv_root s) (pathParam raw) of
        None \<Rightarrow> (BadRequest, s)
      | Some (full, clean) \<Rightarrow>
          if clean = [] \<and> srv_disk s \<noteq> [] then (InternalError, s)
          else
            (case io of
               Refused \<Rightarrow> (InternalError, s)
             | Broken t \<Rightarrow> (InternalError, s)
             | _ \<Rightarrow> (NoContent, enqueueEmbed clean (s\<lparr>srv_disk := AList.delete clean (srv_disk s)\<rparr>))))"

subsection \<open>What the handlers do\<close>

text \<open>
  A path the client may send and have arrive as it is: proper segments, nothing the server's rule
  hides, and none of the three characters with a meaning of their own in a URL.
\<close>

definition url_plain :: "string \<Rightarrow> bool" where
  "url_plain p \<longleftrightarrow> CHR ''%'' \<notin> set p \<and> CHR ''?'' \<notin> set p \<and> CHR ''#'' \<notin> set p"

definition addressable :: "string \<Rightarrow> bool" where
  "addressable p \<longleftrightarrow> proper_path p \<and> \<not> server_syncSkip p \<and> url_plain p"

text \<open>
  The client puts the path into the URL as it is. \<open>net/url\<close> cuts it at the first \<open>#\<close> or \<open>?\<close>. A path
  with a percent sign is outside the model and counts as refused.
\<close>

definition wire_path :: "string \<Rightarrow> string option" where
  "wire_path p =
     (let q = takeWhile (\<lambda>c. c \<noteq> CHR ''?'' \<and> c \<noteq> CHR ''#'') p
      in if CHR ''%'' \<in> set q then None else Some q)"

lemma PathUnescape_plain: "CHR ''%'' \<notin> set p \<Longrightarrow> PathUnescape p = Some p"
  by (induction p) auto

lemma pathParam_plain [simp]: "CHR ''%'' \<notin> set p \<Longrightarrow> pathParam p = p"
  by (simp add: pathParam_def PathUnescape_plain)

lemma wire_path_plain: "url_plain p \<Longrightarrow> wire_path p = Some p"
proof -
  assume u: "url_plain p"
  then have eq: "takeWhile (\<lambda>c. c \<noteq> CHR ''?'' \<and> c \<noteq> CHR ''#'') p = p"
    by (auto simp: url_plain_def)
  show ?thesis
    using u unfolding wire_path_def Let_def eq by (simp add: url_plain_def)
qed

lemma addressable_resolve:
  "addressable p \<Longrightarrow> resolveSyncPath root (pathParam p) = Some (root @ ''/'' @ p, p)"
  by (simp add: addressable_def url_plain_def resolveSyncPath_proper proper_path_nonempty)

lemma enqueueEmbed_disk [simp]:
  "srv_disk (enqueueEmbed c s) = srv_disk s" "srv_root (enqueueEmbed c s) = srv_root s"
  by (simp_all add: enqueueEmbed_def)

lemma syncTree_paths: "set (map fe_path (syncTree s)) = {p \<in> dom (lookup (srv_disk s)). \<not> server_syncSkip p}"
  by (auto simp: syncTree_def file_entry_def comp_def set_map_keys)

lemma distinct_syncTree: "distinct (map fe_path (syncTree s))"
  by (simp add: syncTree_def file_entry_def comp_def)

lemma syncTree_set:
  "set (syncTree s) =
   {file_entry format_rfc3339 p f |p f. lookup (srv_disk s) p = Some f \<and> \<not> server_syncSkip p}"
  unfolding syncTree_def by (force simp: set_map_keys image_iff)

subsection \<open>The interface the client relies on\<close>

text \<open>
  What the client calls: the list of the tree, and three requests for one path. A request that
  changes the server takes the outcome of the exchange and says whether the status was the one the
  client wants. The locale's laws speak of addressable paths; \<open>files\<close> is what the server holds.
\<close>

record 's server_api =
  api_tree :: "'s \<Rightarrow> FileEntry list"
  api_get :: "string \<Rightarrow> 's \<Rightarrow> string option"
  api_put :: "outcome \<Rightarrow> string \<Rightarrow> string \<Rightarrow> 's \<Rightarrow> bool \<times> 's"
  api_del :: "outcome \<Rightarrow> string \<Rightarrow> 's \<Rightarrow> bool \<times> 's"

locale sync_server =
  fixes api :: "'s server_api" and files :: "'s \<Rightarrow> string \<Rightarrow> string option"
  assumes tree_distinct: "distinct (map fe_path (api_tree api s))"
    and tree_files: "(\<exists>e\<in>set (api_tree api s). fe_path e = p \<and> fe_checksum e = c) \<longleftrightarrow>
      (\<exists>d. files s p = Some d \<and> c = checksum d)"
    and get_files: "addressable p \<Longrightarrow> api_get api p s = files s p"
    and put_files: "addressable p \<Longrightarrow> api_put api Done p d s = (b, s') \<Longrightarrow>
      b \<and> files s' = (files s)(p \<mapsto> d)"
    and put_fault: "addressable p \<Longrightarrow> io \<noteq> Done \<Longrightarrow> api_put api io p d s = (b, s') \<Longrightarrow>
      \<not> b \<and> (files s' = files s \<or> (\<exists>t. files s' = (files s)(p \<mapsto> t)))"
    and del_files: "addressable p \<Longrightarrow> api_del api Done p s = (b, s') \<Longrightarrow>
      b \<and> files s' = (files s)(p := None)"
    and del_fault: "addressable p \<Longrightarrow> io \<noteq> Done \<Longrightarrow> api_del api io p s = (b, s') \<Longrightarrow>
      \<not> b \<and> (files s' = files s \<or> files s' = (files s)(p := None))"
begin

lemma put_frame:
  "addressable p \<Longrightarrow> api_put api io p d s = (b, s') \<Longrightarrow> q \<noteq> p \<Longrightarrow> files s' q = files s q"
  by (cases "io = Done") (auto dest: put_files put_fault)

lemma del_frame:
  "addressable p \<Longrightarrow> api_del api io p s = (b, s') \<Longrightarrow> q \<noteq> p \<Longrightarrow> files s' q = files s q"
  by (cases "io = Done") (auto dest: del_files del_fault)

lemma put_then_get:
  "addressable p \<Longrightarrow> api_put api Done p d s = (b, s') \<Longrightarrow> api_get api p s' = Some d"
  by (auto dest: put_files simp: get_files)

end

definition server_files :: "server_state \<Rightarrow> string \<Rightarrow> string option" where
  "server_files s p =
     (if server_syncSkip p then None else map_option f_data (lookup (srv_disk s) p))"

definition http_get :: "string \<Rightarrow> server_state \<Rightarrow> string option" where
  "http_get p s =
     (case wire_path p of
        None \<Rightarrow> None
      | Some raw \<Rightarrow> (case syncGetFile raw s of StatusOK d \<Rightarrow> Some d | _ \<Rightarrow> None))"

text \<open>A lost reply is a handler that did its work and a client that sees an error.\<close>

definition http_put :: "outcome \<Rightarrow> string \<Rightarrow> string \<Rightarrow> server_state \<Rightarrow> bool \<times> server_state" where
  "http_put io p d s =
     (case wire_path p of
        None \<Rightarrow> (False, s)
      | Some raw \<Rightarrow> (case syncPutFile io raw d s of (st, s') \<Rightarrow> (st = NoContent \<and> io \<noteq> Lost, s')))"

definition http_delete :: "outcome \<Rightarrow> string \<Rightarrow> server_state \<Rightarrow> bool \<times> server_state" where
  "http_delete io p s =
     (case wire_path p of
        None \<Rightarrow> (False, s)
      | Some raw \<Rightarrow> (case syncDeleteFile io raw s of (st, s') \<Rightarrow> (st = NoContent \<and> io \<noteq> Lost, s')))"

definition mycelium_api :: "server_state server_api" where
  "mycelium_api =
     \<lparr>api_tree = syncTree, api_get = http_get, api_put = http_put, api_del = http_delete\<rparr>"

lemma addressableD: "addressable p \<Longrightarrow> \<not> server_syncSkip p \<and> p \<noteq> [] \<and> wire_path p = Some p"
  using proper_path_nonempty by (auto simp: addressable_def wire_path_plain)

lemma http_put_files:
  assumes "addressable p" and "http_put io p d s = (b, s')"
  shows "(b \<longleftrightarrow> io = Done) \<and>
    (server_files s' = server_files s \<and> io \<noteq> Done \<or>
     (\<exists>t. server_files s' = (server_files s)(p \<mapsto> t) \<and> (io = Done \<longrightarrow> t = d)))"
  using assms addressableD [OF assms(1)] addressable_resolve [OF assms(1)]
  by (cases io) (auto simp: http_put_def syncPutFile_def write_server_file_def server_files_def
      fun_eq_iff)

lemma http_delete_files:
  assumes "addressable p" and "http_delete io p s = (b, s')"
  shows "(b \<longleftrightarrow> io = Done) \<and>
    (server_files s' = server_files s \<and> io \<noteq> Done \<or> server_files s' = (server_files s)(p := None))"
  using assms addressableD [OF assms(1)] addressable_resolve [OF assms(1)]
  by (cases io) (auto simp: http_delete_def syncDeleteFile_def server_files_def fun_eq_iff)

interpretation srv: sync_server mycelium_api server_files
proof
  fix s s' p c d io b
  show "distinct (map fe_path (api_tree mycelium_api s))"
    by (simp add: mycelium_api_def distinct_syncTree)
  show "(\<exists>e\<in>set (api_tree mycelium_api s). fe_path e = p \<and> fe_checksum e = c) \<longleftrightarrow>
      (\<exists>d. server_files s p = Some d \<and> c = checksum d)"
    unfolding mycelium_api_def server_api.simps syncTree_set bex_Collect2
    by (auto simp: server_files_def)
  assume a: "addressable p"
  show "api_get mycelium_api p s = server_files s p"
    using addressableD [OF a] addressable_resolve [OF a]
    by (simp add: mycelium_api_def http_get_def syncGetFile_def server_files_def split: option.split)
  show "api_put mycelium_api Done p d s = (b, s') \<Longrightarrow> b \<and> server_files s' = (server_files s)(p \<mapsto> d)"
    using http_put_files [OF a, of Done d s b s'] by (auto simp: mycelium_api_def)
  show "io \<noteq> Done \<Longrightarrow> api_put mycelium_api io p d s = (b, s') \<Longrightarrow>
      \<not> b \<and> (server_files s' = server_files s \<or> (\<exists>t. server_files s' = (server_files s)(p \<mapsto> t)))"
    using http_put_files [OF a, of io d s b s'] by (auto simp: mycelium_api_def)
  show "api_del mycelium_api Done p s = (b, s') \<Longrightarrow> b \<and> server_files s' = (server_files s)(p := None)"
    using http_delete_files [OF a, of Done s b s'] by (auto simp: mycelium_api_def)
  show "io \<noteq> Done \<Longrightarrow> api_del mycelium_api io p s = (b, s') \<Longrightarrow>
      \<not> b \<and> (server_files s' = server_files s \<or> server_files s' = (server_files s)(p := None))"
    using http_delete_files [OF a, of io s b s'] by (auto simp: mycelium_api_def)
qed

end
