(* ===== verification/SyncClient.thy ===== *)
theory SyncClient
  imports SyncServer
begin

text \<open>
  The three-way reconcile of \<open>internal/sync\<close>: \<open>sync.go\<close>, \<open>conflict.go\<close>, \<open>singlewriter.go\<close>,
  \<open>transfer.go\<close>, \<open>manifest.go\<close> and the requests of \<open>client.go\<close>, as operations on a world that holds
  this machine's data directory, the last-synced base, the server and the script of outcomes.

  The base file \<open>.sync-base.json\<close> is a field of its own: absent, unparsable, or the map it holds (its
  JSON coding is the standard library's). A run of \<open>Sync\<close> works on the world extended by the two
  things the Go struct \<open>reconcile\<close> points to, the base being rebuilt and the result being reported.
  One run sees one instant of the clock, and no other machine writes to the server during it.
\<close>

datatype base_file = NoBase | CorruptBase | SavedBase "(string, string) gomap"

record 's world =
  disk :: disk
  base_file :: base_file
  server :: 's
  now :: instant
  faults :: "outcome list"

record BulkDeleteError =
  bd_Local :: "string list"
  bd_Remote :: "string list"
  bd_LocalFiles :: nat
  bd_RemoteFiles :: nat

datatype sync_error = FileError | HttpError | BulkDelete BulkDeleteError

record Result =
  Uploaded :: "string list"
  Downloaded :: "string list"
  DeletedLocal :: "string list"
  DeletedRemote :: "string list"
  Conflicts :: "string list"

record 's sync_run = "'s world" +
  base_next :: "(string, string) gomap"
  res :: Result

definition MaxSilentDeletes :: nat where "MaxSilentDeletes = 10"

definition Inventory :: "BulkDeleteError \<Rightarrow> string" where
  "Inventory e =
     ''The server holds '' @ itoa (int (bd_RemoteFiles e)) @ '' files and this machine holds '' @
     itoa (int (bd_LocalFiles e))"

definition bulk_Total :: "BulkDeleteError \<Rightarrow> nat" where
  "bulk_Total e = length (bd_Local e) + length (bd_Remote e)"

definition bulk_Error :: "BulkDeleteError \<Rightarrow> string" where
  "bulk_Error e =
     (let l = itoa (int (length (bd_Local e))); r = itoa (int (length (bd_Remote e)))
      in if bd_Remote e = [] then
           ''sync stopped: '' @ l @ '' files are gone from the server and would be deleted here''
         else if bd_Local e = [] then
           ''sync stopped: '' @ r @ '' files were removed here and would be deleted on the server''
         else
           ''sync stopped: '' @ l @ '' files would be deleted here and '' @ r @ '' on the server'')"

definition result_Total :: "Result \<Rightarrow> nat" where
  "result_Total r =
     length (Uploaded r) + length (Downloaded r) + length (DeletedLocal r) +
     length (DeletedRemote r) + length (Conflicts r)"

subsection \<open>Effects on this machine\<close>

definition next_outcome :: "('s, 'm) world_scheme \<Rightarrow> outcome" where
  "next_outcome w = (case faults w of [] \<Rightarrow> Done | f # _ \<Rightarrow> f)"

definition spend_fault :: "('s, 'm) world_scheme \<Rightarrow> ('s, 'm) world_scheme" where
  "spend_fault w = w\<lparr>faults := tl (faults w)\<rparr>"

definition read_local :: "string \<Rightarrow> (sync_error, string, ('s, 'm) world_scheme) io" where
  "read_local p w =
     (case (next_outcome w, lookup (disk w) p) of
        (Done, Some f) \<Rightarrow> (Inr (f_data f), spend_fault w)
      | _ \<Rightarrow> (Inl FileError, spend_fault w))"

definition put_disk :: "string \<Rightarrow> string \<Rightarrow> ('s, 'm) world_scheme \<Rightarrow> ('s, 'm) world_scheme" where
  "put_disk p d w = w\<lparr>disk := AList.update p \<lparr>f_data = d, f_mtime = now w\<rparr> (disk w)\<rparr>"

text \<open>\<open>os.MkdirAll\<close> of the parent followed by \<open>os.WriteFile\<close>.\<close>

definition write_local ::
  "string \<Rightarrow> string \<Rightarrow> (sync_error, unit, ('s, 'm) world_scheme) io" where
  "write_local p d w =
     (case next_outcome w of
        Done \<Rightarrow> (Inr (), put_disk p d (spend_fault w))
      | Refused \<Rightarrow> (Inl FileError, spend_fault w)
      | Broken t \<Rightarrow> (Inl FileError, put_disk p t (spend_fault w))
      | Lost \<Rightarrow> (Inl FileError, put_disk p d (spend_fault w)))"

text \<open>\<open>os.Remove\<close>, where a file that does not exist is no error.\<close>

definition remove_file :: "string \<Rightarrow> (sync_error, unit, ('s, 'm) world_scheme) io" where
  "remove_file p w =
     (case next_outcome w of
        Done \<Rightarrow> (Inr (), (spend_fault w)\<lparr>disk := AList.delete p (disk w)\<rparr>)
      | Lost \<Rightarrow> (Inl FileError, (spend_fault w)\<lparr>disk := AList.delete p (disk w)\<rparr>)
      | _ \<Rightarrow> (Inl FileError, spend_fault w))"

subsection \<open>Requests: client.go\<close>

definition Tree :: "'s server_api \<Rightarrow> (sync_error, FileEntry list, ('s, 'm) world_scheme) io" where
  "Tree api w =
     (case next_outcome w of
        Done \<Rightarrow> (Inr (api_tree api (server w)), spend_fault w)
      | _ \<Rightarrow> (Inl HttpError, spend_fault w))"

definition Download ::
  "'s server_api \<Rightarrow> string \<Rightarrow> (sync_error, string, ('s, 'm) world_scheme) io" where
  "Download api p w =
     (case (next_outcome w, api_get api p (server w)) of
        (Done, Some d) \<Rightarrow> (Inr d, spend_fault w)
      | _ \<Rightarrow> (Inl HttpError, spend_fault w))"

definition Upload ::
  "'s server_api \<Rightarrow> string \<Rightarrow> string \<Rightarrow> (sync_error, unit, ('s, 'm) world_scheme) io" where
  "Upload api p d w =
     (case api_put api (next_outcome w) p d (server w) of
        (ok, s') \<Rightarrow> (if ok then Inr () else Inl HttpError, (spend_fault w)\<lparr>server := s'\<rparr>))"

definition Delete :: "'s server_api \<Rightarrow> string \<Rightarrow> (sync_error, unit, ('s, 'm) world_scheme) io" where
  "Delete api p w =
     (case api_del api (next_outcome w) p (server w) of
        (ok, s') \<Rightarrow> (if ok then Inr () else Inl HttpError, (spend_fault w)\<lparr>server := s'\<rparr>))"

subsection \<open>Transfers: transfer.go\<close>

definition uploadFile ::
  "'s server_api \<Rightarrow> string \<Rightarrow> (sync_error, unit, ('s, 'm) world_scheme) io" where
  "uploadFile api p = io_bind (read_local p) (\<lambda>data. Upload api p data)"

definition downloadFile ::
  "'s server_api \<Rightarrow> string \<Rightarrow> (sync_error, unit, ('s, 'm) world_scheme) io" where
  "downloadFile api p = io_bind (Download api p) (\<lambda>data. write_local p data)"

definition removeLocal :: "string \<Rightarrow> (sync_error, unit, ('s, 'm) world_scheme) io" where
  "removeLocal p = remove_file p"

definition writeConflictCopy ::
  "string \<Rightarrow> string \<Rightarrow> (sync_error, unit, ('s, 'm) world_scheme) io" where
  "writeConflictCopy p data = write_local (conflictPath p) data"

subsection \<open>The base: manifest.go\<close>

definition loadManifest :: "(sync_error, (string, string) gomap, ('s, 'm) world_scheme) io" where
  "loadManifest w =
     (case next_outcome w of
        Done \<Rightarrow>
          (Inr (case base_file w of NoBase \<Rightarrow> [] | CorruptBase \<Rightarrow> [] | SavedBase m \<Rightarrow> m),
           spend_fault w)
      | _ \<Rightarrow> (Inl FileError, spend_fault w))"

definition saveManifest ::
  "(string, string) gomap \<Rightarrow> (sync_error, unit, ('s, 'm) world_scheme) io" where
  "saveManifest files w =
     (case next_outcome w of
        Done \<Rightarrow> (Inr (), (spend_fault w)\<lparr>base_file := SavedBase files\<rparr>)
      | Refused \<Rightarrow> (Inl FileError, spend_fault w)
      | Broken t \<Rightarrow> (Inl FileError, (spend_fault w)\<lparr>base_file := CorruptBase\<rparr>)
      | Lost \<Rightarrow> (Inl FileError, (spend_fault w)\<lparr>base_file := SavedBase files\<rparr>))"

definition ResetBase :: "(sync_error, unit, ('s, 'm) world_scheme) io" where
  "ResetBase w =
     (case next_outcome w of
        Done \<Rightarrow> (Inr (), (spend_fault w)\<lparr>base_file := NoBase\<rparr>)
      | Lost \<Rightarrow> (Inl FileError, (spend_fault w)\<lparr>base_file := NoBase\<rparr>)
      | _ \<Rightarrow> (Inl FileError, spend_fault w))"

definition indexByPath :: "FileEntry list \<Rightarrow> (string, FileEntry) gomap" where
  "indexByPath entries = fold (\<lambda>e m. AList.update (fe_path e) e m) entries []"

definition unionPaths ::
  "(string, FileEntry) gomap \<Rightarrow> (string, FileEntry) gomap \<Rightarrow> (string, string) gomap \<Rightarrow> string list"
where
  "unionPaths local remote base =
     sort (remdups (map_keys local @ map_keys remote @ map_keys base))"

definition setBase :: "string \<Rightarrow> string \<Rightarrow> (string, string) gomap \<Rightarrow> (string, string) gomap" where
  "setBase p c base = (if c = [] then AList.delete p base else AList.update p c base)"

text \<open>Both layouts \<open>parseTime\<close> tries accept a fraction of a second, so the second never succeeds alone.\<close>

definition parseTime :: "string \<Rightarrow> instant option" where
  "parseTime s =
     (if s = [] then None
      else case parse_rfc3339 s of Some t \<Rightarrow> Some t | None \<Rightarrow> parse_rfc3339 s)"

subsection \<open>One path: sync.go and conflict.go\<close>

record reconcile =
  r_path :: string
  r_local :: FileEntry
  r_remote :: FileEntry
  r_base :: string

definition no_entry :: FileEntry where
  "no_entry = \<lparr>fe_path = [], fe_checksum = [], fe_size = 0, fe_mod_time = []\<rparr>"

definition deletesLocal :: "FileEntry \<Rightarrow> FileEntry \<Rightarrow> string \<Rightarrow> bool" where
  "deletesLocal local remote base \<longleftrightarrow>
     fe_checksum local = base \<and> fe_checksum remote \<noteq> base \<and> fe_checksum remote = []"

definition deletesRemote :: "FileEntry \<Rightarrow> FileEntry \<Rightarrow> string \<Rightarrow> bool" where
  "deletesRemote local remote base \<longleftrightarrow>
     fe_checksum remote = base \<and> fe_checksum local \<noteq> base \<and> fe_checksum local = []"

definition localWins :: "FileEntry \<Rightarrow> FileEntry \<Rightarrow> bool" where
  "localWins local remote =
     (case (parseTime (fe_mod_time local), parseTime (fe_mod_time remote)) of
        (Some lt, Some rt) \<Rightarrow>
          if lt \<noteq> rt then lt > rt else fe_checksum local \<ge> fe_checksum remote
      | _ \<Rightarrow> fe_checksum local \<ge> fe_checksum remote)"

text \<open>The updates of the maps and lists the run points to.\<close>

definition note_base :: "string \<Rightarrow> string \<Rightarrow> (sync_error, unit, ('s, 'm) sync_run_scheme) io" where
  "note_base p c w = (Inr (), w\<lparr>base_next := setBase p c (base_next w)\<rparr>)"

definition note_set :: "string \<Rightarrow> string \<Rightarrow> (sync_error, unit, ('s, 'm) sync_run_scheme) io" where
  "note_set p c w = (Inr (), w\<lparr>base_next := AList.update p c (base_next w)\<rparr>)"

definition note_del :: "string \<Rightarrow> (sync_error, unit, ('s, 'm) sync_run_scheme) io" where
  "note_del p w = (Inr (), w\<lparr>base_next := AList.delete p (base_next w)\<rparr>)"

definition note_res :: "(Result \<Rightarrow> Result) \<Rightarrow> (sync_error, unit, ('s, 'm) sync_run_scheme) io" where
  "note_res f w = (Inr (), w\<lparr>res := f (res w)\<rparr>)"

abbreviation add_uploaded where "add_uploaded p \<equiv> Uploaded_update (\<lambda>l. l @ [p])"
abbreviation add_downloaded where "add_downloaded p \<equiv> Downloaded_update (\<lambda>l. l @ [p])"
abbreviation add_deleted_local where "add_deleted_local p \<equiv> DeletedLocal_update (\<lambda>l. l @ [p])"
abbreviation add_deleted_remote where "add_deleted_remote p \<equiv> DeletedRemote_update (\<lambda>l. l @ [p])"
abbreviation add_conflict where "add_conflict p \<equiv> Conflicts_update (\<lambda>l. l @ [p])"

definition push_path ::
  "'s server_api \<Rightarrow> reconcile \<Rightarrow> (sync_error, unit, ('s, 'm) sync_run_scheme) io" where
  "push_path api r =
     io_then (uploadFile api (r_path r))
     (io_then (note_res (add_uploaded (r_path r)))
       (note_set (r_path r) (fe_checksum (r_local r))))"

definition pull_path ::
  "'s server_api \<Rightarrow> reconcile \<Rightarrow> (sync_error, unit, ('s, 'm) sync_run_scheme) io" where
  "pull_path api r =
     io_then (downloadFile api (r_path r))
     (io_then (note_res (add_downloaded (r_path r)))
       (note_set (r_path r) (fe_checksum (r_remote r))))"

definition applyLocalChange ::
  "'s server_api \<Rightarrow> reconcile \<Rightarrow> (sync_error, unit, ('s, 'm) sync_run_scheme) io" where
  "applyLocalChange api r =
     (if deletesRemote (r_local r) (r_remote r) (r_base r) then
        io_then (Delete api (r_path r))
        (io_then (note_res (add_deleted_remote (r_path r))) (note_del (r_path r)))
      else push_path api r)"

definition applyRemoteChange ::
  "'s server_api \<Rightarrow> reconcile \<Rightarrow> (sync_error, unit, ('s, 'm) sync_run_scheme) io" where
  "applyRemoteChange api r =
     (if deletesLocal (r_local r) (r_remote r) (r_base r) then
        io_then (removeLocal (r_path r))
        (io_then (note_res (add_deleted_local (r_path r))) (note_del (r_path r)))
      else pull_path api r)"

definition keepServerCopy ::
  "'s server_api \<Rightarrow> reconcile \<Rightarrow> (sync_error, unit, ('s, 'm) sync_run_scheme) io" where
  "keepServerCopy api r =
     io_then (pull_path api r)
       (note_res (add_conflict
         (r_path r @ '' (deleted locally, edited on server '' @ [CHR 226, CHR 128, CHR 148] @
          '' kept server copy)'')))"

definition keepLocalCopy ::
  "'s server_api \<Rightarrow> reconcile \<Rightarrow> (sync_error, unit, ('s, 'm) sync_run_scheme) io" where
  "keepLocalCopy api r =
     io_then (push_path api r)
       (note_res (add_conflict
         (r_path r @ '' (deleted on server, edited locally '' @ [CHR 226, CHR 128, CHR 148] @
          '' kept local copy)'')))"

definition backupRemoteAndPushLocal ::
  "'s server_api \<Rightarrow> reconcile \<Rightarrow> (sync_error, unit, ('s, 'm) sync_run_scheme) io" where
  "backupRemoteAndPushLocal api r =
     io_bind (Download api (r_path r)) (\<lambda>remoteData.
       io_then (writeConflictCopy (r_path r) remoteData) (push_path api r))"

definition backupLocalAndPullRemote ::
  "'s server_api \<Rightarrow> reconcile \<Rightarrow> (sync_error, unit, ('s, 'm) sync_run_scheme) io" where
  "backupLocalAndPullRemote api r =
     io_bind (read_local (r_path r)) (\<lambda>localData.
       io_then (writeConflictCopy (r_path r) localData) (pull_path api r))"

definition resolveSingleWriter ::
  "'s server_api \<Rightarrow> reconcile \<Rightarrow> (sync_error, unit, ('s, 'm) sync_run_scheme) io" where
  "resolveSingleWriter api r =
     (if localWins (r_local r) (r_remote r) then push_path api r else pull_path api r)"

definition resolveConflict ::
  "'s server_api \<Rightarrow> reconcile \<Rightarrow> (sync_error, unit, ('s, 'm) sync_run_scheme) io" where
  "resolveConflict api r =
     (if fe_checksum (r_local r) = [] then keepServerCopy api r
      else if fe_checksum (r_remote r) = [] then keepLocalCopy api r
      else if singleWriter (r_path r) then resolveSingleWriter api r
      else
        io_then
          (if localWins (r_local r) (r_remote r) then backupRemoteAndPushLocal api r
           else backupLocalAndPullRemote api r)
          (note_res (add_conflict
            (r_path r @ '' (edited on both, losing copy at '' @ conflictDir @ ''/'' @ r_path r @
             '')''))))"

definition reconcilePath ::
  "'s server_api \<Rightarrow> reconcile \<Rightarrow> (sync_error, unit, ('s, 'm) sync_run_scheme) io" where
  "reconcilePath api r =
     (let localMod = (fe_checksum (r_local r) \<noteq> r_base r);
          remoteMod = (fe_checksum (r_remote r) \<noteq> r_base r)
      in if \<not> localMod \<and> \<not> remoteMod then note_base (r_path r) (fe_checksum (r_local r))
         else if localMod \<and> \<not> remoteMod then applyLocalChange api r
         else if \<not> localMod \<and> remoteMod then applyRemoteChange api r
         else if fe_checksum (r_local r) = fe_checksum (r_remote r)
         then note_base (r_path r) (fe_checksum (r_local r))
         else resolveConflict api r)"

subsection \<open>The whole tree: Sync, Push, Pull\<close>

definition plannedDeletes ::
  "string list \<Rightarrow> (string, FileEntry) gomap \<Rightarrow> (string, FileEntry) gomap \<Rightarrow>
   (string, string) gomap \<Rightarrow> BulkDeleteError" where
  "plannedDeletes paths local remote base =
     (let dl = (\<lambda>p. deletesLocal (get_or no_entry local p) (get_or no_entry remote p) (get_or [] base p));
          dr = (\<lambda>p. deletesRemote (get_or no_entry local p) (get_or no_entry remote p) (get_or [] base p))
      in \<lparr>bd_Local = filter dl paths, bd_Remote = filter (\<lambda>p. \<not> dl p \<and> dr p) paths,
          bd_LocalFiles = length local, bd_RemoteFiles = length remote\<rparr>)"

definition prune_page :: "string \<Rightarrow> (sync_error, unit, ('s, 'm) world_scheme) io" where
  "prune_page page =
     (if singleWriter page then
        io_then (remove_file (conflictPath page)) (remove_file (page @ conflictExt))
      else io_return ())"

definition pruneSingleWriterConflicts :: "(sync_error, unit, ('s, 'm) world_scheme) io" where
  "pruneSingleWriterConflicts w = io_each prune_page (ConflictBackups (disk w)) w"

definition no_result :: Result where
  "no_result = \<lparr>Uploaded = [], Downloaded = [], DeletedLocal = [], DeletedRemote = [], Conflicts = []\<rparr>"

definition path_job ::
  "(string, FileEntry) gomap \<Rightarrow> (string, FileEntry) gomap \<Rightarrow> (string, string) gomap \<Rightarrow>
   string \<Rightarrow> reconcile" where
  "path_job local remote base p =
     \<lparr>r_path = p, r_local = get_or no_entry local p, r_remote = get_or no_entry remote p,
      r_base = get_or [] base p\<rparr>"

definition start_run :: "(string, string) gomap \<Rightarrow> 's world \<Rightarrow> 's sync_run" where
  "start_run base w = world.extend w \<lparr>base_next = base, res = no_result\<rparr>"

text \<open>The loop over the paths, then the pruning, then the new base.\<close>

definition reconcile_all ::
  "'s server_api \<Rightarrow> (string, FileEntry) gomap \<Rightarrow> (string, FileEntry) gomap \<Rightarrow>
   (string, string) gomap \<Rightarrow> string list \<Rightarrow> (sync_error, unit, 's sync_run) io" where
  "reconcile_all api local remote base paths =
     io_then (io_each (\<lambda>p. reconcilePath api (path_job local remote base p)) paths)
     (io_then pruneSingleWriterConflicts (\<lambda>w. saveManifest (base_next w) w))"

definition finish_run ::
  "(sync_error + unit) \<times> 's sync_run \<Rightarrow> (sync_error + Result) \<times> 's world" where
  "finish_run r =
     (case r of (Inl e, w) \<Rightarrow> (Inl e, world.truncate w) | (Inr _, w) \<Rightarrow> (Inr (res w), world.truncate w))"

definition Sync :: "'s server_api \<Rightarrow> bool \<Rightarrow> (sync_error, Result, 's world) io" where
  "Sync api allowBulkDelete =
     io_bind loadManifest (\<lambda>base.
     io_bind (\<lambda>w. (Inr (LocalTree (disk w)), w)) (\<lambda>localList.
     io_bind (Tree api) (\<lambda>remoteList.
       let local = indexByPath localList; remote = indexByPath remoteList;
           paths = unionPaths local remote base;
           plan = plannedDeletes paths local remote base
       in if bulk_Total plan > MaxSilentDeletes \<and> \<not> allowBulkDelete
          then io_fail (BulkDelete plan)
          else (\<lambda>w. finish_run (reconcile_all api local remote base paths (start_run base w))))))"

text \<open>The body of the loops of \<open>Push\<close> and \<open>Pull\<close>, for one entry of the tree that is copied.\<close>

definition push_entry ::
  "'s server_api \<Rightarrow> (string, FileEntry) gomap \<Rightarrow> FileEntry \<Rightarrow> (sync_error, unit, 's sync_run) io" where
  "push_entry api remote l =
     io_then
       (case lookup remote (fe_path l) of
          Some r \<Rightarrow>
            if fe_checksum l \<noteq> fe_checksum r
            then io_then (uploadFile api (fe_path l)) (note_res (add_uploaded (fe_path l)))
            else io_return ()
        | None \<Rightarrow> io_then (uploadFile api (fe_path l)) (note_res (add_uploaded (fe_path l))))
       (note_set (fe_path l) (fe_checksum l))"

definition pull_entry ::
  "'s server_api \<Rightarrow> (string, FileEntry) gomap \<Rightarrow> FileEntry \<Rightarrow> (sync_error, unit, 's sync_run) io" where
  "pull_entry api local r =
     io_then
       (case lookup local (fe_path r) of
          Some l \<Rightarrow>
            if fe_checksum r \<noteq> fe_checksum l
            then io_then (downloadFile api (fe_path r)) (note_res (add_downloaded (fe_path r)))
            else io_return ()
        | None \<Rightarrow> io_then (downloadFile api (fe_path r)) (note_res (add_downloaded (fe_path r))))
       (note_set (fe_path r) (fe_checksum r))"

definition Push :: "'s server_api \<Rightarrow> (sync_error, Result, 's world) io" where
  "Push api =
     io_bind (\<lambda>w. (Inr (LocalTree (disk w)), w)) (\<lambda>localList.
     io_bind (Tree api) (\<lambda>remoteList.
     io_bind loadManifest (\<lambda>base w.
       finish_run
         (io_then (io_each (push_entry api (indexByPath remoteList)) localList)
            (\<lambda>w. saveManifest (base_next w) w) (start_run base w)))))"

definition Pull :: "'s server_api \<Rightarrow> (sync_error, Result, 's world) io" where
  "Pull api =
     io_bind (\<lambda>w. (Inr (LocalTree (disk w)), w)) (\<lambda>localList.
     io_bind (Tree api) (\<lambda>remoteList.
     io_bind loadManifest (\<lambda>base w.
       finish_run
         (io_then (io_each (pull_entry api (indexByPath localList)) remoteList)
            (\<lambda>w. saveManifest (base_next w) w) (start_run base w)))))"

end
