(* ===== verification/SyncSafety.thy ===== *)
theory SyncSafety
  imports SyncClient
begin

text \<open>
  What the reconcile guarantees, for any server that satisfies the laws of the locale \<open>sync_server\<close>
  and any script of failures. The world is looked at through three maps: the files of this machine,
  the files of the server, the base being rebuilt. Every operation is described by what it does to
  these maps when it succeeds and when it fails; the loop over the paths then follows from a frame
  (the other paths are untouched) and the effect on one path.
\<close>

definition world_view ::
  "('s \<Rightarrow> string \<Rightarrow> string option) \<Rightarrow> (string \<rightharpoonup> fsfile) \<Rightarrow> (string \<rightharpoonup> string) \<Rightarrow>
   ('s, 'm) world_scheme \<Rightarrow> bool" where
  "world_view files D F w \<longleftrightarrow> lookup (disk w) = D \<and> files (server w) = F"

definition run_view ::
  "('s \<Rightarrow> string \<Rightarrow> string option) \<Rightarrow> (string \<rightharpoonup> fsfile) \<Rightarrow> (string \<rightharpoonup> string) \<Rightarrow>
   (string \<rightharpoonup> string) \<Rightarrow> ('s, 'm) sync_run_scheme \<Rightarrow> bool" where
  "run_view files D F B w \<longleftrightarrow> world_view files D F w \<and> lookup (base_next w) = B"

text \<open>What the reconciler compares: the checksum of a side, empty when it has no file.\<close>

definition sum_local :: "string \<Rightarrow> fsfile option \<Rightarrow> string" where
  "sum_local p x = (case x of None \<Rightarrow> [] | Some f \<Rightarrow> if syncSkip p then [] else checksum (f_data f))"

definition sum_remote :: "string option \<Rightarrow> string" where
  "sum_remote x = (case x of None \<Rightarrow> [] | Some d \<Rightarrow> checksum d)"

definition sum_base :: "string option \<Rightarrow> string" where
  "sum_base x = (case x of None \<Rightarrow> [] | Some c \<Rightarrow> c)"

lemma checksum_nonempty [simp]: "checksum d \<noteq> []"
  by (simp add: checksum_def)

lemma length_checksum [simp]: "length (checksum d) = 64"
  by (simp add: checksum_def)

lemma sum_simps [simp]:
  "sum_local p None = []" "sum_remote None = []" "sum_base None = []"
  "sum_remote (Some d) = checksum d" "sum_base (Some c) = c"
  "\<not> syncSkip p \<Longrightarrow> sum_local p (Some f) = checksum (f_data f)"
  by (simp_all add: sum_local_def sum_remote_def sum_base_def)

lemma sum_remote_Nil [simp]: "sum_remote x = [] \<longleftrightarrow> x = None"
  by (cases x) simp_all

lemma sum_local_Nil: "sum_local p x = [] \<longleftrightarrow> x = None \<or> syncSkip p"
  by (cases x) (simp_all add: sum_local_def)

subsection \<open>The trees as the reconciler indexes them\<close>

lemma lookup_fold_update:
  "distinct (map fe_path es) \<Longrightarrow>
   lookup (fold (\<lambda>e m. AList.update (fe_path e) e m) es m) p =
   (case find (\<lambda>e. fe_path e = p) es of Some e \<Rightarrow> Some e | None \<Rightarrow> lookup m p)"
proof (induction es arbitrary: m)
  case (Cons e es)
  moreover have "find (\<lambda>x. fe_path x = fe_path e) es = None"
    using Cons.prems by (metis (mono_tags) distinct.simps(2) find_None_iff image_eqI list.set_map list.simps(9))
  ultimately show ?case by (auto split: option.splits)
qed simp

lemma lookup_indexByPath:
  assumes "distinct (map fe_path es)"
  shows "lookup (indexByPath es) p = Some e \<longleftrightarrow> e \<in> set es \<and> fe_path e = p"
proof -
  have "find (\<lambda>e. fe_path e = p) es = Some e \<longleftrightarrow> e \<in> set es \<and> fe_path e = p"
    using assms by (induction es) auto
  then show ?thesis
    using lookup_fold_update [OF assms, of "[]" p] by (simp add: indexByPath_def split: option.splits)
qed

lemma dom_indexByPath: "dom (lookup (indexByPath es)) = set (map fe_path es)"
proof -
  have "dom (lookup (fold (\<lambda>e m. AList.update (fe_path e) e m) es m)) =
      set (map fe_path es) \<union> dom (lookup m)" for m
    by (induction es arbitrary: m) auto
  then show ?thesis by (simp add: indexByPath_def)
qed

lemma checksum_indexByPath:
  assumes "distinct (map fe_path es)"
  shows "fe_checksum (get_or no_entry (indexByPath es) p) = c \<longleftrightarrow>
    (\<exists>e\<in>set es. fe_path e = p \<and> fe_checksum e = c) \<or> p \<notin> fe_path ` set es \<and> c = []"
proof (cases "lookup (indexByPath es) p")
  case None
  then have "p \<notin> fe_path ` set es"
    using dom_indexByPath [of es] by (metis domIff list.set_map)
  with None show ?thesis by (auto simp: get_or_def no_entry_def)
next
  case (Some e)
  then have e: "e \<in> set es" "fe_path e = p"
    by (simp_all add: lookup_indexByPath [OF assms])
  have same: "e' = e" if "e' \<in> set es" "fe_path e' = p" for e'
    using that e assms by (metis distinct_map inj_onD)
  have eq: "get_or no_entry (indexByPath es) p = e" using Some by (simp add: get_or_def)
  show ?thesis unfolding eq using e by (auto dest: same)
qed

lemma local_sum_index:
  "fe_checksum (get_or no_entry (indexByPath (LocalTree d)) p) = sum_local p (lookup d p)"
proof -
  have "p \<notin> fe_path ` set (LocalTree d) \<longleftrightarrow> lookup d p = None \<or> syncSkip p"
    using LocalTree_paths [of d] by (auto simp: dom_def)
  then show ?thesis
    unfolding checksum_indexByPath [OF distinct_LocalTree] LocalTree_set bex_Collect2
    by (cases "lookup d p") (auto simp: sum_local_def)
qed

context sync_server
begin

lemma remote_sum_index:
  "fe_checksum (get_or no_entry (indexByPath (api_tree api s)) p) = sum_remote (files s p)"
proof -
  have "p \<in> fe_path ` set (api_tree api s) \<longleftrightarrow> files s p \<noteq> None"
    using tree_files [of s p] by (auto simp: image_iff)
  then show ?thesis
    unfolding checksum_indexByPath [OF tree_distinct] tree_files
    by (cases "files s p") auto
qed

text \<open>One operation at a time.\<close>

lemma next_outcome_views [simp]:
  "world_view files D F (spend_fault w) \<longleftrightarrow> world_view files D F w"
  "run_view files D F B (spend_fault w) \<longleftrightarrow> run_view files D F B w"
  by (simp_all add: world_view_def run_view_def spend_fault_def)

lemma read_local_valid:
  "io_valid (run_view files D F B) (read_local p)
     (\<lambda>d w. run_view files D F B w \<and> (\<exists>f. D p = Some f \<and> f_data f = d)) (\<lambda>_. run_view files D F B)"
  by (rule io_validI) (auto simp: read_local_def run_view_def world_view_def spend_fault_def
      split: outcome.splits option.splits)

lemma write_local_valid:
  "io_valid (run_view files D F B) (write_local p d)
     (\<lambda>_ w. \<exists>f. f_data f = d \<and> run_view files (D(p \<mapsto> f)) F B w)
     (\<lambda>_ w. \<exists>x. (x = None \<longrightarrow> D p = None) \<and> run_view files (D(p := x)) F B w)"
proof (rule io_validI)
  fix w e w'
  assume v: "run_view files D F B w" and "write_local p d w = (Inl e, w')"
  then consider "w' = spend_fault w" | t where "w' = put_disk p t (spend_fault w)"
    by (auto simp: write_local_def split: outcome.splits)
  then show "\<exists>x. (x = None \<longrightarrow> D p = None) \<and> run_view files (D(p := x)) F B w'"
  proof cases
    case 1
    then have "run_view files (D(p := D p)) F B w'" using v by simp
    then show ?thesis by blast
  next
    case (2 t)
    then have "run_view files (D(p \<mapsto> \<lparr>f_data = t, f_mtime = now w\<rparr>)) F B w'"
      using v by (simp add: put_disk_def run_view_def world_view_def spend_fault_def)
    then show ?thesis by blast
  qed
next
  fix w x w'
  assume v: "run_view files D F B w" and "write_local p d w = (Inr x, w')"
  then have "w' = put_disk p d (spend_fault w)"
    by (auto simp: write_local_def split: outcome.splits)
  then have "run_view files (D(p \<mapsto> \<lparr>f_data = d, f_mtime = now w\<rparr>)) F B w'"
    using v by (simp add: put_disk_def run_view_def world_view_def spend_fault_def)
  then show "\<exists>f. f_data f = d \<and> run_view files (D(p \<mapsto> f)) F B w'"
    by (metis fsfile.select_convs(1))
qed

lemma remove_file_valid:
  "io_valid (run_view files D F B) (remove_file p)
     (\<lambda>_. run_view files (D(p := None)) F B)
     (\<lambda>_ w. \<exists>x. run_view files (D(p := x)) F B w)"
proof (rule io_validI)
  fix w e w'
  assume v: "run_view files D F B w" and "remove_file p w = (Inl e, w')"
  then consider "w' = spend_fault w" | "w' = (spend_fault w)\<lparr>disk := AList.delete p (disk w)\<rparr>"
    by (auto simp: remove_file_def split: outcome.splits)
  then show "\<exists>x. run_view files (D(p := x)) F B w'"
  proof cases
    case 1
    then have "run_view files (D(p := D p)) F B w'" using v by simp
    then show ?thesis ..
  next
    case 2
    then have "run_view files (D(p := None)) F B w'"
      using v by (simp add: run_view_def world_view_def spend_fault_def)
    then show ?thesis ..
  qed
qed (auto simp: remove_file_def run_view_def world_view_def spend_fault_def split: outcome.splits)

lemma Download_valid:
  assumes "addressable p"
  shows "io_valid (run_view files D F B) (Download api p)
     (\<lambda>d w. run_view files D F B w \<and> F p = Some d) (\<lambda>_. run_view files D F B)"
  by (rule io_validI) (use get_files [OF assms] in
      \<open>auto simp: Download_def run_view_def world_view_def spend_fault_def
        split: outcome.splits option.splits\<close>)

lemma Upload_valid:
  assumes a: "addressable p"
  shows "io_valid (run_view files D F B) (Upload api p d)
     (\<lambda>_. run_view files D (F(p \<mapsto> d)) B)
     (\<lambda>_ w. \<exists>x. (x = None \<longrightarrow> F p = None) \<and> run_view files D (F(p := x)) B w)"
proof (rule io_validI)
  fix w e w'
  assume v: "run_view files D F B w" and run: "Upload api p d w = (Inl e, w')"
  obtain b s' where put: "api_put api (next_outcome w) p d (server w) = (b, s')" by fastforce
  with run have w': "w' = (spend_fault w)\<lparr>server := s'\<rparr>" and b: "\<not> b"
    by (auto simp: Upload_def split: if_splits)
  have "next_outcome w \<noteq> Done" using put b put_files [OF a, of d "server w" b s'] by auto
  then consider "files s' = F" | t where "files s' = F(p \<mapsto> t)"
    using put_fault [OF a _ put] v by (auto simp: run_view_def world_view_def)
  then show "\<exists>x. (x = None \<longrightarrow> F p = None) \<and> run_view files D (F(p := x)) B w'"
  proof cases
    case 1
    then have "run_view files D (F(p := F p)) B w'"
      using v w' by (simp add: run_view_def world_view_def spend_fault_def)
    then show ?thesis by blast
  next
    case (2 t)
    then have "run_view files D (F(p := Some t)) B w'"
      using v w' by (simp add: run_view_def world_view_def spend_fault_def)
    then show ?thesis by blast
  qed
next
  fix w x w'
  assume v: "run_view files D F B w" and run: "Upload api p d w = (Inr x, w')"
  obtain b s' where put: "api_put api (next_outcome w) p d (server w) = (b, s')" by fastforce
  with run have w': "w' = (spend_fault w)\<lparr>server := s'\<rparr>" and b: "b"
    by (auto simp: Upload_def split: if_splits)
  have "next_outcome w = Done" using put b put_fault [OF a] by blast
  then show "run_view files D (F(p \<mapsto> d)) B w'"
    using put put_files [OF a, of d "server w" b s'] v w'
    by (simp add: run_view_def world_view_def spend_fault_def)
qed

lemma Delete_valid:
  assumes a: "addressable p"
  shows "io_valid (run_view files D F B) (Delete api p)
     (\<lambda>_. run_view files D (F(p := None)) B) (\<lambda>_ w. \<exists>x. run_view files D (F(p := x)) B w)"
proof (rule io_validI)
  fix w e w'
  assume v: "run_view files D F B w" and run: "Delete api p w = (Inl e, w')"
  obtain b s' where del: "api_del api (next_outcome w) p (server w) = (b, s')" by fastforce
  with run have w': "w' = (spend_fault w)\<lparr>server := s'\<rparr>" and b: "\<not> b"
    by (auto simp: Delete_def split: if_splits)
  have "next_outcome w \<noteq> Done" using del b del_files [OF a, of "server w" b s'] by auto
  then obtain x where "files s' = F(p := x)"
    using del_fault [OF a _ del] v by (metis fun_upd_triv run_view_def world_view_def)
  then have "run_view files D (F(p := x)) B w'"
    using v w' by (simp add: run_view_def world_view_def spend_fault_def)
  then show "\<exists>x. run_view files D (F(p := x)) B w'" ..
next
  fix w x w'
  assume v: "run_view files D F B w" and run: "Delete api p w = (Inr x, w')"
  obtain b s' where del: "api_del api (next_outcome w) p (server w) = (b, s')" by fastforce
  with run have w': "w' = (spend_fault w)\<lparr>server := s'\<rparr>" and b: "b"
    by (auto simp: Delete_def split: if_splits)
  have "next_outcome w = Done" using del b del_fault [OF a] by blast
  then show "run_view files D (F(p := None)) B w'"
    using del del_files [OF a, of "server w" b s'] v w'
    by (simp add: run_view_def world_view_def spend_fault_def)
qed

text \<open>The operations on one path.\<close>

lemma note_valid:
  "io_valid (run_view files D F B) (note_base p c)
     (\<lambda>_. run_view files D F (B(p := if c = [] then None else Some c))) E"
  "io_valid (run_view files D F B) (note_set p c) (\<lambda>_. run_view files D F (B(p \<mapsto> c))) E"
  "io_valid (run_view files D F B) (note_del p) (\<lambda>_. run_view files D F (B(p := None))) E"
  "io_valid (run_view files D F B) (note_res f) (\<lambda>_. run_view files D F B) E"
  by (auto intro!: io_validI simp: note_base_def note_set_def note_del_def note_res_def setBase_def
      run_view_def world_view_def)

lemmas op_okD = read_local_valid [THEN io_valid_Inr] write_local_valid [THEN io_valid_Inr]
  remove_file_valid [THEN io_valid_Inr] note_valid [THEN io_valid_Inr]

lemmas op_failD = read_local_valid [THEN io_valid_Inl] write_local_valid [THEN io_valid_Inl]
  remove_file_valid [THEN io_valid_Inl]

lemmas request_okD = Download_valid [THEN io_valid_Inr] Upload_valid [THEN io_valid_Inr]
  Delete_valid [THEN io_valid_Inr]

lemmas request_failD = Download_valid [THEN io_valid_Inl] Upload_valid [THEN io_valid_Inl]
  Delete_valid [THEN io_valid_Inl]

lemma note_ok [simp]:
  "note_base p c w \<noteq> (Inl e, w')" "note_set p c w \<noteq> (Inl e, w')"
  "note_del p w \<noteq> (Inl e, w')" "note_res f w \<noteq> (Inl e, w')"
  by (simp_all add: note_base_def note_set_def note_del_def note_res_def)

lemma push_path_ok:
  assumes "addressable (r_path r)" and "run_view files D F B w" and "push_path api r w = (Inr x, w')"
  shows "\<exists>f. D (r_path r) = Some f \<and>
    run_view files D (F(r_path r \<mapsto> f_data f)) (B(r_path r \<mapsto> fe_checksum (r_local r))) w'"
  using assms unfolding push_path_def uploadFile_def
  apply (elim io_thenE io_bindE; simp)
  apply (drule (1) op_okD, clarify)
  apply (drule (2) request_okD)
  apply (drule (1) op_okD, drule (1) op_okD)
  by blast

lemma push_path_fail:
  assumes "addressable (r_path r)" and "run_view files D F B w" and "push_path api r w = (Inl e, w')"
  shows "\<exists>x. (x = None \<longrightarrow> F (r_path r) = None) \<and> run_view files D (F(r_path r := x)) B w'"
  using assms unfolding push_path_def uploadFile_def
  apply (elim io_thenE io_bindE; simp)
  subgoal by (drule (1) op_failD) (metis fun_upd_triv)
  subgoal by (drule (1) op_okD, clarify, drule (2) request_failD, simp)
  done

lemma pull_path_ok:
  assumes "addressable (r_path r)" and "run_view files D F B w" and "pull_path api r w = (Inr x, w')"
  shows "\<exists>f. F (r_path r) = Some (f_data f) \<and>
    run_view files (D(r_path r \<mapsto> f)) F (B(r_path r \<mapsto> fe_checksum (r_remote r))) w'"
  using assms unfolding pull_path_def downloadFile_def
  apply (elim io_thenE io_bindE; simp)
  apply (drule (2) request_okD, clarify)
  apply (drule (1) op_okD, clarify)
  apply (drule (1) op_okD, drule (1) op_okD)
  by blast

lemma pull_path_fail:
  assumes "addressable (r_path r)" and "run_view files D F B w" and "pull_path api r w = (Inl e, w')"
  shows "\<exists>x. (x = None \<longrightarrow> D (r_path r) = None) \<and> run_view files (D(r_path r := x)) F B w'"
  using assms unfolding pull_path_def downloadFile_def
  apply (elim io_thenE io_bindE; simp)
  subgoal by (drule (2) request_failD) (metis fun_upd_triv)
  subgoal by (drule (2) request_okD, clarify, drule (1) op_failD, simp)
  done

end

subsection \<open>One path, whatever fails\<close>

text \<open>
  The three-way merge the reconciler stands for, on checksums (empty: no file). \<open>win\<close> says whether the
  local side wins an edit against an edit.
\<close>

definition merge3 :: "string \<Rightarrow> string \<Rightarrow> string \<Rightarrow> bool \<Rightarrow> string" where
  "merge3 b l r win =
     (if l = b then r else if r = b then l else if l = r then l
      else if l = [] then r else if r = [] then l else if win then l else r)"

definition holds_data ::
  "(string \<rightharpoonup> fsfile) \<Rightarrow> (string \<rightharpoonup> string) \<Rightarrow> string \<Rightarrow> string \<Rightarrow> bool" where
  "holds_data D F p d \<longleftrightarrow>
     map_option f_data (D p) = Some d \<or> F p = Some d \<or> map_option f_data (D (conflictPath p)) = Some d"

text \<open>
  What settling one path may do, whether it succeeds or not: other paths are untouched, an edit of
  either side is still held somewhere, and a file disappears only when the other side removed it.
\<close>

definition sound_step ::
  "string \<Rightarrow> string \<Rightarrow> (string \<rightharpoonup> fsfile) \<Rightarrow> (string \<rightharpoonup> string) \<Rightarrow>
   (string \<rightharpoonup> fsfile) \<Rightarrow> (string \<rightharpoonup> string) \<Rightarrow> bool" where
  "sound_step p b D F D' F' \<longleftrightarrow>
     (\<forall>q. q \<noteq> p \<longrightarrow> q \<noteq> conflictPath p \<longrightarrow> D' q = D q) \<and> (\<forall>q. q \<noteq> p \<longrightarrow> F' q = F q) \<and>
     (\<forall>f. D p = Some f \<longrightarrow> \<not> syncSkip p \<longrightarrow> \<not> singleWriter p \<longrightarrow> checksum (f_data f) \<noteq> b \<longrightarrow>
        holds_data D' F' p (f_data f)) \<and>
     (\<forall>d. F p = Some d \<longrightarrow> \<not> singleWriter p \<longrightarrow> checksum d \<noteq> b \<longrightarrow> holds_data D' F' p d) \<and>
     (D p \<noteq> None \<longrightarrow> D' p = None \<longrightarrow> sum_local p (D p) = b \<and> sum_remote (F p) = [] \<and> b \<noteq> []) \<and>
     (F p \<noteq> None \<longrightarrow> F' p = None \<longrightarrow> sum_remote (F p) = b \<and> sum_local p (D p) = []) \<and>
     (sum_local p (D p) = [] \<longrightarrow> F p = None \<longrightarrow> D' = D \<and> F' = F)"

definition settled ::
  "string \<Rightarrow> string \<Rightarrow> (string \<rightharpoonup> fsfile) \<Rightarrow> (string \<rightharpoonup> string) \<Rightarrow> (string \<rightharpoonup> string) \<Rightarrow> bool" where
  "settled p m D F B \<longleftrightarrow>
     (\<not> syncSkip p \<longrightarrow> sum_local p (D p) = m) \<and> sum_remote (F p) = m \<and> sum_base (B p) = m"

definition base_frame :: "string \<Rightarrow> (string \<rightharpoonup> string) \<Rightarrow> (string \<rightharpoonup> string) \<Rightarrow> bool" where
  "base_frame p B B' \<longleftrightarrow> (\<forall>q. q \<noteq> p \<longrightarrow> B' q = B q)"

definition step_result ::
  "('s \<Rightarrow> string \<Rightarrow> string option) \<Rightarrow> string \<Rightarrow> string \<Rightarrow> string \<Rightarrow> (string \<rightharpoonup> fsfile) \<Rightarrow>
   (string \<rightharpoonup> string) \<Rightarrow> (string \<rightharpoonup> string) \<Rightarrow> sync_error + unit \<Rightarrow> ('s, 'm) sync_run_scheme \<Rightarrow> bool"
where
  "step_result files p b m D F B out w \<longleftrightarrow>
     (\<exists>D' F' B'. run_view files D' F' B' w \<and> sound_step p b D F D' F' \<and>
        (out = Inr () \<longrightarrow> base_frame p B B' \<and> settled p m D' F' B'))"

lemma step_resultI:
  "run_view files D' F' B' w \<Longrightarrow> sound_step p b D F D' F' \<Longrightarrow>
   (out = Inr () \<Longrightarrow> base_frame p B B' \<and> settled p m D' F' B') \<Longrightarrow>
   step_result files p b m D F B out w"
  unfolding step_result_def by blast

lemmas step_defs = sound_step_def holds_data_def settled_def base_frame_def

lemma conflictPath_neq [simp]: "conflictPath p \<noteq> p" "p \<noteq> conflictPath p"
  by (auto simp: conflictPath_def dest: arg_cong [where f = length])

lemma sound_step_refl [simp]: "sound_step p b D F D F"
  by (auto simp: sound_step_def holds_data_def)

context sync_server
begin

lemma note_removed:
  "run_view files D F B w \<Longrightarrow> io_then (note_res g) (note_del p) w = (out, w') \<Longrightarrow>
   run_view files D F (B(p := None)) w' \<and> out = Inr ()"
  by (auto simp: io_defs note_res_def note_del_def run_view_def world_view_def)

lemma pull_sound:
  assumes job: "r_path r = p" "fe_checksum (r_remote r) = sum_remote (F p)"
    and moved: "sum_local p (D p) = b \<or> D p = None \<or> syncSkip p \<or> singleWriter p"
      "F p \<noteq> None"
    and a: "addressable p" and v: "run_view files D F B w" and run: "pull_path api r w = (out, w')"
  shows "step_result files p b (sum_remote (F p)) D F B out w'"
proof (cases out)
  case (Inl e)
  then obtain x where x: "x = None \<longrightarrow> D p = None" "run_view files (D(p := x)) F B w'"
    using pull_path_fail [of r D F B w] a v run job by blast
  then show ?thesis
    using Inl moved by (intro step_resultI [OF x(2)]) (auto simp: step_defs)
next
  case (Inr u)
  then obtain f where f: "F p = Some (f_data f)"
      "run_view files (D(p \<mapsto> f)) F (B(p \<mapsto> sum_remote (F p))) w'"
    using pull_path_ok [of r D F B w] a v run job by auto
  show ?thesis
    by (rule step_resultI [OF f(2)]) (use Inr f(1) moved in \<open>auto simp: step_defs\<close>)
qed

lemma push_sound:
  assumes job: "r_path r = p" "fe_checksum (r_local r) = sum_local p (D p)"
    and moved: "sum_remote (F p) = b \<or> F p = None \<or> singleWriter p" "sum_local p (D p) \<noteq> []"
    and a: "addressable p" and v: "run_view files D F B w" and run: "push_path api r w = (out, w')"
  shows "step_result files p b (sum_local p (D p)) D F B out w'"
proof -
  obtain f where f: "D p = Some f" "\<not> syncSkip p" "sum_local p (D p) = checksum (f_data f)"
    using moved(2) by (auto simp: sum_local_def split: option.splits if_splits)
  show ?thesis
  proof (cases out)
    case (Inl e)
    then obtain x where x: "x = None \<longrightarrow> F p = None" "run_view files D (F(p := x)) B w'"
      using push_path_fail [of r D F B w] a v run job by blast
    then show ?thesis
      using Inl f moved by (intro step_resultI [OF x(2)]) (auto simp: step_defs)
  next
    case (Inr u)
    then have "run_view files D (F(p \<mapsto> f_data f)) (B(p \<mapsto> checksum (f_data f))) w'"
      using push_path_ok [of r D F B w] a v run job f by auto
    then show ?thesis
      by (rule step_resultI) (use Inr f moved in \<open>auto simp: step_defs\<close>)
  qed
qed

lemma applyLocalChange_sound:
  assumes job: "r_path r = p" "fe_checksum (r_local r) = sum_local p (D p)"
      "fe_checksum (r_remote r) = sum_remote (F p)" "r_base r = b"
    and moved: "sum_local p (D p) \<noteq> b" "sum_remote (F p) = b" and a: "addressable p"
    and v: "run_view files D F B w" and run: "applyLocalChange api r w = (out, w')"
  shows "step_result files p b (sum_local p (D p)) D F B out w'"
proof (cases "sum_local p (D p) = []")
  case True
  then have "io_then (Delete api p) (io_then (note_res (add_deleted_remote p)) (note_del p)) w = (out, w')"
    using run job moved by (simp add: applyLocalChange_def deletesRemote_def)
  then show ?thesis
  proof (cases rule: io_thenE)
    case (fail e)
    then obtain x where x: "run_view files D (F(p := x)) B w'"
      using request_failD(3) [OF a v] by blast
    show ?thesis
      by (rule step_resultI [OF x]) (use fail True moved in \<open>auto simp: step_defs\<close>)
  next
    case (run w1)
    then have "run_view files D (F(p := None)) (B(p := None)) w'" "out = Inr ()"
      using request_okD(3) [OF a v run(1)] note_removed by blast+
    then show ?thesis
      by (intro step_resultI) (use True moved in \<open>auto simp: step_defs\<close>)
  qed
next
  case False
  then have "push_path api r w = (out, w')"
    using run job moved by (simp add: applyLocalChange_def deletesRemote_def)
  then show ?thesis
    by (intro push_sound) (use job moved False a v in auto)
qed

lemma applyRemoteChange_sound:
  assumes job: "r_path r = p" "fe_checksum (r_local r) = sum_local p (D p)"
      "fe_checksum (r_remote r) = sum_remote (F p)" "r_base r = b"
    and moved: "sum_local p (D p) = b" "sum_remote (F p) \<noteq> b" and a: "addressable p"
    and v: "run_view files D F B w" and run: "applyRemoteChange api r w = (out, w')"
  shows "step_result files p b (sum_remote (F p)) D F B out w'"
proof (cases "sum_remote (F p) = []")
  case True
  then have "io_then (removeLocal p) (io_then (note_res (add_deleted_local p)) (note_del p)) w = (out, w')"
    using run job moved by (simp add: applyRemoteChange_def deletesLocal_def)
  then show ?thesis
  proof (cases rule: io_thenE)
    case (fail e)
    then obtain x where x: "run_view files (D(p := x)) F B w'"
      using op_failD(3) [OF v fail(1) [unfolded removeLocal_def]] by blast
    show ?thesis
      by (rule step_resultI [OF x]) (use fail True moved in \<open>auto simp: step_defs\<close>)
  next
    case (run w1)
    then have "run_view files (D(p := None)) F (B(p := None)) w'" "out = Inr ()"
      using op_okD(3) [OF v run(1) [unfolded removeLocal_def]] note_removed by blast+
    then show ?thesis
      by (intro step_resultI) (use True moved in \<open>auto simp: step_defs\<close>)
  qed
next
  case False
  then have "pull_path api r w = (out, w')"
    using run job moved by (simp add: applyRemoteChange_def deletesLocal_def split: if_splits)
  then show ?thesis
    by (intro pull_sound) (use job moved False a v in auto)
qed

lemma note_res_result:
  "step_result files p b m D F B (Inr ()) w \<Longrightarrow> note_res g w = (out, w') \<Longrightarrow>
   step_result files p b m D F B out w'"
  by (auto simp: step_result_def note_res_def run_view_def world_view_def)

lemma then_note_result:
  assumes "io_then op (note_res g) w = (out, w')"
    and "\<And>out w'. op w = (out, w') \<Longrightarrow> step_result files p b m D F B out w'"
  shows "step_result files p b m D F B out w'"
  using assms(1) by (rule io_thenE) (auto dest: assms(2) note_res_result)

lemma step_failI:
  "run_view files D F B w \<Longrightarrow> step_result files p b m D F B (Inl e) w"
  by (rule step_resultI) auto

lemma backupRemote_sound:
  assumes job: "r_path r = p" "fe_checksum (r_local r) = sum_local p (D p)"
    and moved: "sum_local p (D p) \<noteq> []" and a: "addressable p"
    and v: "run_view files D F B w" and run: "backupRemoteAndPushLocal api r w = (out, w')"
  shows "step_result files p b (sum_local p (D p)) D F B out w'"
proof -
  obtain f where f: "D p = Some f" "\<not> syncSkip p" "sum_local p (D p) = checksum (f_data f)"
    using moved by (auto simp: sum_local_def split: option.splits if_splits)
  show ?thesis
    using run unfolding backupRemoteAndPushLocal_def writeConflictCopy_def job(1)
  proof (elim io_bindE io_thenE)
    fix e assume "Download api p w = (Inl e, w')" "out = Inl e"
    then show ?thesis using request_failD(1) [OF a v] step_failI by blast
  next
    fix d w1 e
    assume "Download api p w = (Inr d, w1)" and wr: "write_local (conflictPath p) d w1 = (Inl e, w')"
      and out: "out = Inl e"
    then have "run_view files D F B w1" using request_okD(1) [OF a v] by blast
    then obtain x where x: "run_view files (D(conflictPath p := x)) F B w'"
      using op_failD(2) wr by blast
    show ?thesis by (rule step_resultI [OF x]) (use out f in \<open>auto simp: step_defs\<close>)
  next
    fix d w1 w2
    assume dl: "Download api p w = (Inr d, w1)"
      and wr: "write_local (conflictPath p) d w1 = (Inr (), w2)"
      and push: "push_path api r w2 = (out, w')"
    have w1: "run_view files D F B w1" "F p = Some d" using request_okD(1) [OF a v dl] by auto
    then obtain g where g: "f_data g = d" "run_view files (D(conflictPath p \<mapsto> g)) F B w2"
      using op_okD(2) wr by blast
    show ?thesis
    proof (cases out)
      case (Inl e)
      then obtain x where x: "x = None \<longrightarrow> F p = None"
          "run_view files (D(conflictPath p \<mapsto> g)) (F(p := x)) B w'"
        using push_path_fail [of r _ F B w2] a g(2) push job by blast
      show ?thesis by (rule step_resultI [OF x(2)]) (use Inl x(1) f w1(2) g(1) in \<open>auto simp: step_defs\<close>)
    next
      case (Inr u)
      then have "run_view files (D(conflictPath p \<mapsto> g)) (F(p \<mapsto> f_data f)) (B(p \<mapsto> checksum (f_data f))) w'"
        using push_path_ok [of r "D(conflictPath p \<mapsto> g)" F B w2] a g(2) push job f by auto
      then show ?thesis
        by (rule step_resultI) (use Inr f w1(2) g(1) in \<open>auto simp: step_defs\<close>)
    qed
  qed
qed

lemma backupLocal_sound:
  assumes job: "r_path r = p" "fe_checksum (r_remote r) = sum_remote (F p)"
    and moved: "sum_local p (D p) \<noteq> []" and a: "addressable p"
    and v: "run_view files D F B w" and run: "backupLocalAndPullRemote api r w = (out, w')"
  shows "step_result files p b (sum_remote (F p)) D F B out w'"
proof -
  obtain f where f: "D p = Some f" "\<not> syncSkip p"
    using moved by (auto simp: sum_local_def split: option.splits if_splits)
  show ?thesis
    using run unfolding backupLocalAndPullRemote_def writeConflictCopy_def job(1)
  proof (elim io_bindE io_thenE)
    fix e assume "read_local p w = (Inl e, w')" "out = Inl e"
    then show ?thesis using op_failD(1) [OF v] step_failI by blast
  next
    fix d w1 e
    assume "read_local p w = (Inr d, w1)" and wr: "write_local (conflictPath p) d w1 = (Inl e, w')"
      and out: "out = Inl e"
    then have "run_view files D F B w1" using op_okD(1) [OF v] by blast
    then obtain x where x: "run_view files (D(conflictPath p := x)) F B w'"
      using op_failD(2) wr by blast
    show ?thesis by (rule step_resultI [OF x]) (use out f in \<open>auto simp: step_defs\<close>)
  next
    fix d w1 w2
    assume rd: "read_local p w = (Inr d, w1)"
      and wr: "write_local (conflictPath p) d w1 = (Inr (), w2)"
      and pull: "pull_path api r w2 = (out, w')"
    have w1: "run_view files D F B w1" "f_data f = d" using op_okD(1) [OF v rd] f by auto
    then obtain g where g: "f_data g = d" "run_view files (D(conflictPath p \<mapsto> g)) F B w2"
      using op_okD(2) wr by blast
    show ?thesis
    proof (cases out)
      case (Inl e)
      then obtain x where x: "x = None \<longrightarrow> (D(conflictPath p \<mapsto> g)) p = None"
          "run_view files (D(conflictPath p \<mapsto> g, p := x)) F B w'"
        using pull_path_fail [of r _ F B w2] a g(2) pull job by metis
      show ?thesis by (rule step_resultI [OF x(2)]) (use Inl x(1) f w1(2) g(1) in \<open>auto simp: step_defs\<close>)
    next
      case (Inr u)
      then obtain h where h: "F p = Some (f_data h)"
          "run_view files (D(conflictPath p \<mapsto> g, p \<mapsto> h)) F (B(p \<mapsto> sum_remote (F p))) w'"
        using pull_path_ok [of r _ F B w2] a g(2) pull job by metis
      show ?thesis
        by (rule step_resultI [OF h(2)]) (use Inr f w1(2) g(1) h(1) in \<open>auto simp: step_defs\<close>)
    qed
  qed
qed

lemma resolveConflict_sound:
  assumes job: "r_path r = p" "fe_checksum (r_local r) = sum_local p (D p)"
      "fe_checksum (r_remote r) = sum_remote (F p)" "r_base r = b"
    and moved: "sum_local p (D p) \<noteq> b" "sum_remote (F p) \<noteq> b" "sum_local p (D p) \<noteq> sum_remote (F p)"
    and a: "addressable p"
    and v: "run_view files D F B w" and run: "resolveConflict api r w = (out, w')"
  shows "step_result files p b
    (merge3 b (sum_local p (D p)) (sum_remote (F p)) (localWins (r_local r) (r_remote r))) D F B out w'"
proof -
  let ?l = "sum_local p (D p)" and ?r = "sum_remote (F p)"
  consider (server) "?l = []" "?r \<noteq> []" | (local) "?l \<noteq> []" "?r = []"
    | (single) "?l \<noteq> []" "?r \<noteq> []" "singleWriter p"
    | (both) "?l \<noteq> []" "?r \<noteq> []" "\<not> singleWriter p"
    using moved(3) by fastforce
  then show ?thesis
  proof cases
    case server
    have pull: "step_result files p b ?r D F B out w'" if "pull_path api r w = (out, w')" for out w'
      by (rule pull_sound [OF job(1,3) _ _ a v that]) (use server in \<open>auto simp: sum_local_Nil\<close>)
    have "keepServerCopy api r w = (out, w')"
      using run server(1) unfolding resolveConflict_def job by simp
    then have "step_result files p b ?r D F B out w'"
      unfolding keepServerCopy_def by (rule then_note_result) (rule pull)
    then show ?thesis using server moved by (simp add: merge3_def)
  next
    case local
    have push: "step_result files p b ?l D F B out w'" if "push_path api r w = (out, w')" for out w'
      by (rule push_sound [OF job(1,2) _ _ a v that]) (use local in auto)
    have "keepLocalCopy api r w = (out, w')"
      using run local unfolding resolveConflict_def job by simp
    then have "step_result files p b ?l D F B out w'"
      unfolding keepLocalCopy_def by (rule then_note_result) (rule push)
    then show ?thesis using local moved by (simp add: merge3_def)
  next
    case single
    have push: "step_result files p b ?l D F B out w'" if "push_path api r w = (out, w')" for out w'
      by (rule push_sound [OF job(1,2) _ _ a v that]) (use single in auto)
    have pull: "step_result files p b ?r D F B out w'" if "pull_path api r w = (out, w')" for out w'
      by (rule pull_sound [OF job(1,3) _ _ a v that]) (use single in auto)
    have "resolveSingleWriter api r w = (out, w')"
      using run single(1,2,3) unfolding resolveConflict_def job by (simp only: if_False if_True)
    then show ?thesis
      unfolding resolveSingleWriter_def merge3_def if_not_P [OF moved(1)] if_not_P [OF moved(2)]
        if_not_P [OF moved(3)] if_not_P [OF single(1)] if_not_P [OF single(2)]
      using push pull by (cases "localWins (r_local r) (r_remote r)") simp_all
  next
    case both
    note backups = backupRemote_sound [OF job(1,2) both(1) a v] backupLocal_sound [OF job(1,3) both(1) a v]
    let ?op = "if localWins (r_local r) (r_remote r) then backupRemoteAndPushLocal api r
      else backupLocalAndPullRemote api r"
    let ?m = "if localWins (r_local r) (r_remote r) then ?l else ?r"
    obtain g where "io_then ?op (note_res g) w = (out, w')"
      using run both(1,2,3) unfolding resolveConflict_def job by (simp only: if_False)
    then have "step_result files p b ?m D F B out w'"
      by (rule then_note_result) (auto split: if_splits intro: backups)
    then show ?thesis
      unfolding merge3_def if_not_P [OF moved(1)] if_not_P [OF moved(2)] if_not_P [OF moved(3)]
        if_not_P [OF both(1)] if_not_P [OF both(2)] .
  qed
qed

lemma reconcilePath_sound:
  assumes job: "r_path r = p" "fe_checksum (r_local r) = sum_local p (D p)"
      "fe_checksum (r_remote r) = sum_remote (F p)" "r_base r = b"
    and a: "sum_local p (D p) = [] \<and> F p = None \<or> addressable p"
    and v: "run_view files D F B w" and run: "reconcilePath api r w = (out, w')"
  shows "step_result files p b
    (merge3 b (sum_local p (D p)) (sum_remote (F p)) (localWins (r_local r) (r_remote r))) D F B out w'"
proof -
  let ?l = "sum_local p (D p)" and ?r = "sum_remote (F p)"
  have noted: "step_result files p b ?l D F B out w'"
    if "note_base p ?l w = (out, w')" "?l = ?r"
  proof -
    have "out = Inr ()" using that(1) by (simp add: note_base_def)
    moreover have "run_view files D F (B(p := if ?l = [] then None else Some ?l)) w'"
      using op_okD(4) [OF v] that(1) calculation by simp
    ultimately show ?thesis
      by (intro step_resultI) (use that(2) in \<open>auto simp: step_defs\<close>)
  qed
  consider (same) "?l = b" "?r = b" | (loc) "?l \<noteq> b" "?r = b" | (rem) "?l = b" "?r \<noteq> b"
    | (conv) "?l \<noteq> b" "?r \<noteq> b" "?l = ?r" | (conf) "?l \<noteq> b" "?r \<noteq> b" "?l \<noteq> ?r"
    by blast
  then show ?thesis
  proof cases
    case same
    then show ?thesis using noted run job by (simp add: reconcilePath_def Let_def merge3_def)
  next
    case loc
    have "applyLocalChange api r w = (out, w')"
      using run loc unfolding reconcilePath_def Let_def job by simp
    moreover have "addressable p" using a loc by auto
    ultimately have "step_result files p b ?l D F B out w'"
      using applyLocalChange_sound [OF job loc _ v] by blast
    then show ?thesis using loc by (simp add: merge3_def)
  next
    case rem
    have "applyRemoteChange api r w = (out, w')"
      using run rem unfolding reconcilePath_def Let_def job by simp
    moreover have "addressable p" using a rem by auto
    ultimately have "step_result files p b ?r D F B out w'"
      using applyRemoteChange_sound [OF job rem _ v] by blast
    then show ?thesis using rem by (simp add: merge3_def)
  next
    case conv
    then show ?thesis using noted run job by (simp add: reconcilePath_def Let_def merge3_def)
  next
    case conf
    have "resolveConflict api r w = (out, w')"
      using run conf unfolding reconcilePath_def Let_def job by simp
    moreover have "addressable p" using a conf by auto
    ultimately show ?thesis using resolveConflict_sound [OF job conf _ v] by blast
  qed
qed

end

end
