(* ===== verification/SyncLoop.thy ===== *)
theory SyncLoop
  imports SyncSafety
begin

text \<open>
  From one path to the whole tree: the loop of \<open>Sync\<close>, the pruning of single-writer conflict copies,
  and the run as a whole, for any server behind the interface and any script of failures.
\<close>

definition all_addressable :: "(string \<rightharpoonup> fsfile) \<Rightarrow> (string \<rightharpoonup> string) \<Rightarrow> bool" where
  "all_addressable D F \<longleftrightarrow>
     (\<forall>q. (D q \<noteq> None \<and> \<not> syncSkip q \<longrightarrow> addressable q) \<and> (F q \<noteq> None \<longrightarrow> addressable q))"

definition removed_there ::
  "(string \<rightharpoonup> string) \<Rightarrow> (string \<rightharpoonup> fsfile) \<Rightarrow> (string \<rightharpoonup> string) \<Rightarrow> string \<Rightarrow> bool" where
  "removed_there base D F q \<longleftrightarrow>
     sum_local q (D q) = sum_base (base q) \<and> F q = None \<and> sum_base (base q) \<noteq> []"

definition removed_here ::
  "(string \<rightharpoonup> string) \<Rightarrow> (string \<rightharpoonup> fsfile) \<Rightarrow> (string \<rightharpoonup> string) \<Rightarrow> string \<Rightarrow> bool" where
  "removed_here base D F q \<longleftrightarrow> sum_remote (F q) = sum_base (base q) \<and> sum_local q (D q) = []"

text \<open>
  Between the trees \<open>D0\<close>, \<open>F0\<close> a run starts from and the trees \<open>D\<close>, \<open>F\<close> it has made of them after the
  paths in \<open>ps\<close>.
\<close>

definition sound_run ::
  "(string \<rightharpoonup> string) \<Rightarrow> (string \<rightharpoonup> fsfile) \<Rightarrow> (string \<rightharpoonup> string) \<Rightarrow> string set \<Rightarrow>
   (string \<rightharpoonup> fsfile) \<Rightarrow> (string \<rightharpoonup> string) \<Rightarrow> bool" where
  "sound_run base D0 F0 ps D F \<longleftrightarrow>
     (\<forall>q. q \<notin> ps \<longrightarrow> F q = F0 q \<and> (\<not> syncSkip q \<longrightarrow> D q = D0 q)) \<and>
     (\<forall>q f. D0 q = Some f \<longrightarrow> \<not> syncSkip q \<longrightarrow> \<not> singleWriter q \<longrightarrow>
        checksum (f_data f) \<noteq> sum_base (base q) \<longrightarrow> holds_data D F q (f_data f)) \<and>
     (\<forall>q d. F0 q = Some d \<longrightarrow> \<not> singleWriter q \<longrightarrow>
        checksum d \<noteq> sum_base (base q) \<longrightarrow> holds_data D F q d) \<and>
     (\<forall>q. \<not> syncSkip q \<longrightarrow> D0 q \<noteq> None \<longrightarrow> D q = None \<longrightarrow> q \<in> ps \<and> removed_there base D0 F0 q) \<and>
     (\<forall>q. F0 q \<noteq> None \<longrightarrow> F q = None \<longrightarrow> q \<in> ps \<and> removed_here base D0 F0 q)"

lemma sound_run_refl [simp]: "sound_run base D F ps D F"
  by (auto simp: sound_run_def holds_data_def)

lemma sound_run_mono: "sound_run base D0 F0 ps D F \<Longrightarrow> ps \<subseteq> qs \<Longrightarrow> sound_run base D0 F0 qs D F"
  unfolding sound_run_def by blast

lemma addressable_not_conflict: "addressable q \<Longrightarrow> q \<noteq> conflictPath p"
  using conflictPath_skipped(2) by (auto simp: addressable_def)

lemma unskipped_not_conflict: "\<not> syncSkip q \<Longrightarrow> q \<noteq> conflictPath p"
  using conflictPath_skipped(1) by auto

text \<open>Data held at a path stays held while another path is settled.\<close>

lemma holds_data_step:
  assumes step: "sound_step p b D F D' F'" and "q \<noteq> p" "q \<noteq> conflictPath p"
    and dead: "conflictPath q = p \<Longrightarrow> F p = None"
  shows "holds_data D F q d \<Longrightarrow> holds_data D' F' q d"
proof -
  have "D' q = D q" "F' q = F q" using step assms(2,3) by (auto simp: sound_step_def)
  moreover have "D' (conflictPath q) = D (conflictPath q)"
  proof (cases "conflictPath q = p")
    case True
    then have "sum_local p (D p) = []" using conflictPath_skipped(1) by (auto simp: sum_local_Nil)
    then show ?thesis using step dead [OF True] by (simp add: sound_step_def)
  next
    case False
    then show ?thesis using step assms(2) by (auto simp: sound_step_def conflictPath_inj)
  qed
  ultimately show "holds_data D F q d \<Longrightarrow> holds_data D' F' q d" by (simp add: holds_data_def)
qed

lemma sound_run_step:
  assumes run: "sound_run base D0 F0 ps D F" and p: "p \<notin> ps"
    and a: "all_addressable D0 F0" and step: "sound_step p (sum_base (base p)) D F D' F'"
  shows "sound_run base D0 F0 (insert p ps) D' F'"
proof -
  have Fp: "F p = F0 p" and Dp: "\<not> syncSkip p \<Longrightarrow> D p = D0 p"
    using run p by (auto simp: sound_run_def)
  have suml: "sum_local p (D p) = sum_local p (D0 p)"
    using Dp by (cases "syncSkip p") (auto simp: sum_local_def split: option.split)
  have dead: "F p = None" if "conflictPath q = p" for q
    using a that Fp conflictPath_skipped(2) by (fastforce simp: all_addressable_def addressable_def)
  have keep: "holds_data D F q d \<Longrightarrow> q \<noteq> p \<Longrightarrow> q \<noteq> conflictPath p \<Longrightarrow> holds_data D' F' q d" for q d
    using holds_data_step [OF step] dead by blast
  show ?thesis
    unfolding sound_run_def
  proof (intro conjI allI impI)
    fix q assume q: "q \<notin> insert p ps"
    then show "F' q = F0 q" using step run by (auto simp: sound_step_def sound_run_def)
    assume "\<not> syncSkip q"
    then show "D' q = D0 q"
      using q step run unskipped_not_conflict by (auto simp: sound_step_def sound_run_def)
  next
    fix q f
    assume q: "D0 q = Some f" "\<not> syncSkip q" "\<not> singleWriter q" "checksum (f_data f) \<noteq> sum_base (base q)"
    show "holds_data D' F' q (f_data f)"
    proof (cases "q = p")
      case True
      then show ?thesis using q Dp step by (auto simp: sound_step_def)
    next
      case False
      then show ?thesis using q run keep unskipped_not_conflict by (auto simp: sound_run_def)
    qed
  next
    fix q d
    assume q: "F0 q = Some d" "\<not> singleWriter q" "checksum d \<noteq> sum_base (base q)"
    show "holds_data D' F' q d"
    proof (cases "q = p")
      case True
      then show ?thesis using q Fp step by (auto simp: sound_step_def)
    next
      case False
      have "addressable q" using a q by (auto simp: all_addressable_def)
      then show ?thesis using q False run keep addressable_not_conflict by (auto simp: sound_run_def)
    qed
  next
    fix q assume q: "\<not> syncSkip q" "D0 q \<noteq> None" "D' q = None"
    have "q \<in> insert p ps \<and> removed_there base D0 F0 q"
    proof (cases "q = p")
      case True
      then show ?thesis using q Dp Fp suml step by (auto simp: sound_step_def removed_there_def)
    next
      case False
      then have "D q = None" using q step unskipped_not_conflict by (auto simp: sound_step_def)
      then show ?thesis using q run by (auto simp: sound_run_def)
    qed
    then show "q \<in> insert p ps" "removed_there base D0 F0 q" by auto
  next
    fix q assume q: "F0 q \<noteq> None" "F' q = None"
    have "q \<in> insert p ps \<and> removed_here base D0 F0 q"
    proof (cases "q = p")
      case True
      then show ?thesis using q Fp suml step by (auto simp: sound_step_def removed_here_def)
    next
      case False
      then have "F q = None" using q step by (auto simp: sound_step_def)
      then show ?thesis using q run by (auto simp: sound_run_def)
    qed
    then show "q \<in> insert p ps" "removed_here base D0 F0 q" by auto
  qed
qed

text \<open>The checksum a path is settled on, from the trees and the base the run starts from.\<close>

definition merged ::
  "(string, FileEntry) gomap \<Rightarrow> (string, FileEntry) gomap \<Rightarrow> (string, string) gomap \<Rightarrow>
   string \<Rightarrow> string" where
  "merged local remote base p =
     merge3 (get_or [] base p) (fe_checksum (get_or no_entry local p))
       (fe_checksum (get_or no_entry remote p))
       (localWins (get_or no_entry local p) (get_or no_entry remote p))"

definition index_of_trees ::
  "(string, FileEntry) gomap \<Rightarrow> (string, FileEntry) gomap \<Rightarrow> (string \<rightharpoonup> fsfile) \<Rightarrow>
   (string \<rightharpoonup> string) \<Rightarrow> bool" where
  "index_of_trees local remote D F \<longleftrightarrow>
     (\<forall>p. fe_checksum (get_or no_entry local p) = sum_local p (D p)) \<and>
     (\<forall>p. fe_checksum (get_or no_entry remote p) = sum_remote (F p))"

lemma sum_base_get_or: "sum_base (lookup base p) = get_or [] base p"
  by (simp add: sum_base_def get_or_def split: option.split)

lemma sum_local_cong: "(\<not> syncSkip p \<Longrightarrow> x = y) \<Longrightarrow> sum_local p x = sum_local p y"
  by (cases "syncSkip p") (auto simp: sum_local_def split: option.split)

lemma settled_step:
  assumes "settled q m D F B" and "sound_step p b D F D' F'" and "base_frame p B B'"
    and "q \<noteq> p"
  shows "settled q m D' F' B'"
proof -
  have "F' q = F q" "B' q = B q" using assms by (auto simp: sound_step_def base_frame_def)
  moreover have "\<not> syncSkip q \<Longrightarrow> D' q = D q"
    using assms unskipped_not_conflict by (auto simp: sound_step_def)
  ultimately show ?thesis using assms(1) by (auto simp: settled_def)
qed

text \<open>Pruning removes nothing but conflict copies of single-writer pages.\<close>

definition pruned_path :: "string \<Rightarrow> bool" where
  "pruned_path q \<longleftrightarrow> (\<exists>page. singleWriter page \<and> (q = conflictPath page \<or> q = page @ conflictExt))"

lemma path_job_view:
  assumes index: "index_of_trees local remote D0 F0" and a: "all_addressable D0 F0"
    and run: "sound_run (lookup base) D0 F0 seen D F" and p: "p \<notin> seen"
  shows "r_path (path_job local remote base p) = p"
    and "fe_checksum (r_local (path_job local remote base p)) = sum_local p (D p)"
    and "fe_checksum (r_remote (path_job local remote base p)) = sum_remote (F p)"
    and "r_base (path_job local remote base p) = sum_base (lookup base p)"
    and "sum_local p (D p) = [] \<and> F p = None \<or> addressable p"
proof -
  have Dp: "\<not> syncSkip p \<Longrightarrow> D p = D0 p" and Fp: "F p = F0 p"
    using run p by (auto simp: sound_run_def)
  show "r_path (path_job local remote base p) = p"
    and "fe_checksum (r_local (path_job local remote base p)) = sum_local p (D p)"
    and "fe_checksum (r_remote (path_job local remote base p)) = sum_remote (F p)"
    and "r_base (path_job local remote base p) = sum_base (lookup base p)"
    using index Fp sum_local_cong [of p "D0 p" "D p"] Dp
    by (auto simp: path_job_def index_of_trees_def sum_base_get_or)
  show "sum_local p (D p) = [] \<and> F p = None \<or> addressable p"
    using a [unfolded all_addressable_def, rule_format, of p] Dp Fp
    by (cases "syncSkip p"; cases "D0 p") (auto simp: sum_local_Nil)
qed

context sync_server
begin

lemma reconcile_loop:
  assumes index: "index_of_trees local remote D0 F0" and a: "all_addressable D0 F0"
  shows "io_each (\<lambda>p. reconcilePath api (path_job local remote base p)) ps w = (out, w') \<Longrightarrow>
    distinct ps \<Longrightarrow> set ps \<inter> seen = {} \<Longrightarrow> run_view files D F B w \<Longrightarrow>
    sound_run (lookup base) D0 F0 seen D F \<Longrightarrow>
    \<forall>q\<in>seen. settled q (merged local remote base q) D F B \<Longrightarrow>
    \<exists>D' F' B'. run_view files D' F' B' w' \<and> sound_run (lookup base) D0 F0 (seen \<union> set ps) D' F' \<and>
      (out = Inr () \<longrightarrow> (\<forall>q\<in>seen \<union> set ps. settled q (merged local remote base q) D' F' B') \<and>
        (\<forall>q. q \<notin> set ps \<longrightarrow> B' q = B q))"
proof (induction ps arbitrary: w seen D F B)
  case Nil
  then have "w' = w" by (simp add: io_return_def)
  with Nil show ?case by auto
next
  case (Cons p ps)
  let ?job = "path_job local remote base p"
  have p: "p \<notin> seen" using Cons.prems(3) by simp
  note job = path_job_view [OF index a Cons.prems(5) p]
  have merged: "merge3 (sum_base (lookup base p)) (sum_local p (D p)) (sum_remote (F p))
      (localWins (r_local ?job) (r_remote ?job)) = merged local remote base p"
    unfolding merged_def job(2) [symmetric] job(3) [symmetric] by (simp add: path_job_def sum_base_get_or)
  note step = reconcilePath_sound [OF job Cons.prems(4), unfolded merged]
  from Cons.prems(1) show ?case
  proof (cases rule: io_each_ConsE)
    case (fail e)
    then obtain D' F' B' where v: "run_view files D' F' B' w'"
        and s: "sound_step p (sum_base (lookup base p)) D F D' F'"
      using step [of "Inl e" w'] by (auto simp: step_result_def)
    have "sound_run (lookup base) D0 F0 (insert p seen) D' F'"
      by (rule sound_run_step [OF Cons.prems(5) p a s])
    then have "sound_run (lookup base) D0 F0 (seen \<union> set (p # ps)) D' F'"
      by (rule sound_run_mono) auto
    with v fail show ?thesis by blast
  next
    case (run w1)
    then obtain D' F' B' where v: "run_view files D' F' B' w1"
        and s: "sound_step p (sum_base (lookup base p)) D F D' F'" and b: "base_frame p B B'"
        and m: "settled p (merged local remote base p) D' F' B'"
      using step [of "Inr ()" w1] by (auto simp: step_result_def)
    have sr: "sound_run (lookup base) D0 F0 (insert p seen) D' F'"
      by (rule sound_run_step [OF Cons.prems(5) p a s])
    have st: "\<forall>q\<in>insert p seen. settled q (merged local remote base q) D' F' B'"
      using m Cons.prems(6) p settled_step [OF _ s b] by auto
    have ds: "distinct ps" and dj: "set ps \<inter> insert p seen = {}"
      using Cons.prems(2,3) by auto
    from Cons.IH [OF run(2) ds dj v sr st] obtain D2 F2 B2 where fin: "run_view files D2 F2 B2 w'"
        "sound_run (lookup base) D0 F0 (insert p seen \<union> set ps) D2 F2"
        "out = Inr () \<longrightarrow> (\<forall>q\<in>insert p seen \<union> set ps. settled q (merged local remote base q) D2 F2 B2) \<and>
          (\<forall>q. q \<notin> set ps \<longrightarrow> B2 q = B' q)"
      by blast
    have eq: "insert p seen \<union> set ps = seen \<union> set (p # ps)" by auto
    show ?thesis
      by (rule exI [of _ D2], rule exI [of _ F2], rule exI [of _ B2])
        (use fin b in \<open>simp add: eq base_frame_def\<close>)
  qed
qed

lemma reconcile_loop_start:
  assumes "index_of_trees local remote D0 F0" and "all_addressable D0 F0" and "distinct ps"
    and "run_view files D0 F0 B w"
    and "io_each (\<lambda>p. reconcilePath api (path_job local remote base p)) ps w = (out, w')"
  obtains D' F' B' where "run_view files D' F' B' w'"
    "sound_run (lookup base) D0 F0 (set ps) D' F'"
    "out = Inr () \<Longrightarrow> \<forall>q\<in>set ps. settled q (merged local remote base q) D' F' B'"
    "out = Inr () \<Longrightarrow> \<forall>q. q \<notin> set ps \<longrightarrow> B' q = B q"
proof -
  have "\<exists>D' F' B'. run_view files D' F' B' w' \<and> sound_run (lookup base) D0 F0 ({} \<union> set ps) D' F' \<and>
      (out = Inr () \<longrightarrow> (\<forall>q\<in>{} \<union> set ps. settled q (merged local remote base q) D' F' B') \<and>
        (\<forall>q. q \<notin> set ps \<longrightarrow> B' q = B q))"
    by (rule reconcile_loop [OF assms(1,2,5,3) _ assms(4)]) simp_all
  then show thesis using that by (simp only: Un_empty_left) blast
qed

lemma remove_pruned:
  assumes v: "run_view files D F B w" and q: "pruned_path q" and run: "remove_file q w = (out, w')"
  shows "\<exists>D'. run_view files D' F B w' \<and> (\<forall>x. pruned_path x \<or> D' x = D x)"
proof (cases out)
  case (Inl e)
  obtain x where "run_view files (D(q := x)) F B w'"
    using op_failD(3) [OF v run [unfolded Inl]] by blast
  then show ?thesis using q by (metis fun_upd_other)
next
  case (Inr u)
  have "run_view files (D(q := None)) F B w'"
    using op_okD(3) [OF v run [unfolded Inr]] .
  then show ?thesis using q by (metis fun_upd_other)
qed

lemma prune_page_frame:
  assumes v: "run_view files D F B w" and run: "prune_page page w = (out, w')"
  shows "\<exists>D'. run_view files D' F B w' \<and> (\<forall>x. pruned_path x \<or> D' x = D x)"
proof (cases "singleWriter page")
  case True
  then have p: "pruned_path (conflictPath page)" "pruned_path (page @ conflictExt)"
    by (auto simp: pruned_path_def)
  have "io_then (remove_file (conflictPath page)) (remove_file (page @ conflictExt)) w = (out, w')"
    using run True by (simp add: prune_page_def)
  then show ?thesis
  proof (cases rule: io_thenE)
    case (fail e)
    then show ?thesis using remove_pruned [OF v p(1)] by blast
  next
    case (run w1)
    then obtain D1 where "run_view files D1 F B w1" "\<forall>x. pruned_path x \<or> D1 x = D x"
      using remove_pruned [OF v p(1)] by blast
    then show ?thesis using remove_pruned [OF _ p(2) run(2)] by metis
  qed
next
  case False
  then have "w' = w" using run by (simp add: prune_page_def io_return_def)
  with v show ?thesis by blast
qed

lemma prune_frame:
  "io_each prune_page pages w = (out, w') \<Longrightarrow> run_view files D F B w \<Longrightarrow>
   \<exists>D'. run_view files D' F B w' \<and> (\<forall>x. pruned_path x \<or> D' x = D x)"
proof (induction pages arbitrary: w D)
  case Nil
  then show ?case by (auto simp: io_return_def)
next
  case (Cons page pages)
  from Cons.prems(1) show ?case
  proof (cases rule: io_each_ConsE)
    case (fail e)
    then show ?thesis using prune_page_frame [OF Cons.prems(2)] by blast
  next
    case (run w1)
    then obtain D1 where "run_view files D1 F B w1" "\<forall>x. pruned_path x \<or> D1 x = D x"
      using prune_page_frame [OF Cons.prems(2)] by blast
    then show ?thesis using Cons.IH [OF run(2)] by metis
  qed
qed

lemma pruned_path_cases: "pruned_path x \<Longrightarrow> syncSkip x"
proof -
  have "syncSkip (page @ conflictExt)" for page by (simp add: syncSkip_def)
  then show "pruned_path x \<Longrightarrow> syncSkip x"
    using conflictPath_skipped(1) by (auto simp: pruned_path_def)
qed

lemma pruned_conflictPath: "pruned_path (conflictPath q) \<Longrightarrow> singleWriter q"
proof -
  have "\<not> (singleWriter page \<and> conflictPath q = page @ conflictExt)" for page
  proof
    assume "singleWriter page \<and> conflictPath q = page @ conflictExt"
    then have "has_prefix page usagePrefix" and "conflictPath q = page @ conflictExt"
      by (auto simp: singleWriter_def cut_prefix_def split: option.splits if_splits)
    then show False by (auto simp: has_prefix_iff sync_names conflictPath_def)
  qed
  then show "pruned_path (conflictPath q) \<Longrightarrow> singleWriter q"
    by (auto simp: pruned_path_def conflictPath_inj)
qed

lemma sound_run_prune:
  assumes run: "sound_run base D0 F0 ps D F" and same: "\<forall>x. pruned_path x \<or> D' x = D x"
    and a: "all_addressable D0 F0"
  shows "sound_run base D0 F0 ps D' F"
proof -
  have keep: "\<not> syncSkip q \<Longrightarrow> D' q = D q" for q using same pruned_path_cases by blast
  have hold: "holds_data D' F q d" if "holds_data D F q d" "\<not> singleWriter q" "D' q = D q \<or> F q = Some d"
    for q d
    using that same pruned_conflictPath by (metis holds_data_def)
  have path: "\<not> pruned_path q" if "addressable q" "\<not> singleWriter q" for q
  proof
    assume "pruned_path q"
    then obtain page where "q = conflictPath page \<or> q = page @ conflictExt"
      by (auto simp: pruned_path_def)
    then show False
      using that(1) addressable_not_conflict has_suffix_append
      by (auto simp: addressable_def server_syncSkip_def conflictExt_def)
  qed
  show ?thesis
    unfolding sound_run_def
  proof (intro conjI allI impI)
    fix q assume q: "q \<notin> ps"
    then show "F q = F0 q" using run by (auto simp: sound_run_def)
    assume "\<not> syncSkip q"
    then show "D' q = D0 q" using q run keep by (auto simp: sound_run_def)
  next
    fix q f
    assume "D0 q = Some f" "\<not> syncSkip q" "\<not> singleWriter q" "checksum (f_data f) \<noteq> sum_base (base q)"
    then show "holds_data D' F q (f_data f)" using run keep hold by (auto simp: sound_run_def)
  next
    fix q d
    assume q: "F0 q = Some d" "\<not> singleWriter q" "checksum d \<noteq> sum_base (base q)"
    then have "D' q = D q" using a path same by (auto simp: all_addressable_def)
    then show "holds_data D' F q d" using q run hold by (auto simp: sound_run_def)
  next
    fix q assume q: "\<not> syncSkip q" "D0 q \<noteq> None" "D' q = None"
    then have "q \<in> ps \<and> removed_there base D0 F0 q" using run keep by (auto simp: sound_run_def)
    then show "q \<in> ps" "removed_there base D0 F0 q" by auto
  next
    fix q assume "F0 q \<noteq> None" "F q = None"
    then have "q \<in> ps \<and> removed_here base D0 F0 q" using run by (auto simp: sound_run_def)
    then show "q \<in> ps" "removed_here base D0 F0 q" by auto
  qed
qed

lemma settled_prune:
  assumes "settled q m D F B" and same: "\<forall>x. pruned_path x \<or> D' x = D x"
  shows "settled q m D' F B"
proof -
  have "\<not> syncSkip q \<Longrightarrow> D' q = D q"
    using pruned_path_cases same by blast
  then show ?thesis using assms(1) by (simp add: settled_def)
qed

lemma saveManifest_run:
  assumes "saveManifest (base_next w) w = (out, w')" and "run_view files D F B w"
  shows "run_view files D F B w' \<and> (out = Inr () \<longrightarrow> base_file w' = SavedBase (base_next w'))"
  using assms
  by (auto simp: saveManifest_def run_view_def world_view_def spend_fault_def split: outcome.splits)

text \<open>A run of the loop, the pruning and the saving of the base.\<close>

lemma reconcile_all_run:
  assumes run: "reconcile_all api local remote base paths w = (out, w')"
    and index: "index_of_trees local remote D0 F0" and a: "all_addressable D0 F0"
    and ps: "distinct paths" and v: "run_view files D0 F0 (lookup base) w"
  shows "\<exists>D' F' B'. run_view files D' F' B' w' \<and> sound_run (lookup base) D0 F0 (set paths) D' F' \<and>
    (out = Inr () \<longrightarrow> (\<forall>q\<in>set paths. settled q (merged local remote base q) D' F' B') \<and>
      (\<forall>q. q \<notin> set paths \<longrightarrow> B' q = lookup base q) \<and> base_file w' = SavedBase (base_next w'))"
proof -
  from run [unfolded reconcile_all_def] show ?thesis
  proof (cases rule: io_thenE)
    case (fail e)
    obtain D1 F1 B1 where "run_view files D1 F1 B1 w'" "sound_run (lookup base) D0 F0 (set paths) D1 F1"
      by (rule reconcile_loop_start [OF index a ps v fail(1)])
    then show ?thesis using fail(2) by blast
  next
    case (run w1)
    obtain D1 F1 B1 where 1: "run_view files D1 F1 B1 w1"
        "sound_run (lookup base) D0 F0 (set paths) D1 F1"
        "\<forall>q\<in>set paths. settled q (merged local remote base q) D1 F1 B1"
        "\<forall>q. q \<notin> set paths \<longrightarrow> B1 q = lookup base q"
      by (rule reconcile_loop_start [OF index a ps v run(1)]) blast
    from run(2) show ?thesis
    proof (cases rule: io_thenE)
      case (fail e)
      obtain D2 where 2: "run_view files D2 F1 B1 w'" "\<forall>x. pruned_path x \<or> D2 x = D1 x"
        using prune_frame [OF fail(1) [unfolded pruneSingleWriterConflicts_def] 1(1)] by blast
      show ?thesis
        by (rule exI [of _ D2], rule exI [of _ F1], rule exI [of _ B1])
          (simp add: 2(1) sound_run_prune [OF 1(2) 2(2) a] fail(2))
    next
      case (run w2)
      obtain D2 where 2: "run_view files D2 F1 B1 w2" "\<forall>x. pruned_path x \<or> D2 x = D1 x"
        using prune_frame [OF run(1) [unfolded pruneSingleWriterConflicts_def] 1(1)] by blast
      have 3: "run_view files D2 F1 B1 w'" "out = Inr () \<Longrightarrow> base_file w' = SavedBase (base_next w')"
        using saveManifest_run [OF run(2) 2(1)] by blast+
      have 4: "\<forall>q\<in>set paths. settled q (merged local remote base q) D2 F1 B1"
        using settled_prune [OF _ 2(2)] 1(3) by blast
      show ?thesis
        by (rule exI [of _ D2], rule exI [of _ F1], rule exI [of _ B1])
          (simp add: 3 4 1(4) sound_run_prune [OF 1(2) 2(2) a])
    qed
  qed
qed

end

end
