(* ===== verification/SyncRun.thy ===== *)
theory SyncRun
  imports SyncLoop
begin

text \<open>
  A whole run of \<open>Sync\<close>, \<open>Push\<close> and \<open>Pull\<close>: the early ends, the guard on bulk deletions, and what
  the run leaves on this machine, on the server and in the base.
\<close>

definition saved_base :: "('s, 'm) world_scheme \<Rightarrow> (string, string) gomap" where
  "saved_base w = (case base_file w of NoBase \<Rightarrow> [] | CorruptBase \<Rightarrow> [] | SavedBase m \<Rightarrow> m)"

definition same_trees :: "('s, 'm) world_scheme \<Rightarrow> ('s, 'm) world_scheme \<Rightarrow> bool" where
  "same_trees w w' \<longleftrightarrow> disk w' = disk w \<and> server w' = server w \<and> base_file w' = base_file w"

text \<open>What a run plans from a world.\<close>

definition local_index :: "('s, 'm) world_scheme \<Rightarrow> (string, FileEntry) gomap" where
  "local_index w = indexByPath (LocalTree (disk w))"

definition remote_index :: "'s server_api \<Rightarrow> ('s, 'm) world_scheme \<Rightarrow> (string, FileEntry) gomap" where
  "remote_index api w = indexByPath (api_tree api (server w))"

definition sync_paths :: "'s server_api \<Rightarrow> ('s, 'm) world_scheme \<Rightarrow> string list" where
  "sync_paths api w = unionPaths (local_index w) (remote_index api w) (saved_base w)"

definition sync_plan :: "'s server_api \<Rightarrow> ('s, 'm) world_scheme \<Rightarrow> BulkDeleteError" where
  "sync_plan api w = plannedDeletes (sync_paths api w) (local_index w) (remote_index api w) (saved_base w)"

lemma distinct_unionPaths [simp]: "distinct (unionPaths l r b)"
  by (simp add: unionPaths_def)

lemma set_unionPaths: "set (unionPaths l r b) = dom (lookup l) \<union> dom (lookup r) \<union> dom (lookup b)"
  by (auto simp: unionPaths_def set_map_keys)

lemma loadManifest_run:
  "loadManifest w = (out, w1) \<Longrightarrow>
   same_trees w w1 \<and> (\<forall>x. out = Inr x \<longrightarrow> x = saved_base w)"
  by (auto simp: loadManifest_def same_trees_def saved_base_def spend_fault_def
      split: outcome.splits base_file.splits)

lemma Tree_run:
  "Tree api w = (out, w1) \<Longrightarrow>
   same_trees w w1 \<and> (\<forall>x. out = Inr x \<longrightarrow> x = api_tree api (server w))"
  by (auto simp: Tree_def same_trees_def spend_fault_def split: outcome.splits)

lemma same_trees_trans: "same_trees a b \<Longrightarrow> same_trees b c \<Longrightarrow> same_trees a c"
  by (simp add: same_trees_def)

lemma same_trees_plan:
  "same_trees w w1 \<Longrightarrow> saved_base w1 = saved_base w"
  "same_trees w w1 \<Longrightarrow> local_index w1 = local_index w"
  "same_trees w w1 \<Longrightarrow> remote_index api w1 = remote_index api w"
  "same_trees w w1 \<Longrightarrow> sync_paths api w1 = sync_paths api w"
  "same_trees w w1 \<Longrightarrow> sync_plan api w1 = sync_plan api w"
  by (simp_all add: same_trees_def saved_base_def local_index_def remote_index_def sync_paths_def
      sync_plan_def)

text \<open>A run of \<open>Sync\<close> ends before it touches anything, is stopped by the guard, or reconciles.\<close>

lemma Sync_cases:
  assumes "Sync api allow w = (out, w')"
  obtains (early) e where "out = Inl e" "e = FileError \<or> e = HttpError" "same_trees w w'"
    | (stopped) "out = Inl (BulkDelete (sync_plan api w))" "same_trees w w'"
        "\<not> allow" "MaxSilentDeletes < bulk_Total (sync_plan api w)"
    | (reconciled) w1 where "same_trees w w1" "allow \<or> bulk_Total (sync_plan api w) \<le> MaxSilentDeletes"
        "(out, w') = finish_run (reconcile_all api (local_index w) (remote_index api w) (saved_base w)
           (sync_paths api w) (start_run (saved_base w) w1))"
proof -
  from assms [unfolded Sync_def] show thesis
  proof (cases rule: io_bindE)
    case (fail e)
    then show ?thesis
      using early [of e] loadManifest_run [OF fail(1)]
      by (auto simp: loadManifest_def split: outcome.splits)
  next
    case (run base w1)
    have 1: "same_trees w w1" "base = saved_base w" using loadManifest_run [OF run(1)] by auto
    from run(2) obtain remote w2 where 2: "Tree api w1 = (Inl HttpError, w') \<and> out = Inl HttpError \<or>
        Tree api w1 = (Inr remote, w2) \<and>
        (let local = indexByPath (LocalTree (disk w1)); remote = indexByPath remote;
             paths = unionPaths local remote base; plan = plannedDeletes paths local remote base
         in if MaxSilentDeletes < bulk_Total plan \<and> \<not> allow then io_fail (BulkDelete plan)
            else (\<lambda>w. finish_run (reconcile_all api local remote base paths (start_run base w)))) w2
          = (out, w')"
      by (cases "Tree api w1") (auto simp: io_bind_def Tree_def split: outcome.splits)
    then show ?thesis
    proof (elim disjE conjE)
      assume "Tree api w1 = (Inl HttpError, w')" "out = Inl HttpError"
      then show ?thesis using early [of HttpError] Tree_run same_trees_trans [OF 1(1)] by blast
    next
      assume tree: "Tree api w1 = (Inr remote, w2)"
      have 3: "same_trees w1 w2" "remote = api_tree api (server w1)" using Tree_run [OF tree] by auto
      then have 4: "same_trees w w2" "indexByPath (LocalTree (disk w1)) = local_index w"
          "indexByPath remote = remote_index api w"
        using 1 by (auto simp: same_trees_def local_index_def remote_index_def)
      assume "(let local = indexByPath (LocalTree (disk w1)); remote = indexByPath remote;
             paths = unionPaths local remote base; plan = plannedDeletes paths local remote base
         in if MaxSilentDeletes < bulk_Total plan \<and> \<not> allow then io_fail (BulkDelete plan)
            else (\<lambda>w. finish_run (reconcile_all api local remote base paths (start_run base w)))) w2
          = (out, w')"
      then have "(if MaxSilentDeletes < bulk_Total (sync_plan api w) \<and> \<not> allow
            then (Inl (BulkDelete (sync_plan api w)), w2)
            else finish_run (reconcile_all api (local_index w) (remote_index api w) (saved_base w)
              (sync_paths api w) (start_run (saved_base w) w2))) = (out, w')"
        unfolding 1(2) 4(2,3) Let_def sync_paths_def sync_plan_def io_fail_def
        by (auto split: if_splits)
      then show ?thesis
        using stopped reconciled [of w2] 4(1) by (auto split: if_splits)
    qed
  qed
qed

lemma finish_run_world:
  "finish_run (o1, w1) = (out, w') \<Longrightarrow>
   disk w' = disk w1 \<and> server w' = server w1 \<and> base_file w' = base_file w1 \<and>
   (\<forall>r. out = Inr r \<longrightarrow> o1 = Inr () \<and> r = res w1)"
  by (auto simp: finish_run_def world.defs split: sum.splits)

lemma start_run_view:
  "run_view files D F B (start_run base w) \<longleftrightarrow>
   lookup (disk w) = D \<and> files (server w) = F \<and> lookup base = B"
  by (simp add: start_run_def run_view_def world_view_def world.defs)

text \<open>A run of \<open>Sync\<close>, seen from outside.\<close>

definition world_sound ::
  "('s \<Rightarrow> string \<Rightarrow> string option) \<Rightarrow> string set \<Rightarrow> 's world \<Rightarrow> 's world \<Rightarrow> bool" where
  "world_sound files ps w w' \<longleftrightarrow>
     sound_run (lookup (saved_base w)) (lookup (disk w)) (files (server w)) ps
       (lookup (disk w')) (files (server w'))"

definition world_merged ::
  "('s \<Rightarrow> string \<Rightarrow> string option) \<Rightarrow> (string \<Rightarrow> string) \<Rightarrow> 's world \<Rightarrow> bool" where
  "world_merged files m w' \<longleftrightarrow>
     (\<forall>q. settled q (m q) (lookup (disk w')) (files (server w')) (lookup (saved_base w')))"

abbreviation client_addressable ::
  "('s \<Rightarrow> string \<Rightarrow> string option) \<Rightarrow> 's world \<Rightarrow> bool" where
  "client_addressable files w \<equiv> all_addressable (lookup (disk w)) (files (server w))"

definition sync_merge :: "'s server_api \<Rightarrow> 's world \<Rightarrow> string \<Rightarrow> string" where
  "sync_merge api w = merged (local_index w) (remote_index api w) (saved_base w)"

lemma same_trees_sound: "same_trees w w' \<Longrightarrow> world_sound files ps w w'"
  by (simp add: world_sound_def same_trees_def)

context sync_server
begin

lemma index_of_world:
  "index_of_trees (local_index w) (remote_index api w) (lookup (disk w)) (files (server w))"
  by (simp add: index_of_trees_def local_index_def remote_index_def local_sum_index remote_sum_index)

lemma outside_sync_paths:
  assumes "q \<notin> set (sync_paths api w)"
  shows "lookup (saved_base w) q = None" "files (server w) q = None"
    "lookup (disk w) q = None \<or> syncSkip q" "sync_merge api w q = []"
proof -
  have q: "lookup (local_index w) q = None" "lookup (remote_index api w) q = None"
      "lookup (saved_base w) q = None"
    using assms by (auto simp: sync_paths_def set_unionPaths)
  then show "lookup (saved_base w) q = None" by blast
  have "fe_checksum (get_or no_entry (local_index w) q) = []"
      "fe_checksum (get_or no_entry (remote_index api w) q) = []"
    using q by (simp_all add: get_or_def no_entry_def)
  then have "sum_local q (lookup (disk w) q) = []" "sum_remote (files (server w) q) = []"
    by (simp_all only: local_index_def local_sum_index remote_index_def remote_sum_index)
  then show "files (server w) q = None" "lookup (disk w) q = None \<or> syncSkip q"
    by (auto simp: sum_local_Nil)
  show "sync_merge api w q = []"
    using q by (simp add: sync_merge_def merged_def merge3_def get_or_def no_entry_def)
qed

lemma Sync_sound_paths:
  assumes run: "Sync api allow w = (out, w')" and a: "client_addressable files w"
  shows "world_sound files (set (sync_paths api w)) w w' \<and>
    (allow \<or> bulk_Total (sync_plan api w) \<le> MaxSilentDeletes \<or> same_trees w w') \<and>
    (\<forall>r. out = Inr r \<longrightarrow> world_merged files (sync_merge api w) w')"
  using run
proof (cases rule: Sync_cases)
  case (early e)
  then show ?thesis using same_trees_sound by auto
next
  case stopped
  then show ?thesis using same_trees_sound by auto
next
  case (reconciled w1)
  note run = reconciled
  obtain o2 w2 where r: "reconcile_all api (local_index w) (remote_index api w) (saved_base w)
      (sync_paths api w) (start_run (saved_base w) w1) = (o2, w2)" by fastforce
  have fin: "disk w' = disk w2" "server w' = server w2" "base_file w' = base_file w2"
      "\<And>r. out = Inr r \<Longrightarrow> o2 = Inr ()"
    using finish_run_world [of o2 w2 out w'] run(3) unfolding r by simp_all
  have v: "run_view files (lookup (disk w)) (files (server w)) (lookup (saved_base w))
      (start_run (saved_base w) w1)"
    using run(1) by (simp add: start_run_view same_trees_def)
  have d: "distinct (sync_paths api w)" by (simp add: sync_paths_def)
  obtain D F B where 1: "run_view files D F B w2"
      "sound_run (lookup (saved_base w)) (lookup (disk w)) (files (server w)) (set (sync_paths api w)) D F"
      and ok: "o2 = Inr () \<longrightarrow>
        (\<forall>q\<in>set (sync_paths api w).
          settled q (merged (local_index w) (remote_index api w) (saved_base w) q) D F B) \<and>
        (\<forall>q. q \<notin> set (sync_paths api w) \<longrightarrow> B q = lookup (saved_base w) q) \<and>
        base_file w2 = SavedBase (base_next w2)"
    using reconcile_all_run [OF r index_of_world a d v] by blast
  have eq: "lookup (disk w') = D" "files (server w') = F" "lookup (base_next w2) = B"
    using 1(1) fin by (simp_all add: run_view_def world_view_def)
  have "world_merged files (sync_merge api w) w'" if out: "out = Inr r" for r
    unfolding world_merged_def eq
  proof
    fix q
    have o2: "o2 = Inr ()" and B: "lookup (saved_base w') = B"
      using ok fin eq(3) out by (auto simp: saved_base_def)
    show "settled q (sync_merge api w q) D F (lookup (saved_base w'))"
    proof (cases "q \<in> set (sync_paths api w)")
      case True
      then show ?thesis using ok o2 unfolding B sync_merge_def by blast
    next
      case False
      then have "F q = None" "\<not> syncSkip q \<Longrightarrow> D q = None" "B q = None"
        using outside_sync_paths [OF False] 1(2) ok o2 by (auto simp: sound_run_def)
      then show ?thesis using outside_sync_paths(4) [OF False] unfolding B by (auto simp: settled_def)
    qed
  qed
  then show ?thesis using 1(2) run(2) eq by (auto simp: world_sound_def)
qed

text \<open>The deletions of a run are among the planned ones.\<close>

lemma removed_in_plan:
  assumes q: "q \<in> set (sync_paths api w)"
  shows "removed_there (lookup (saved_base w)) (lookup (disk w)) (files (server w)) q \<Longrightarrow>
      q \<in> set (bd_Local (sync_plan api w))"
    and "removed_here (lookup (saved_base w)) (lookup (disk w)) (files (server w)) q \<Longrightarrow>
      files (server w) q \<noteq> None \<Longrightarrow> q \<in> set (bd_Remote (sync_plan api w))"
proof -
  have l: "fe_checksum (get_or no_entry (local_index w) q) = sum_local q (lookup (disk w) q)"
    and r: "fe_checksum (get_or no_entry (remote_index api w) q) = sum_remote (files (server w) q)"
    by (simp_all only: local_index_def local_sum_index remote_index_def remote_sum_index)
  show "removed_there (lookup (saved_base w)) (lookup (disk w)) (files (server w)) q \<Longrightarrow>
      q \<in> set (bd_Local (sync_plan api w))"
    using q by (auto simp add: sync_plan_def plannedDeletes_def removed_there_def deletesLocal_def l r
        sum_base_get_or)
  show "removed_here (lookup (saved_base w)) (lookup (disk w)) (files (server w)) q \<Longrightarrow>
      files (server w) q \<noteq> None \<Longrightarrow> q \<in> set (bd_Remote (sync_plan api w))"
    using q by (auto simp add: sync_plan_def plannedDeletes_def removed_here_def deletesRemote_def
        deletesLocal_def l r sum_base_get_or)
qed

lemma deletions_in_plan:
  assumes "world_sound files (set (sync_paths api w)) w w'"
  shows "card {q. \<not> syncSkip q \<and> lookup (disk w) q \<noteq> None \<and> lookup (disk w') q = None} +
    card {q. files (server w) q \<noteq> None \<and> files (server w') q = None} \<le> bulk_Total (sync_plan api w)"
    (is "card ?L + card ?R \<le> _")
proof -
  let ?plan = "sync_plan api w"
  have "?L \<subseteq> set (bd_Local ?plan)"
    using assms removed_in_plan(1) unfolding world_sound_def sound_run_def by blast
  then have "card ?L \<le> length (bd_Local ?plan)"
    by (meson List.finite_set card_length card_mono le_trans)
  moreover have "?R \<subseteq> set (bd_Remote ?plan)"
    using assms removed_in_plan(2) unfolding world_sound_def sound_run_def by blast
  then have "card ?R \<le> length (bd_Remote ?plan)"
    by (meson List.finite_set card_length card_mono le_trans)
  ultimately show ?thesis by (simp add: bulk_Total_def)
qed

lemma Sync_bounded:
  assumes "Sync api False w = (out, w')" and "client_addressable files w"
  shows "card {q. \<not> syncSkip q \<and> lookup (disk w) q \<noteq> None \<and> lookup (disk w') q = None} +
    card {q. files (server w) q \<noteq> None \<and> files (server w') q = None} \<le> MaxSilentDeletes"
proof -
  note run = Sync_sound_paths [OF assms]
  then consider "bulk_Total (sync_plan api w) \<le> MaxSilentDeletes" | "same_trees w w'" by blast
  then show ?thesis
  proof cases
    case 1
    then show ?thesis using deletions_in_plan run le_trans by blast
  next
    case 2
    then have eq: "disk w' = disk w" "server w' = server w" by (auto simp: same_trees_def)
    have none: "{q. \<not> syncSkip q \<and> lookup (disk w) q \<noteq> None \<and> lookup (disk w) q = None} = {}"
        "{q. files (server w) q \<noteq> None \<and> files (server w) q = None} = {}" by auto
    show ?thesis unfolding eq none by simp
  qed
qed

lemma Sync_keeps_edits:
  assumes "Sync api allow w = (out, w')" and "client_addressable files w" and "\<not> singleWriter q"
  shows "lookup (disk w) q = Some f \<Longrightarrow> \<not> syncSkip q \<Longrightarrow>
      checksum (f_data f) \<noteq> get_or [] (saved_base w) q \<Longrightarrow>
      holds_data (lookup (disk w')) (files (server w')) q (f_data f)"
    and "files (server w) q = Some d \<Longrightarrow> checksum d \<noteq> get_or [] (saved_base w) q \<Longrightarrow>
      holds_data (lookup (disk w')) (files (server w')) q d"
  using Sync_sound_paths [OF assms(1,2)] assms(3)
  by (auto simp: world_sound_def sound_run_def sum_base_get_or)

lemma Sync_deletes_only:
  assumes "Sync api allow w = (out, w')" and "client_addressable files w"
  shows "lookup (disk w) q = Some f \<Longrightarrow> \<not> syncSkip q \<Longrightarrow> lookup (disk w') q = None \<Longrightarrow>
      files (server w) q = None \<and> get_or [] (saved_base w) q = checksum (f_data f)"
    and "files (server w) q = Some d \<Longrightarrow> files (server w') q = None \<Longrightarrow>
      get_or [] (saved_base w) q = checksum d \<and> (lookup (disk w) q = None \<or> syncSkip q)"
proof -
  have run: "sound_run (lookup (saved_base w)) (lookup (disk w)) (files (server w))
      (set (sync_paths api w)) (lookup (disk w')) (files (server w'))"
    using Sync_sound_paths [OF assms] by (simp add: world_sound_def)
  have there: "\<not> syncSkip q \<Longrightarrow> lookup (disk w) q \<noteq> None \<Longrightarrow> lookup (disk w') q = None \<Longrightarrow>
      removed_there (lookup (saved_base w)) (lookup (disk w)) (files (server w)) q"
    and here: "files (server w) q \<noteq> None \<Longrightarrow> files (server w') q = None \<Longrightarrow>
      removed_here (lookup (saved_base w)) (lookup (disk w)) (files (server w)) q"
    using run unfolding sound_run_def by blast+
  show "lookup (disk w) q = Some f \<Longrightarrow> \<not> syncSkip q \<Longrightarrow> lookup (disk w') q = None \<Longrightarrow>
      files (server w) q = None \<and> get_or [] (saved_base w) q = checksum (f_data f)"
    using there by (simp add: removed_there_def sum_base_get_or)
  show "files (server w) q = Some d \<Longrightarrow> files (server w') q = None \<Longrightarrow>
      get_or [] (saved_base w) q = checksum d \<and> (lookup (disk w) q = None \<or> syncSkip q)"
    using here by (simp add: removed_here_def sum_base_get_or sum_local_Nil)
qed

end

end
