(* ===== verification/SyncTotal.thy ===== *)
theory SyncTotal
  imports SyncRun
begin

text \<open>
  A run in which no effect fails comes to its end, and a run after a successful one finds nothing to
  do. Both are proved for any server behind the interface of \<open>SyncServer\<close>.
\<close>

definition calm_view ::
  "('s \<Rightarrow> string \<Rightarrow> string option) \<Rightarrow> (string \<rightharpoonup> fsfile) \<Rightarrow> (string \<rightharpoonup> string) \<Rightarrow>
   ('s, 'm) sync_run_scheme \<Rightarrow> bool" where
  "calm_view files D F w \<longleftrightarrow> world_view files D F w \<and> faults w = []"

abbreviation calm :: "('s, 'm) world_scheme \<Rightarrow> bool" where
  "calm w \<equiv> faults w = []"

lemma calm_simps [simp]:
  "calm w \<Longrightarrow> next_outcome w = Done" "faults (spend_fault w) = tl (faults w)"
  by (simp_all add: next_outcome_def spend_fault_def)

lemma io_valid_ex:
  "(\<And>x. io_valid (P x) m Q E) \<Longrightarrow> io_valid (\<lambda>w. \<exists>x. P x w) m Q E"
  by (rule io_validI) (blast dest: io_valid_Inl io_valid_Inr)+

lemma io_valid_post:
  "io_valid P m Q E \<Longrightarrow> (\<And>x w. Q x w \<Longrightarrow> Q' x w) \<Longrightarrow> io_valid P m Q' E"
  by (rule io_valid_weaken)

abbreviation total_io ::
  "('w \<Rightarrow> bool) \<Rightarrow> ('e, 'a, 'w) io \<Rightarrow> ('a \<Rightarrow> 'w \<Rightarrow> bool) \<Rightarrow> bool" where
  "total_io P m Q \<equiv> io_valid P m Q (\<lambda>_ _. False)"

lemma total_ioD: "total_io P m Q \<Longrightarrow> P w \<Longrightarrow> \<exists>x w'. m w = (Inr x, w') \<and> Q x w'"
  by (cases "m w"; cases "fst (m w)") (auto simp: io_valid_def)

lemma total_note [io_rules]:
  "total_io (calm_view files D F) (note_base p c) (\<lambda>_. calm_view files D F)"
  "total_io (calm_view files D F) (note_set p c) (\<lambda>_. calm_view files D F)"
  "total_io (calm_view files D F) (note_del p) (\<lambda>_. calm_view files D F)"
  "total_io (calm_view files D F) (note_res f) (\<lambda>_. calm_view files D F)"
  by (auto intro!: io_validI simp: note_base_def note_set_def note_del_def note_res_def setBase_def
      calm_view_def world_view_def)

lemma total_read_local:
  assumes "D p = Some f"
  shows "total_io (calm_view files D F) (read_local p)
    (\<lambda>d w. d = f_data f \<and> calm_view files D F w)"
  using assms by (intro io_validI) (auto simp: read_local_def calm_view_def world_view_def
      spend_fault_def split: option.splits)

lemma total_write_local [io_rules]:
  "total_io (calm_view files D F) (write_local p d)
    (\<lambda>_ w. \<exists>f. calm_view files (D(p \<mapsto> f)) F w)"
  by (intro io_validI) (auto simp: write_local_def calm_view_def world_view_def put_disk_def
      spend_fault_def)

lemma total_remove_file [io_rules]:
  "total_io (calm_view files D F) (remove_file p) (\<lambda>_. calm_view files (D(p := None)) F)"
  by (intro io_validI) (auto simp: remove_file_def calm_view_def world_view_def spend_fault_def)

lemma calm_view_calm: "calm_view files D F w \<Longrightarrow> calm w"
  by (simp add: calm_view_def)

lemmas total_end = io_valid_post [where Q' = "\<lambda>_ w. faults w = []"]

context sync_server
begin

lemma total_Download:
  assumes "addressable p" and "F p = Some d"
  shows "total_io (calm_view files D F) (Download api p) (\<lambda>_. calm_view files D F)"
  using assms get_files [OF assms(1)] by (intro io_validI) (auto simp: Download_def calm_view_def
      world_view_def spend_fault_def split: option.splits)

lemma total_Upload:
  assumes "addressable p"
  shows "total_io (calm_view files D F) (Upload api p d) (\<lambda>_. calm_view files D (F(p \<mapsto> d)))"
  using put_files [OF assms, of d] by (intro io_validI) (auto simp: Upload_def calm_view_def
      world_view_def spend_fault_def split: prod.splits if_splits)

lemma total_Delete:
  assumes "addressable p"
  shows "total_io (calm_view files D F) (Delete api p) (\<lambda>_. calm_view files D (F(p := None)))"
  using del_files [OF assms] by (intro io_validI) (auto simp: Delete_def calm_view_def
      world_view_def spend_fault_def split: prod.splits if_splits)

lemma total_uploadFile:
  assumes "addressable p" and "D p = Some f"
  shows "total_io (calm_view files D F) (uploadFile api p) (\<lambda>_. calm_view files D (F(p \<mapsto> f_data f)))"
  unfolding uploadFile_def
proof (rule io_valid_bind [where R = "\<lambda>d w. d = f_data f \<and> calm_view files D F w"])
  show "total_io (calm_view files D F) (read_local p) (\<lambda>d w. d = f_data f \<and> calm_view files D F w)"
    by (rule total_read_local) (fact assms(2))
  show "total_io (\<lambda>w. d = f_data f \<and> calm_view files D F w) (Upload api p d)
      (\<lambda>_. calm_view files D (F(p \<mapsto> f_data f)))" for d
    using total_Upload [OF assms(1), of D F d] by (auto simp: io_valid_def)
qed

lemma total_downloadFile:
  assumes "addressable p" and "F p = Some d"
  shows "total_io (calm_view files D F) (downloadFile api p)
    (\<lambda>_ w. \<exists>f. calm_view files (D(p \<mapsto> f)) F w)"
  unfolding downloadFile_def
  by (rule io_valid_bind [OF total_Download [where F = F, OF assms] total_write_local])

lemma total_push_path:
  assumes "addressable (r_path r)" and "D (r_path r) = Some f"
  shows "total_io (calm_view files D F) (push_path api r) (\<lambda>_. calm)"
  unfolding push_path_def
  by (rule io_valid_then [OF total_uploadFile [where D = D, OF assms]],
      rule io_valid_then [OF total_note(4) io_valid_post [OF total_note(2)]], rule calm_view_calm)

lemma total_pull_path:
  assumes "addressable (r_path r)" and "F (r_path r) = Some d"
  shows "total_io (calm_view files D F) (pull_path api r) (\<lambda>_. calm)"
  unfolding pull_path_def
  by (rule io_valid_then [OF total_downloadFile [where F = F, OF assms]], rule io_valid_ex,
      rule io_valid_then [OF total_note(4) io_valid_post [OF total_note(2)]], rule calm_view_calm)

lemma total_calm_note: "total_io calm (note_res f) (\<lambda>_. calm)"
  by (auto intro!: io_validI simp: note_res_def)

lemma total_conflict:
  assumes a: "addressable (r_path r)" and l: "D (r_path r) = Some f" and s: "F (r_path r) = Some d"
    and n: "r_path r \<noteq> conflictPath (r_path r)"
  shows "total_io (calm_view files D F) (backupRemoteAndPushLocal api r) (\<lambda>_. calm)"
    and "total_io (calm_view files D F) (backupLocalAndPullRemote api r) (\<lambda>_. calm)"
proof -
  let ?p = "r_path r"
  have push: "total_io (calm_view files (D(conflictPath ?p \<mapsto> g)) F) (push_path api r) (\<lambda>_. calm)" for g
    by (rule total_push_path [OF a]) (use l n in auto)
  have pull: "total_io (calm_view files (D(conflictPath ?p \<mapsto> g)) F) (pull_path api r) (\<lambda>_. calm)" for g
    by (rule total_pull_path [where F = F, OF a s])
  show "total_io (calm_view files D F) (backupRemoteAndPushLocal api r) (\<lambda>_. calm)"
    unfolding backupRemoteAndPushLocal_def writeConflictCopy_def
    by (rule io_valid_bind [OF total_Download [where F = F, OF a s]],
        rule io_valid_then [OF total_write_local io_valid_ex [OF push]])
  have copy: "total_io (\<lambda>w. x = f_data f \<and> calm_view files D F w)
      (write_local (conflictPath ?p) x) (\<lambda>_ w. \<exists>f. calm_view files (D(conflictPath ?p \<mapsto> f)) F w)" for x
    by (rule io_valid_pre [OF total_write_local]) simp
  show "total_io (calm_view files D F) (backupLocalAndPullRemote api r) (\<lambda>_. calm)"
    unfolding backupLocalAndPullRemote_def writeConflictCopy_def
    by (rule io_valid_bind [OF total_read_local [where f = f and D = D, OF l]],
        rule io_valid_then [OF copy io_valid_ex [OF pull]])
qed

lemma total_reconcilePath:
  assumes job: "r_path r = p" "fe_checksum (r_local r) = sum_local p (D p)"
      "fe_checksum (r_remote r) = sum_remote (F p)"
    and addr: "sum_local p (D p) = [] \<and> F p = None \<or> addressable p"
  shows "total_io (calm_view files D F) (reconcilePath api r) (\<lambda>_. calm)"
proof -
  let ?P = "calm_view files D F"
  have note1: "total_io ?P (note_base p c) (\<lambda>_. calm)" for c
    by (rule io_valid_post [OF total_note(1)]) (rule calm_view_calm)
  have del: "total_io (calm_view files D F) (note_del p) (\<lambda>_. calm)" for D F
    by (rule io_valid_post [OF total_note(3)]) (rule calm_view_calm)
  have has_l: "\<exists>f. D p = Some f" if "sum_local p (D p) \<noteq> []"
    using that by (cases "D p") auto
  have has_r: "\<exists>d. F p = Some d" if "sum_remote (F p) \<noteq> []"
    using that by auto
  have push: "total_io ?P (push_path api r) (\<lambda>_. calm)" if "sum_local p (D p) \<noteq> []"
    using that has_l addr total_push_path [of r D] job(1) by auto
  have pull: "total_io ?P (pull_path api r) (\<lambda>_. calm)" if "sum_remote (F p) \<noteq> []"
    using that has_r addr total_pull_path [of r F] job(1) by auto
  have a: "addressable p" if "sum_local p (D p) \<noteq> sum_remote (F p)"
    using that addr by auto
  have local: "total_io ?P (applyLocalChange api r) (\<lambda>_. calm)"
    if "sum_local p (D p) \<noteq> r_base r" "sum_remote (F p) = r_base r"
    unfolding applyLocalChange_def
    using that job a push io_valid_then [OF total_Delete io_valid_then [OF total_note(4) del]]
    by (cases "sum_local p (D p) = []") (auto simp: deletesRemote_def)
  have remote: "total_io ?P (applyRemoteChange api r) (\<lambda>_. calm)"
    if "sum_local p (D p) = r_base r" "sum_remote (F p) \<noteq> r_base r"
    unfolding applyRemoteChange_def removeLocal_def
    using that job pull io_valid_then [OF total_remove_file io_valid_then [OF total_note(4) del]]
    by (cases "sum_remote (F p) = []") (auto simp: deletesLocal_def)
  have conflict: "total_io ?P (resolveConflict api r) (\<lambda>_. calm)"
    if ne: "sum_local p (D p) \<noteq> sum_remote (F p)"
  proof -
    consider "sum_local p (D p) = []" "sum_remote (F p) \<noteq> []"
      | "sum_local p (D p) \<noteq> []" "sum_remote (F p) = []"
      | "sum_local p (D p) \<noteq> []" "sum_remote (F p) \<noteq> []"
      using ne by (cases "sum_local p (D p) = []"; cases "sum_remote (F p) = []") auto
    then show ?thesis
    proof cases
      case 1
      then show ?thesis
        using io_valid_then [OF pull total_calm_note] job
        by (simp add: resolveConflict_def keepServerCopy_def)
    next
      case 2
      then show ?thesis
        using io_valid_then [OF push total_calm_note] job
        by (simp add: resolveConflict_def keepLocalCopy_def)
    next
      case 3
      then obtain f d where l: "D p = Some f" and s: "F p = Some d" using has_l has_r by blast
      have n: "p \<noteq> conflictPath p" using a [OF ne] conflictPath_skipped(2) by (auto simp: addressable_def)
      note both = total_conflict [of r D f F d, unfolded job(1), OF a [OF ne] l s n]
      show ?thesis
        using 3 job push pull both [THEN io_valid_then, OF total_calm_note]
        by (auto simp: resolveConflict_def resolveSingleWriter_def)
    qed
  qed
  show ?thesis
    using note1 local remote conflict job by (auto simp add: reconcilePath_def Let_def)
qed

lemma reconcile_loop_total:
  assumes index: "index_of_trees local remote D0 F0" and a: "all_addressable D0 F0"
  shows "distinct ps \<Longrightarrow> set ps \<inter> seen = {} \<Longrightarrow> run_view files D F B w \<Longrightarrow> calm w \<Longrightarrow>
    sound_run (lookup base) D0 F0 seen D F \<Longrightarrow>
    \<exists>w'. io_each (\<lambda>p. reconcilePath api (path_job local remote base p)) ps w = (Inr (), w') \<and> calm w'"
proof (induction ps arbitrary: w seen D F B)
  case Nil
  then show ?case by (simp add: io_return_def)
next
  case (Cons p ps)
  let ?job = "path_job local remote base p"
  have p: "p \<notin> seen" using Cons.prems(2) by simp
  note job = path_job_view [OF index a Cons.prems(5) p]
  have "calm_view files D F w" using Cons.prems(3,4) by (simp add: calm_view_def run_view_def)
  then obtain w1 where run: "reconcilePath api ?job w = (Inr (), w1)" and calm: "calm w1"
    using total_ioD [OF total_reconcilePath [where F = F and D = D, OF job(1-3) job(5)]] by auto
  obtain D' F' B' where v: "run_view files D' F' B' w1"
      and s: "sound_step p (sum_base (lookup base p)) D F D' F'"
    using reconcilePath_sound [OF job Cons.prems(3) run] by (auto simp: step_result_def)
  have "sound_run (lookup base) D0 F0 (insert p seen) D' F'"
    by (rule sound_run_step [OF Cons.prems(5) p a s])
  moreover have "distinct ps" "set ps \<inter> insert p seen = {}" using Cons.prems(1,2) by auto
  ultimately obtain w' where
      "io_each (\<lambda>p. reconcilePath api (path_job local remote base p)) ps w1 = (Inr (), w')" "calm w'"
    using Cons.IH [OF _ _ v calm] by blast
  then show ?case using run by (simp add: io_then_def io_bind_def)
qed

end

lemma calm_prune: "calm w \<Longrightarrow> \<exists>w'. io_each prune_page pages w = (Inr (), w') \<and> calm w'"
proof -
  have rm: "total_io calm (remove_file p) (\<lambda>_. calm)" for p
    by (rule io_validI) (auto simp: remove_file_def)
  have "total_io calm (prune_page page) (\<lambda>_. calm)" for page
    unfolding prune_page_def
    by (rule io_valid_if [OF io_valid_then [OF rm rm] io_valid_return [where Q = "\<lambda>_. calm"]])
  then have "total_io calm (io_each prune_page pages) (\<lambda>_. calm)"
    by (intro io_valid_each_in)
  then show "calm w \<Longrightarrow> \<exists>w'. io_each prune_page pages w = (Inr (), w') \<and> calm w'"
    using total_ioD by fastforce
qed

text \<open>\<open>Sync\<close> when nothing fails: the loading and the listing are as the trees say.\<close>

definition plan_allowed :: "bool \<Rightarrow> 's server_api \<Rightarrow> 's world \<Rightarrow> bool" where
  "plan_allowed allow api w \<longleftrightarrow> allow \<or> bulk_Total (sync_plan api w) \<le> MaxSilentDeletes"

lemma spend_fault_calm [simp]: "calm w \<Longrightarrow> spend_fault w = w"
  by (cases w) (simp add: spend_fault_def)

lemma Sync_calm:
  assumes "calm w"
  shows "Sync api allow w =
    (if plan_allowed allow api w
     then finish_run (reconcile_all api (local_index w) (remote_index api w) (saved_base w)
       (sync_paths api w) (start_run (saved_base w) w))
     else (Inl (BulkDelete (sync_plan api w)), w))"
proof -
  have "loadManifest w = (Inr (saved_base w), w)" "Tree api w = (Inr (api_tree api (server w)), w)"
    using assms by (simp_all add: loadManifest_def saved_base_def Tree_def)
  then show ?thesis
    by (auto simp: Sync_def io_bind_def io_fail_def Let_def plan_allowed_def sync_plan_def
        sync_paths_def local_index_def remote_index_def)
qed

lemma calm_start_run [simp]: "faults (start_run base w) = faults w"
  by (simp add: start_run_def world.defs)

context sync_server
begin

lemma Sync_total:
  assumes calm: "calm w" and a: "client_addressable files w" and allow: "plan_allowed allow api w"
  shows "\<exists>r w'. Sync api allow w = (Inr r, w') \<and> calm w'"
proof -
  let ?w = "start_run (saved_base w) w"
  have v: "run_view files (lookup (disk w)) (files (server w)) (lookup (saved_base w)) ?w"
    by (simp add: start_run_view)
  have d: "distinct (sync_paths api w)" by (simp add: sync_paths_def)
  obtain w1 where 1: "io_each (\<lambda>p. reconcilePath api
      (path_job (local_index w) (remote_index api w) (saved_base w) p)) (sync_paths api w) ?w = (Inr (), w1)"
      and c1: "calm w1"
    using reconcile_loop_total [OF index_of_world a d _ v] calm by auto
  obtain w2 where 2: "pruneSingleWriterConflicts w1 = (Inr (), w2)" and c2: "calm w2"
    using calm_prune [OF c1] by (auto simp: pruneSingleWriterConflicts_def)
  have 3: "saveManifest (base_next w2) w2 = (Inr (), (spend_fault w2)\<lparr>base_file := SavedBase (base_next w2)\<rparr>)"
    using c2 by (simp add: saveManifest_def)
  show ?thesis
    using 1 2 3 c2 allow by (simp add: Sync_calm [OF calm] reconcile_all_def io_then_def io_bind_def
        finish_run_def world.defs)
qed

end

subsection \<open>Synchronising twice\<close>

text \<open>Where the three sides of a path agree, the loop only notes what it knows.\<close>

definition in_step :: "(string, FileEntry) gomap \<Rightarrow> (string, FileEntry) gomap \<Rightarrow>
   (string, string) gomap \<Rightarrow> bool" where
  "in_step local remote base \<longleftrightarrow>
     (\<forall>p. fe_checksum (get_or no_entry local p) = get_or [] base p \<and>
        fe_checksum (get_or no_entry remote p) = get_or [] base p)"

lemma in_step_loop:
  assumes "in_step local remote base"
  shows "\<exists>B. io_each (\<lambda>p. reconcilePath api (path_job local remote base p)) ps w =
    (Inr (), w\<lparr>base_next := B\<rparr>)"
proof (induction ps arbitrary: w)
  case Nil
  have "io_each (\<lambda>p. reconcilePath api (path_job local remote base p)) [] w =
      (Inr (), w\<lparr>base_next := base_next w\<rparr>)"
    by (simp add: io_return_def)
  then show ?case by blast
next
  case (Cons p ps)
  let ?w = "w\<lparr>base_next := setBase p (get_or [] base p) (base_next w)\<rparr>"
  have "reconcilePath api (path_job local remote base p) w = (Inr (), ?w)"
    using assms by (simp add: in_step_def reconcilePath_def path_job_def note_base_def)
  moreover obtain B where "io_each (\<lambda>p. reconcilePath api (path_job local remote base p)) ps ?w =
      (Inr (), ?w\<lparr>base_next := B\<rparr>)"
    using Cons.IH by blast
  ultimately show ?case by (auto simp: io_then_def io_bind_def)
qed

lemma in_step_plan:
  "in_step local remote base \<Longrightarrow> bulk_Total (plannedDeletes ps local remote base) = 0"
  by (auto simp: in_step_def plannedDeletes_def bulk_Total_def deletesLocal_def deletesRemote_def)

lemma remove_file_res: "remove_file p w = (out, w') \<Longrightarrow> res w' = res w \<and> server w' = server w"
  by (auto simp: remove_file_def spend_fault_def split: outcome.splits)

lemma prune_res: "io_each prune_page pages w = (out, w') \<Longrightarrow> res w' = res w \<and> server w' = server w"
proof (induction pages arbitrary: w)
  case Nil
  then show ?case by (simp add: io_return_def)
next
  case (Cons page pages)
  have page: "prune_page page w = (o1, w1) \<Longrightarrow> res w1 = res w \<and> server w1 = server w" for o1 w1
    by (auto simp: prune_page_def io_return_def elim!: io_thenE dest!: remove_file_res split: if_splits)
  from Cons.prems show ?case
    by (rule io_each_ConsE) (use page Cons.IH in force)+
qed

context sync_server
begin

lemma merged_in_step:
  assumes m: "world_merged files m w" and served: "\<forall>q. files (server w) q \<noteq> None \<longrightarrow> \<not> syncSkip q"
  shows "in_step (local_index w) (remote_index api w) (saved_base w)"
  unfolding in_step_def
proof
  fix q
  have q: "settled q (m q) (lookup (disk w)) (files (server w)) (lookup (saved_base w))"
    using m by (simp add: world_merged_def)
  have "sum_local q (lookup (disk w) q) = get_or [] (saved_base w) q \<and>
      sum_remote (files (server w) q) = get_or [] (saved_base w) q"
  proof (cases "syncSkip q")
    case True
    then have "files (server w) q = None" using served by blast
    then show ?thesis using q True by (auto simp: settled_def sum_base_get_or sum_local_Nil)
  next
    case False
    then show ?thesis using q by (simp add: settled_def sum_base_get_or)
  qed
  then show "fe_checksum (get_or no_entry (local_index w) q) = get_or [] (saved_base w) q \<and>
      fe_checksum (get_or no_entry (remote_index api w) q) = get_or [] (saved_base w) q"
    unfolding local_index_def local_sum_index remote_index_def remote_sum_index .
qed

lemma Sync_again:
  assumes m: "world_merged files m w" and served: "\<forall>q. files (server w) q \<noteq> None \<longrightarrow> \<not> syncSkip q"
    and calm: "calm w"
  shows "\<exists>w'. Sync api allow w = (Inr no_result, w') \<and> server w' = server w \<and>
    (\<forall>q. \<not> syncSkip q \<longrightarrow> lookup (disk w') q = lookup (disk w) q)"
proof -
  note step = merged_in_step [OF m served]
  let ?w = "start_run (saved_base w) w"
  have allow: "plan_allowed allow api w"
    using in_step_plan [OF step] by (simp add: plan_allowed_def sync_plan_def)
  obtain B where 1: "io_each (\<lambda>p. reconcilePath api
      (path_job (local_index w) (remote_index api w) (saved_base w) p)) (sync_paths api w) ?w =
      (Inr (), ?w\<lparr>base_next := B\<rparr>)"
    using in_step_loop [OF step] by blast
  obtain w2 where 2: "pruneSingleWriterConflicts (?w\<lparr>base_next := B\<rparr>) = (Inr (), w2)" and c2: "calm w2"
    using calm_prune [of "?w\<lparr>base_next := B\<rparr>"] calm
    by (auto simp: pruneSingleWriterConflicts_def)
  have v: "run_view files (lookup (disk w)) (files (server w)) (lookup B) (?w\<lparr>base_next := B\<rparr>)"
    by (simp add: start_run_def run_view_def world_view_def world.defs)
  obtain D where D: "run_view files D (files (server w)) (lookup B) w2"
      "\<forall>x. pruned_path x \<or> D x = lookup (disk w) x"
    using prune_frame [OF 2 [unfolded pruneSingleWriterConflicts_def] v] by blast
  have res: "res w2 = no_result" "server w2 = server w"
    using prune_res [OF 2 [unfolded pruneSingleWriterConflicts_def]]
    by (simp_all add: start_run_def world.defs)
  let ?w3 = "world.truncate (w2\<lparr>base_file := SavedBase (base_next w2)\<rparr>)"
  have "Sync api allow w = (Inr no_result, ?w3)"
    using 1 2 c2 allow res(1) by (simp add: Sync_calm [OF calm] reconcile_all_def io_then_def
        io_bind_def finish_run_def saveManifest_def)
  moreover have "server ?w3 = server w" "lookup (disk ?w3) = D"
    using res D(1) by (simp_all add: world.defs run_view_def world_view_def)
  moreover have "D q = lookup (disk w) q" if "\<not> syncSkip q" for q
    using D(2) pruned_path_cases that by blast
  ultimately show ?thesis by auto
qed

end

end
