(* ===== verification/SyncCopy.thy ===== *)
theory SyncCopy
  imports SyncTotal
begin

text \<open>
  The one-way copies \<open>Push\<close> and \<open>Pull\<close> of \<open>sync.go\<close>: what they leave on the side they write, for
  any server behind the interface and any script of failures.
\<close>

lemma push_entry_alt:
  "fe_checksum l \<noteq> [] \<Longrightarrow>
   push_entry api remote l =
     io_then (if fe_checksum l \<noteq> fe_checksum (get_or no_entry remote (fe_path l))
              then io_then (uploadFile api (fe_path l)) (note_res (add_uploaded (fe_path l)))
              else io_return ())
       (note_set (fe_path l) (fe_checksum l))"
  by (simp add: push_entry_def get_or_def no_entry_def split: option.split)

lemma pull_entry_alt:
  "fe_checksum r \<noteq> [] \<Longrightarrow>
   pull_entry api local r =
     io_then (if fe_checksum r \<noteq> fe_checksum (get_or no_entry local (fe_path r))
              then io_then (downloadFile api (fe_path r)) (note_res (add_downloaded (fe_path r)))
              else io_return ())
       (note_set (fe_path r) (fe_checksum r))"
  by (simp add: pull_entry_def get_or_def no_entry_def split: option.split)

text \<open>What a copy leaves of one side: \<open>X\<close> before, \<open>Y\<close> after, for the entries that were copied.\<close>

definition copied ::
  "FileEntry list \<Rightarrow> bool \<Rightarrow> (string \<Rightarrow> 'a option \<Rightarrow> string) \<Rightarrow> (string \<rightharpoonup> 'a) \<Rightarrow> (string \<rightharpoonup> 'a) \<Rightarrow>
   (string \<rightharpoonup> string) \<Rightarrow> (string \<rightharpoonup> string) \<Rightarrow> bool" where
  "copied es ok s X Y B B' \<longleftrightarrow>
     (\<forall>q. q \<notin> fe_path ` set es \<longrightarrow> Y q = X q \<and> B' q = B q) \<and> (\<forall>q. X q \<noteq> None \<longrightarrow> Y q \<noteq> None) \<and>
     (ok \<longrightarrow> (\<forall>e\<in>set es. s (fe_path e) (Y (fe_path e)) = fe_checksum e \<and>
        B' (fe_path e) = Some (fe_checksum e)))"

lemma copied_refl: "copied [] ok s X X B B"
  by (simp add: copied_def)

lemma copied_Cons:
  assumes "copied [e] True s X Y B B1" and "copied es ok s Y Z B1 B2" and "fe_path e \<notin> fe_path ` set es"
  shows "copied (e # es) ok s X Z B B2"
  using assms unfolding copied_def by auto

lemma copied_fail: "copied [e] False s X Y B B1 \<Longrightarrow> copied (e # es) False s X Y B B1"
  by (auto simp: copied_def)

context sync_server
begin

lemma push_entry_run:
  assumes run: "push_entry api remote l w = (out, w')" and v: "run_view files D F B w"
    and a: "addressable (fe_path l)" and l: "D (fe_path l) = Some f" "fe_checksum l = checksum (f_data f)"
    and r: "fe_checksum (get_or no_entry remote (fe_path l)) = sum_remote (F (fe_path l))"
  shows "\<exists>F' B'. run_view files D F' B' w' \<and> copied [l] (out = Inr ()) (\<lambda>_. sum_remote) F F' B B'"
proof -
  have ne: "fe_checksum l \<noteq> []" using l(2) by simp
  note alt = push_entry_alt [OF ne, where api = api and remote = remote]
  show ?thesis
  proof (cases "fe_checksum l = sum_remote (F (fe_path l))")
    case True
    then have "note_set (fe_path l) (fe_checksum l) w = (out, w')"
      using run r by (simp add: alt io_then_def)
    then have "out = Inr ()" "run_view files D F (B(fe_path l \<mapsto> fe_checksum l)) w'"
      using v by (auto simp: note_set_def run_view_def world_view_def)
    moreover have "copied [l] (out = Inr ()) (\<lambda>_. sum_remote) F F B (B(fe_path l \<mapsto> fe_checksum l))"
      using True by (simp add: copied_def)
    ultimately show ?thesis by blast
  next
    case False
    then have "io_then (io_then (uploadFile api (fe_path l)) (note_res (add_uploaded (fe_path l))))
        (note_set (fe_path l) (fe_checksum l)) w = (out, w')"
      using run r by (simp add: alt)
    then consider (bad) e where "uploadFile api (fe_path l) w = (Inl e, w')" "out = Inl e"
      | (good) w1 w2 where "uploadFile api (fe_path l) w = (Inr (), w1)"
          "note_res (add_uploaded (fe_path l)) w1 = (Inr (), w2)"
          "note_set (fe_path l) (fe_checksum l) w2 = (out, w')"
      by (elim io_thenE) auto
    then show ?thesis
    proof cases
      case bad
      then obtain x where "x = None \<longrightarrow> F (fe_path l) = None" "run_view files D (F(fe_path l := x)) B w'"
        unfolding uploadFile_def
        by (elim io_bindE) (use a v op_okD(1) op_failD(1) request_failD(2) in \<open>metis fun_upd_triv sum.inject(1)\<close>)+
      then show ?thesis
        by (intro exI [of _ "F(fe_path l := x)"] exI [of _ B]) (use bad in \<open>auto simp: copied_def\<close>)
    next
      case good
      have "run_view files D (F(fe_path l \<mapsto> f_data f)) B w1"
        using good(1) unfolding uploadFile_def
        by (elim io_bindE) (use a v l op_okD(1) request_okD(2) in fastforce)+
      then have "run_view files D (F(fe_path l \<mapsto> f_data f)) (B(fe_path l \<mapsto> fe_checksum l)) w'"
        "out = Inr ()"
        using good(2,3) by (auto simp: note_res_def note_set_def run_view_def world_view_def)
      then show ?thesis
        by (intro exI [of _ "F(fe_path l \<mapsto> f_data f)"] exI [of _ "B(fe_path l \<mapsto> fe_checksum l)"])
          (use l in \<open>auto simp: copied_def\<close>)
    qed
  qed
qed

lemma downloadFile_run:
  assumes v: "run_view files D F B w" and a: "addressable p" and run: "downloadFile api p w = (out, w')"
  shows "\<exists>x. (x = None \<longrightarrow> D p = None) \<and> run_view files (D(p := x)) F B w' \<and>
    (out = Inr () \<longrightarrow> map_option f_data x = F p \<and> x \<noteq> None)"
  using run unfolding downloadFile_def
proof (cases rule: io_bindE)
  case (fail e)
  then have "run_view files (D(p := D p)) F B w'"
    using request_failD(1) [OF a v] by simp
  with fail show ?thesis by blast
next
  case (run d w1)
  then have d: "run_view files D F B w1" "F p = Some d"
    using request_okD(1) [OF a v run(1)] by simp_all
  show ?thesis
  proof (cases out)
    case (Inl e)
    then show ?thesis using op_failD(2) [OF d(1)] run(2) by auto
  next
    case (Inr u)
    then obtain f where "f_data f = d" "run_view files (D(p \<mapsto> f)) F B w'"
      using op_okD(2) [OF d(1)] run(2) by blast
    then show ?thesis using d(2) by (intro exI [of _ "Some f"]) simp
  qed
qed

lemma pull_entry_run:
  assumes run: "pull_entry api local r w = (out, w')" and v: "run_view files D F B w"
    and a: "addressable (fe_path r)" and r: "F (fe_path r) = Some d" "fe_checksum r = checksum d"
    and l: "fe_checksum (get_or no_entry local (fe_path r)) = sum_local (fe_path r) (D (fe_path r))"
    and n: "\<not> syncSkip (fe_path r)"
  shows "\<exists>D' B'. run_view files D' F B' w' \<and> copied [r] (out = Inr ()) sum_local D D' B B'"
proof -
  have ne: "fe_checksum r \<noteq> []" using r(2) by simp
  note alt = pull_entry_alt [OF ne, where api = api and local = local]
  show ?thesis
  proof (cases "fe_checksum r = sum_local (fe_path r) (D (fe_path r))")
    case True
    then have "note_set (fe_path r) (fe_checksum r) w = (out, w')"
      using run l by (simp add: alt io_then_def)
    then have "out = Inr ()" "run_view files D F (B(fe_path r \<mapsto> fe_checksum r)) w'"
      using v by (auto simp: note_set_def run_view_def world_view_def)
    moreover have "copied [r] (out = Inr ()) sum_local D D B (B(fe_path r \<mapsto> fe_checksum r))"
      using True by (simp add: copied_def)
    ultimately show ?thesis by blast
  next
    case False
    then have "io_then (io_then (downloadFile api (fe_path r)) (note_res (add_downloaded (fe_path r))))
        (note_set (fe_path r) (fe_checksum r)) w = (out, w')"
      using run l by (simp add: alt)
    then consider (bad) e where "downloadFile api (fe_path r) w = (Inl e, w')" "out = Inl e"
      | (good) w1 w2 where "downloadFile api (fe_path r) w = (Inr (), w1)"
          "note_res (add_downloaded (fe_path r)) w1 = (Inr (), w2)"
          "note_set (fe_path r) (fe_checksum r) w2 = (out, w')"
      by (elim io_thenE) auto
    then show ?thesis
    proof cases
      case bad
      then obtain x where "x = None \<longrightarrow> D (fe_path r) = None" "run_view files (D(fe_path r := x)) F B w'"
        using downloadFile_run [OF v a] by auto
      then show ?thesis
        by (intro exI [of _ "D(fe_path r := x)"] exI [of _ B]) (use bad in \<open>auto simp: copied_def\<close>)
    next
      case good
      obtain f where f: "f_data f = d" "run_view files (D(fe_path r \<mapsto> f)) F B w1"
        using downloadFile_run [OF v a good(1)] r(1) by auto
      then have "run_view files (D(fe_path r \<mapsto> f)) F (B(fe_path r \<mapsto> fe_checksum r)) w'"
        "out = Inr ()"
        using good(2,3) by (auto simp: note_res_def note_set_def run_view_def world_view_def)
      then show ?thesis
        by (intro exI [of _ "D(fe_path r \<mapsto> f)"] exI [of _ "B(fe_path r \<mapsto> fe_checksum r)"])
          (use r f n in \<open>auto simp: copied_def\<close>)
    qed
  qed
qed

lemma push_loop:
  "io_each (push_entry api remote) ls w = (out, w') \<Longrightarrow> run_view files D F B w \<Longrightarrow>
   distinct (map fe_path ls) \<Longrightarrow>
   \<forall>l\<in>set ls. addressable (fe_path l) \<and> (\<exists>f. D (fe_path l) = Some f \<and> fe_checksum l = checksum (f_data f)) \<and>
     fe_checksum (get_or no_entry remote (fe_path l)) = sum_remote (F (fe_path l)) \<Longrightarrow>
   \<exists>F' B'. run_view files D F' B' w' \<and> copied ls (out = Inr ()) (\<lambda>_. sum_remote) F F' B B'"
proof (induction ls arbitrary: w F B)
  case Nil
  then have "w' = w" by (simp add: io_return_def)
  with Nil show ?case using copied_refl by blast
next
  case (Cons l ls)
  obtain f where a: "addressable (fe_path l)"
      and f: "D (fe_path l) = Some f" "fe_checksum l = checksum (f_data f)"
      and r: "fe_checksum (get_or no_entry remote (fe_path l)) = sum_remote (F (fe_path l))"
    using Cons.prems(4) by auto
  note step = push_entry_run [OF _ Cons.prems(2) a f r]
  from Cons.prems(1) show ?case
  proof (cases rule: io_each_ConsE)
    case (fail e)
    then show ?thesis using step [OF fail(1)] copied_fail by fastforce
  next
    case (run w1)
    obtain F1 B1 where v1: "run_view files D F1 B1 w1" and c1: "copied [l] True (\<lambda>_. sum_remote) F F1 B B1"
      using step [OF run(1)] by auto
    have l: "fe_path l \<notin> fe_path ` set ls" using Cons.prems(3) by simp
    have "F1 (fe_path x) = F (fe_path x)" if "x \<in> set ls" for x
    proof -
      have "fe_path x \<noteq> fe_path l" using l that by (metis imageI)
      then show ?thesis using c1 by (simp add: copied_def)
    qed
    then have pre: "\<forall>l\<in>set ls. addressable (fe_path l) \<and>
        (\<exists>f. D (fe_path l) = Some f \<and> fe_checksum l = checksum (f_data f)) \<and>
        fe_checksum (get_or no_entry remote (fe_path l)) = sum_remote (F1 (fe_path l))"
      using Cons.prems(4) by simp
    have d: "distinct (map fe_path ls)" using Cons.prems(3) by simp
    show ?thesis
      using Cons.IH [OF run(2) v1 d pre] copied_Cons [OF c1 _ l] by blast
  qed
qed

lemma pull_loop:
  "io_each (pull_entry api local) rs w = (out, w') \<Longrightarrow> run_view files D F B w \<Longrightarrow>
   distinct (map fe_path rs) \<Longrightarrow>
   \<forall>r\<in>set rs. addressable (fe_path r) \<and> \<not> syncSkip (fe_path r) \<and>
     (\<exists>d. F (fe_path r) = Some d \<and> fe_checksum r = checksum d) \<and>
     fe_checksum (get_or no_entry local (fe_path r)) = sum_local (fe_path r) (D (fe_path r)) \<Longrightarrow>
   \<exists>D' B'. run_view files D' F B' w' \<and> copied rs (out = Inr ()) sum_local D D' B B'"
proof (induction rs arbitrary: w D B)
  case Nil
  then have "w' = w" by (simp add: io_return_def)
  with Nil show ?case using copied_refl by blast
next
  case (Cons r rs)
  obtain d where a: "addressable (fe_path r)" and n: "\<not> syncSkip (fe_path r)"
      and f: "F (fe_path r) = Some d" "fe_checksum r = checksum d"
      and l: "fe_checksum (get_or no_entry local (fe_path r)) = sum_local (fe_path r) (D (fe_path r))"
    using Cons.prems(4) by auto
  note step = pull_entry_run [OF _ Cons.prems(2) a f l n]
  from Cons.prems(1) show ?case
  proof (cases rule: io_each_ConsE)
    case (fail e)
    then show ?thesis using step [OF fail(1)] copied_fail by fastforce
  next
    case (run w1)
    obtain D1 B1 where v1: "run_view files D1 F B1 w1" and c1: "copied [r] True sum_local D D1 B B1"
      using step [OF run(1)] by auto
    have r: "fe_path r \<notin> fe_path ` set rs" using Cons.prems(3) by simp
    have "D1 (fe_path x) = D (fe_path x)" if "x \<in> set rs" for x
    proof -
      have "fe_path x \<noteq> fe_path r" using r that by (metis imageI)
      then show ?thesis using c1 by (simp add: copied_def)
    qed
    then have pre: "\<forall>r\<in>set rs. addressable (fe_path r) \<and> \<not> syncSkip (fe_path r) \<and>
        (\<exists>d. F (fe_path r) = Some d \<and> fe_checksum r = checksum d) \<and>
        fe_checksum (get_or no_entry local (fe_path r)) = sum_local (fe_path r) (D1 (fe_path r))"
      using Cons.prems(4) by simp
    have d: "distinct (map fe_path rs)" using Cons.prems(3) by simp
    show ?thesis
      using Cons.IH [OF run(2) v1 d pre] copied_Cons [OF c1 _ r] by blast
  qed
qed

lemma copy_finish:
  assumes fin: "finish_run (io_then m (\<lambda>w. saveManifest (base_next w) w) (start_run (saved_base w) w1)) = (out, w')"
    and w1: "same_trees w w1"
    and m: "\<And>o2 w2. m (start_run (saved_base w) w1) = (o2, w2) \<Longrightarrow>
      \<exists>D F B. run_view files D F B w2 \<and> P D F B (o2 = Inr ())"
    and weak: "\<And>D F B. P D F B True \<Longrightarrow> P D F B False"
  shows "\<exists>B. P (lookup (disk w')) (files (server w')) B (\<exists>r. out = Inr r) \<and>
    (\<forall>r. out = Inr r \<longrightarrow> lookup (saved_base w') = B)"
proof -
  let ?s = "start_run (saved_base w) w1"
  obtain o3 w3 where run: "io_then m (\<lambda>w. saveManifest (base_next w) w) ?s = (o3, w3)" by fastforce
  have outer: "disk w' = disk w3" "server w' = server w3" "base_file w' = base_file w3"
      "(\<exists>r. out = Inr r) \<longleftrightarrow> o3 = Inr ()"
    using finish_run_world [of o3 w3 out w'] fin unfolding run
    by (auto simp: finish_run_def split: sum.splits)
  from run show ?thesis
  proof (cases rule: io_thenE)
    case (fail e)
    obtain D F B where "run_view files D F B w3" "P D F B False" using m [OF fail(1)] by auto
    then show ?thesis using outer fail(2) by (auto simp: run_view_def world_view_def)
  next
    case (run w2)
    obtain D F B where v: "run_view files D F B w2" and P: "P D F B True" using m [OF run(1)] by auto
    have v3: "run_view files D F B w3" "o3 = Inr () \<longrightarrow> base_file w3 = SavedBase (base_next w3)"
      using saveManifest_run [OF run(2) v] by auto
    have "P D F B (\<exists>r. out = Inr r)" using P weak by (cases "\<exists>r. out = Inr r") auto
    moreover have "lookup (saved_base w') = B" if "out = Inr r" for r
      using that v3 outer by (auto simp: saved_base_def run_view_def)
    ultimately show ?thesis using v3(1) outer by (auto simp: run_view_def world_view_def)
  qed
qed

lemma copy_cases:
  assumes "io_bind (\<lambda>w. (Inr (LocalTree (disk w)), w)) (\<lambda>ls. io_bind (Tree api) (\<lambda>rs.
      io_bind loadManifest (\<lambda>base w. finish_run (f ls rs (start_run base w))))) w = (out, w')"
  obtains (early) e where "out = Inl e" "same_trees w w'"
    | (ran) w1 where "same_trees w w1"
        "finish_run (f (LocalTree (disk w)) (api_tree api (server w)) (start_run (saved_base w) w1)) = (out, w')"
proof -
  have "io_bind (Tree api) (\<lambda>rs. io_bind loadManifest (\<lambda>base w.
      finish_run (f (LocalTree (disk w0)) rs (start_run base w)))) w = (out, w')" if "w0 = w" for w0
    using assms that by (simp add: io_bind_def)
  from this [OF refl] show thesis
  proof (cases rule: io_bindE)
    case (fail e)
    then show ?thesis using early Tree_run by blast
  next
    case (run rs w1)
    have 1: "same_trees w w1" "rs = api_tree api (server w)" using Tree_run [OF run(1)] by auto
    from run(2) show ?thesis
    proof (cases rule: io_bindE)
      case (fail e)
      then show ?thesis using early loadManifest_run same_trees_trans [OF 1(1)] by blast
    next
      case (run base w2)
      have "same_trees w1 w2" "base = saved_base w1" using loadManifest_run [OF run(1)] by auto
      then show ?thesis
        using ran [of w2] run(2) 1 same_trees_trans [OF 1(1)] same_trees_plan(1) [OF 1(1)] by auto
    qed
  qed
qed

lemma Push_run:
  assumes run: "Push api w = (out, w')" and a: "client_addressable files w"
  shows "lookup (disk w') = lookup (disk w) \<and>
    (\<exists>es B. copied es (\<exists>r. out = Inr r) (\<lambda>_. sum_remote) (files (server w)) (files (server w'))
        (lookup (saved_base w)) B \<and> (\<forall>r. out = Inr r \<longrightarrow> es = LocalTree (disk w) \<and> lookup (saved_base w') = B) \<and>
        set es \<subseteq> set (LocalTree (disk w)))"
  using run [unfolded Push_def]
proof (cases rule: copy_cases)
  case (early e)
  then have "copied [] False (\<lambda>_. sum_remote) (files (server w)) (files (server w'))
      (lookup (saved_base w)) (lookup (saved_base w))"
    by (simp add: copied_def same_trees_def)
  then show ?thesis using early by (intro conjI exI [of _ "[]"]) (auto simp: same_trees_def)
next
  case (ran w1)
  let ?P = "\<lambda>D F B ok. D = lookup (disk w) \<and>
      copied (LocalTree (disk w)) ok (\<lambda>_. sum_remote) (files (server w)) F (lookup (saved_base w)) B"
  have pre: "\<forall>l\<in>set (LocalTree (disk w)). addressable (fe_path l) \<and>
      (\<exists>f. lookup (disk w) (fe_path l) = Some f \<and> fe_checksum l = checksum (f_data f)) \<and>
      fe_checksum (get_or no_entry (remote_index api w) (fe_path l)) = sum_remote (files (server w) (fe_path l))"
    using a by (auto simp: LocalTree_set remote_index_def remote_sum_index all_addressable_def)
  have v: "run_view files (lookup (disk w)) (files (server w)) (lookup (saved_base w))
      (start_run (saved_base w) w1)"
    using ran(1) by (simp add: start_run_view same_trees_def)
  have "\<exists>B. ?P (lookup (disk w')) (files (server w')) B (\<exists>r. out = Inr r) \<and>
      (\<forall>r. out = Inr r \<longrightarrow> lookup (saved_base w') = B)"
  proof (rule copy_finish [OF ran(2) ran(1)])
    fix o2 w2
    assume loop: "io_each (push_entry api (indexByPath (api_tree api (server w)))) (LocalTree (disk w))
        (start_run (saved_base w) w1) = (o2, w2)"
    show "\<exists>D F B. run_view files D F B w2 \<and> ?P D F B (o2 = Inr ())"
      using push_loop [OF loop v distinct_LocalTree pre [unfolded remote_index_def]] by blast
  qed (simp add: copied_def)
  then show ?thesis by blast
qed

lemma Pull_run:
  assumes run: "Pull api w = (out, w')" and a: "client_addressable files w"
    and served: "\<forall>q. files (server w) q \<noteq> None \<longrightarrow> \<not> syncSkip q"
  shows "files (server w') = files (server w) \<and>
    (\<exists>es B. copied es (\<exists>r. out = Inr r) sum_local (lookup (disk w)) (lookup (disk w'))
        (lookup (saved_base w)) B \<and>
        (\<forall>r. out = Inr r \<longrightarrow> es = api_tree api (server w) \<and> lookup (saved_base w') = B) \<and>
        set es \<subseteq> set (api_tree api (server w)))"
  using run [unfolded Pull_def]
proof (cases rule: copy_cases)
  case (early e)
  then have "copied [] False sum_local (lookup (disk w)) (lookup (disk w'))
      (lookup (saved_base w)) (lookup (saved_base w))"
    by (simp add: copied_def same_trees_def)
  then show ?thesis using early by (intro conjI exI [of _ "[]"]) (auto simp: same_trees_def)
next
  case (ran w1)
  let ?P = "\<lambda>D F B ok. F = files (server w) \<and>
      copied (api_tree api (server w)) ok sum_local (lookup (disk w)) D (lookup (saved_base w)) B"
  have entry: "\<exists>d. files (server w) (fe_path e) = Some d \<and> fe_checksum e = checksum d"
    if "e \<in> set (api_tree api (server w))" for e
    using that tree_files [of "server w" "fe_path e" "fe_checksum e"] by auto
  have pre: "\<forall>r\<in>set (api_tree api (server w)). addressable (fe_path r) \<and> \<not> syncSkip (fe_path r) \<and>
      (\<exists>d. files (server w) (fe_path r) = Some d \<and> fe_checksum r = checksum d) \<and>
      fe_checksum (get_or no_entry (indexByPath (LocalTree (disk w))) (fe_path r)) =
        sum_local (fe_path r) (lookup (disk w) (fe_path r))"
    using a served entry by (auto simp: local_sum_index all_addressable_def dest: entry)
  have v: "run_view files (lookup (disk w)) (files (server w)) (lookup (saved_base w))
      (start_run (saved_base w) w1)"
    using ran(1) by (simp add: start_run_view same_trees_def)
  have "\<exists>B. ?P (lookup (disk w')) (files (server w')) B (\<exists>r. out = Inr r) \<and>
      (\<forall>r. out = Inr r \<longrightarrow> lookup (saved_base w') = B)"
  proof (rule copy_finish [OF ran(2) ran(1)])
    fix o2 w2
    assume loop: "io_each (pull_entry api (indexByPath (LocalTree (disk w)))) (api_tree api (server w))
        (start_run (saved_base w) w1) = (o2, w2)"
    show "\<exists>D F B. run_view files D F B w2 \<and> ?P D F B (o2 = Inr ())"
      using pull_loop [OF loop v tree_distinct pre] by blast
  qed (simp add: copied_def)
  then show ?thesis by blast
qed

end

end
