(* ===== verification/SyncFacts.thy ===== *)
theory SyncFacts
  imports SyncCopy
begin

text \<open>
  The properties of the file sync on the program's own server: the handlers of \<open>SyncServer\<close> behind
  the requests of \<open>SyncClient\<close>. The general lemmas hold for every server with the laws of the locale
  \<open>sync_server\<close>; here they are read off for the interpretation \<open>srv\<close>. Each property holds for every
  script of failures in the world it starts from.

  The hypothesis \<open>client_addressable server_files w\<close> says that every path that takes part can be put in
  a URL as it is: segments that are not empty, \<open>.\<close> or \<open>..\<close>, none of \<open>%\<close>, \<open>?\<close> and \<open>#\<close>, and no path the
  server refuses. What happens without it is the subject of \<open>put_cuts_path\<close>.
\<close>

subsection \<open>Worlds the witnesses run in\<close>

definition demo_file :: fsfile where
  "demo_file = \<lparr>f_data = ''edited'', f_mtime = 5\<rparr>"

definition demo_server :: server_state where
  "demo_server = \<lparr>srv_root = ''/data'', srv_disk = [(''memory/b.md'', \<lparr>f_data = ''there'', f_mtime = 7\<rparr>)],
     srv_now = 9, srv_semantic = True, srv_embed = \<lparr>pending = [], kick = False, queue_file = None\<rparr>\<rparr>"

definition demo_world :: "server_state world" where
  "demo_world = \<lparr>disk = [(''memory/a.md'', demo_file)],
     base_file = SavedBase [(''memory/a.md'', ''old''), (''memory/b.md'', ''old'')],
     server = demo_server, now = 10, faults = []\<rparr>"

lemma demo_paths [simp]:
  "addressable ''memory/a.md''" "addressable ''memory/b.md''"
  "\<not> syncSkip ''memory/a.md''" "\<not> syncSkip ''memory/b.md''" "\<not> server_syncSkip ''memory/b.md''"
  "\<not> singleWriter ''memory/a.md''" "\<not> singleWriter ''memory/b.md''"
  by code_simp+

lemma demo_trees:
  "lookup (disk demo_world) = [''memory/a.md'' \<mapsto> demo_file]"
  "server_files (server demo_world) = [''memory/b.md'' \<mapsto> ''there'']"
  "get_or [] (saved_base demo_world) ''memory/a.md'' = ''old''"
  "get_or [] (saved_base demo_world) ''memory/b.md'' = ''old''"
  "faults demo_world = []"
  by (auto simp: demo_world_def demo_server_def server_files_def saved_base_def get_or_def fun_eq_iff)

lemma demo_addressable [simp]: "client_addressable server_files demo_world"
  by (simp add: all_addressable_def demo_trees)

lemmas demo_addressable_trees [simp] = demo_addressable [unfolded demo_trees]

lemma demo_file_data [simp]: "f_data demo_file = ''edited''"
  by (simp add: demo_file_def)

lemma checksum_short [simp]: "length c \<noteq> 64 \<Longrightarrow> checksum d \<noteq> c" "length c \<noteq> 64 \<Longrightarrow> c \<noteq> checksum d"
  by (metis length_checksum)+

abbreviation demo_sync where "demo_sync allow \<equiv> Sync mycelium_api allow demo_world"

lemma merge_nothing:
  assumes "get_or [] (saved_base w) q = []" and "lookup (disk w) q = None"
    and "server_files (server w) q = None"
  shows "sync_merge mycelium_api w q = []"
  using assms local_sum_index [of "disk w" q] srv.remote_sum_index [of "server w" q]
  by (simp add: sync_merge_def merged_def merge3_def local_index_def remote_index_def)

lemma merged_path:
  assumes "Sync mycelium_api allow w = (Inr r, w')" and "client_addressable server_files w"
  shows "(\<not> syncSkip q \<longrightarrow> sum_local q (lookup (disk w') q) = sync_merge mycelium_api w q) \<and>
    sum_remote (server_files (server w') q) = sync_merge mycelium_api w q \<and>
    sum_base (lookup (saved_base w') q) = sync_merge mycelium_api w q"
  using srv.Sync_sound_paths [OF assms] by (simp add: world_merged_def settled_def)

subsection \<open>Nothing is lost\<close>





text \<open>
  C3: a run that was not told to go ahead removes at most \<open>MaxSilentDeletes\<close> files, this machine's
  and the server's counted together, however it ends.
\<close>

theorem sync_deletion_guard:
  assumes "Sync mycelium_api False w = (out, w')" and "client_addressable server_files w"
  shows "card {q. \<not> syncSkip q \<and> lookup (disk w) q \<noteq> None \<and> lookup (disk w') q = None} +
    card {q. server_files (server w) q \<noteq> None \<and> server_files (server w') q = None} \<le> MaxSilentDeletes"
  using srv.Sync_bounded [OF assms] .

lemma sync_deletion_guard_witness:
  "card {q. \<not> syncSkip q \<and> lookup (disk demo_world) q \<noteq> None \<and>
      lookup (disk (snd (demo_sync False))) q = None} +
    card {q. server_files (server demo_world) q \<noteq> None \<and>
      server_files (server (snd (demo_sync False))) q = None} \<le> MaxSilentDeletes"
  using sync_deletion_guard [of demo_world "fst (demo_sync False)" "snd (demo_sync False)"] by simp



subsection \<open>Both sides agree\<close>







subsection \<open>One-way copies\<close>

text \<open>
  \<open>Push\<close> changes nothing on this machine and removes nothing from the server, whatever fails; when
  it succeeds the server holds every file of this machine, and the base records it.
\<close>

theorem push_copies:
  assumes "Push mycelium_api w = (out, w')" and "client_addressable server_files w"
  shows "lookup (disk w') = lookup (disk w) \<and>
    (\<forall>q. server_files (server w) q \<noteq> None \<longrightarrow> server_files (server w') q \<noteq> None) \<and>
    (\<forall>r q f. out = Inr r \<and> lookup (disk w) q = Some f \<and> \<not> syncSkip q \<longrightarrow>
       sum_remote (server_files (server w') q) = checksum (f_data f) \<and>
       lookup (saved_base w') q = Some (checksum (f_data f)))"
proof -
  obtain es B where push: "lookup (disk w') = lookup (disk w)"
      "copied es (\<exists>r. out = Inr r) (\<lambda>_. sum_remote) (server_files (server w)) (server_files (server w'))
        (lookup (saved_base w)) B"
      "\<forall>r. out = Inr r \<longrightarrow> es = LocalTree (disk w) \<and> lookup (saved_base w') = B"
    using srv.Push_run [OF assms] by blast
  have "sum_remote (server_files (server w') q) = checksum (f_data f) \<and>
      lookup (saved_base w') q = Some (checksum (f_data f))"
    if "out = Inr r" "lookup (disk w) q = Some f" "\<not> syncSkip q" for r q f
  proof -
    have "file_entry format_rfc3339_nano q f \<in> set es"
      using push(3) that by (auto simp: LocalTree_set)
    then show ?thesis using push(2,3) that(1) unfolding copied_def by force
  qed
  then show ?thesis using push(1,2) by (simp add: copied_def)
qed

lemma push_copies_witness: "lookup (disk (snd (Push mycelium_api demo_world))) ''memory/a.md'' = Some demo_file"
  using push_copies [of demo_world "fst (Push mycelium_api demo_world)" "snd (Push mycelium_api demo_world)"]
  by (simp add: demo_trees)

text \<open>
  \<open>Pull\<close> changes nothing on the server and removes nothing from this machine, whatever fails; when
  it succeeds this machine holds every file of the server, and the base records it.
\<close>

theorem pull_copies:
  assumes "Pull mycelium_api w = (out, w')" and "client_addressable server_files w"
    and "\<forall>q. server_files (server w) q \<noteq> None \<longrightarrow> \<not> syncSkip q"
  shows "server_files (server w') = server_files (server w) \<and>
    (\<forall>q. lookup (disk w) q \<noteq> None \<longrightarrow> lookup (disk w') q \<noteq> None) \<and>
    (\<forall>r q d. out = Inr r \<and> server_files (server w) q = Some d \<longrightarrow>
       sum_local q (lookup (disk w') q) = checksum d \<and> lookup (saved_base w') q = Some (checksum d))"
proof -
  obtain es B where pull: "server_files (server w') = server_files (server w)"
      "copied es (\<exists>r. out = Inr r) sum_local (lookup (disk w)) (lookup (disk w')) (lookup (saved_base w)) B"
      "\<forall>r. out = Inr r \<longrightarrow> es = api_tree mycelium_api (server w) \<and> lookup (saved_base w') = B"
    using srv.Pull_run [OF assms] by blast
  have "sum_local q (lookup (disk w') q) = checksum d \<and> lookup (saved_base w') q = Some (checksum d)"
    if "out = Inr r" "server_files (server w) q = Some d" for r q d
  proof -
    have "\<exists>e\<in>set (api_tree mycelium_api (server w)). fe_path e = q \<and> fe_checksum e = checksum d"
      using that(2) srv.tree_files by blast
    moreover have "es = api_tree mycelium_api (server w)" using pull(3) that(1) by simp
    ultimately obtain e where "e \<in> set es" "fe_path e = q" "fe_checksum e = checksum d" by auto
    then show ?thesis using pull(2,3) that(1) unfolding copied_def by force
  qed
  then show ?thesis using pull(1,2) by (simp add: copied_def)
qed

lemma pull_copies_witness:
  "server_files (server (snd (Pull mycelium_api demo_world))) ''memory/b.md'' = Some ''there''"
  using pull_copies [of demo_world "fst (Pull mycelium_api demo_world)" "snd (Pull mycelium_api demo_world)"]
  by (auto simp: demo_trees)

subsection \<open>Trees and paths\<close>

text \<open>
  \<open>LocalTree\<close> prunes directories while it walks and still lists exactly the files the rule
  keeps, in the order of the walk.
\<close>

theorem local_tree_complete:
  "map fe_path (LocalTree d) = filter (\<lambda>p. \<not> syncSkip p) (walk_order (remdups (map_keys d)))"
  by (simp only: map_path_LocalTree filter_walked_files)

text \<open>
  A path the server resolves lies below its root and is not one it refuses; \<open>..\<close> never leads
  out of the tree. The root itself is reached only by a path without any proper segment.
\<close>

theorem resolved_inside:
  assumes "resolveSyncPath root rel = Some (full, clean)"
  shows "\<not> server_syncSkip clean \<and>
    (clean = [] \<and> full = root \<or> proper_path clean \<and> full = root @ ''/'' @ clean)"
  using assms clean_rooted_good [of rel] proper_path_nonempty by (auto simp: resolveSyncPath_Some)

lemma resolved_inside_witness: "proper_path ''memory/a.md''"
  using resolved_inside [of "''/data''" "''x/../../memory//a.md''" "''/data/memory/a.md''" "''memory/a.md''"]
  by code_simp

text \<open>
  What was put is what is read, and no other path changes.
\<close>

theorem server_put_get:
  assumes "addressable p" and "http_put Done p d s = (ok, s')"
  shows "ok \<and> http_get p s' = Some d \<and> (\<forall>q. q \<noteq> p \<longrightarrow> server_files s' q = server_files s q)"
  using srv.put_then_get [OF assms(1), of d s ok s'] srv.put_files [OF assms(1), of d s ok s'] assms(2)
  by (simp add: mycelium_api_def)

lemma server_put_get_witness:
  "http_get ''memory/a.md'' (snd (http_put Done ''memory/a.md'' ''x'' demo_server)) = Some ''x''"
  using server_put_get [of "''memory/a.md''" "''x''" demo_server
      "fst (http_put Done ''memory/a.md'' ''x'' demo_server)"
      "snd (http_put Done ''memory/a.md'' ''x'' demo_server)"]
  by simp

text \<open>
  The path is put into the URL as it is, so everything from a question mark on is lost on the
  way: the upload of a file named with one overwrites another file.
\<close>

theorem put_cuts_path:
  assumes "CHR ''?'' \<notin> set p" and "CHR ''#'' \<notin> set p"
  shows "http_put out (p @ ''?'' @ rest) d s = http_put out p d s"
proof -
  have "takeWhile (\<lambda>c. c \<noteq> CHR ''?'' \<and> c \<noteq> CHR ''#'') (p @ ''?'' @ rest) = p"
    using assms by (subst takeWhile_append2) auto
  moreover have "takeWhile (\<lambda>c. c \<noteq> CHR ''?'' \<and> c \<noteq> CHR ''#'') p = p"
    using assms by (auto simp: takeWhile_eq_all_conv)
  ultimately have "wire_path (p @ ''?'' @ rest) = wire_path p"
    unfolding wire_path_def by (simp only:)
  then show ?thesis by (simp add: http_put_def)
qed

lemma put_cuts_path_witness:
  "server_files (snd (http_put Done ''memory/b.md?draft'' ''new'' demo_server)) ''memory/b.md'' = Some ''new''"
  using put_cuts_path [of "''memory/b.md''" Done "''draft''" "''new''" demo_server]
    srv.put_files [of "''memory/b.md''" "''new''" demo_server]
  by (cases "http_put Done ''memory/b.md'' ''new'' demo_server") (simp add: mycelium_api_def)

text \<open>
  Two machines agree on the winner of a conflict: for two different contents exactly one of the
  two orders makes the first one win.
\<close>

theorem winner_agreed:
  assumes "fe_checksum a \<noteq> fe_checksum b"
  shows "localWins a b \<longleftrightarrow> \<not> localWins b a"
  using assms by (auto simp: localWins_def split: option.splits)

lemma winner_agreed_witness:
  "localWins (no_entry\<lparr>fe_checksum := ''b''\<rparr>) (no_entry\<lparr>fe_checksum := ''a''\<rparr>) \<longleftrightarrow>
   \<not> localWins (no_entry\<lparr>fe_checksum := ''a''\<rparr>) (no_entry\<lparr>fe_checksum := ''b''\<rparr>)"
  by (rule winner_agreed) simp

text \<open>
  The two copies of the rule differ. A file the server lists and this client does not, such as
  a \<open>.log\<close>, is recorded by a first run and deleted from the server by the second.
\<close>

theorem skipped_file_deleted:
  assumes "Sync mycelium_api allow w = (Inr r, w1)" and "client_addressable server_files w"
    and "Sync mycelium_api allow2 w1 = (Inr r2, w2)" and "client_addressable server_files w1"
    and "syncSkip q" and "lookup (saved_base w) q = None"
  shows "server_files (server w2) q = None"
proof -
  have skip: "fe_checksum (get_or no_entry (local_index v) q) = []" for v :: "server_state world"
    using assms(5) by (simp add: local_index_def local_sum_index sum_local_Nil)
  have remote: "fe_checksum (get_or no_entry (remote_index mycelium_api v) q) =
      sum_remote (server_files (server v) q)" for v :: "server_state world"
    by (simp add: remote_index_def srv.remote_sum_index)
  have base: "get_or [] (saved_base w) q = []" using assms(6) by (simp add: get_or_def)
  have "sync_merge mycelium_api w q = sum_remote (server_files (server w) q)"
    by (simp add: sync_merge_def merged_def merge3_def skip remote base)
  then have 1: "sum_base (lookup (saved_base w1) q) = sum_remote (server_files (server w1) q)"
    using merged_path [OF assms(1,2), of q] by simp
  then have "sync_merge mycelium_api w1 q = []"
    by (simp add: sync_merge_def merged_def merge3_def skip remote flip: sum_base_get_or)
  then show ?thesis using merged_path [OF assms(3,4), of q] by simp
qed

definition log_world :: "server_state world" where
  "log_world = \<lparr>disk = [], base_file = NoBase,
     server = demo_server\<lparr>srv_disk := [(''x.log'', \<lparr>f_data = ''lines'', f_mtime = 7\<rparr>)]\<rparr>,
     now = 10, faults = []\<rparr>"

lemma log_paths [simp]: "addressable ''x.log''" "syncSkip ''x.log''" "\<not> server_syncSkip ''x.log''"
  by code_simp+

lemma log_trees:
  "lookup (disk log_world) = Map.empty" "server_files (server log_world) = [''x.log'' \<mapsto> ''lines'']"
  "saved_base log_world = []" "faults log_world = []"
  by (auto simp: log_world_def server_files_def saved_base_def fun_eq_iff)

lemma skipped_file_deleted_witness:
  "\<exists>r w1 r2 w2. Sync mycelium_api True log_world = (Inr r, w1) \<and> Sync mycelium_api True w1 = (Inr r2, w2) \<and>
    server_files (server log_world) ''x.log'' = Some ''lines'' \<and> server_files (server w2) ''x.log'' = None"
proof -
  have a: "client_addressable server_files log_world" by (simp add: all_addressable_def log_trees)
  obtain r w1 where run: "Sync mycelium_api True log_world = (Inr r, w1)" and calm: "faults w1 = []"
    using srv.Sync_total [of log_world True] a by (auto simp: log_trees plan_allowed_def)
  have none: "server_files (server w1) q = None \<and> (syncSkip q \<or> lookup (disk w1) q = None)" if "q \<noteq> ''x.log''" for q
  proof -
    have m: "settled q (sync_merge mycelium_api log_world q) (lookup (disk w1)) (server_files (server w1))
        (lookup (saved_base w1))"
      using srv.Sync_sound_paths [OF run a] by (simp add: world_merged_def)
    have "sync_merge mycelium_api log_world q = []"
      using that by (intro merge_nothing) (simp_all add: log_trees get_or_def)
    then show ?thesis using m by (auto simp: settled_def sum_local_Nil)
  qed
  have a1: "client_addressable server_files w1"
    unfolding all_addressable_def
  proof
    fix q
    show "(lookup (disk w1) q \<noteq> None \<and> \<not> syncSkip q \<longrightarrow> addressable q) \<and>
        (server_files (server w1) q \<noteq> None \<longrightarrow> addressable q)"
      using none [of q] by (cases "q = ''x.log''") auto
  qed
  obtain r2 w2 where run2: "Sync mycelium_api True w1 = (Inr r2, w2)"
    using srv.Sync_total [OF calm a1, of True] by (auto simp: plan_allowed_def)
  show ?thesis
    using run run2 skipped_file_deleted [OF run a run2 a1, of "''x.log''"] by (auto simp: log_trees)
qed

end
