(* ===== verification/FlowModel.thy ===== *)
theory FlowModel
  imports Prelude Sha256
begin

text \<open>
  Flows and their validation: \<open>internal/flow/flow.go\<close>, \<open>graph.go\<close> and the checks of \<open>needs.go\<close>.

  A Go error is a value of \<open>flow_error\<close>, one constructor for each message; a check returns
  \<^const>\<open>None\<close> for \<open>nil\<close>. \<open>depends_on\<close> is \<^const>\<open>None\<close> where the slice is nil: an empty list and no
  list mean different things. The decoding of YAML is a third-party package and a parameter of \<open>Parse\<close>.
\<close>

definition DefaultTimeout :: int where "DefaultTimeout = 300"
definition MaxTimeout :: int where "MaxTimeout = 3600"
definition MaxStreamBytes :: nat where "MaxStreamBytes = 2 ^ 20"
definition MaxValueBytes :: nat where "MaxValueBytes = 64 * 2 ^ 10"
definition MaxTotalValueBytes :: nat where "MaxTotalValueBytes = 256 * 2 ^ 10"
definition tokenEnvVar :: string where "tokenEnvVar = ''MYCELIUM_TOKEN''"

text \<open>A value of \<open>with\<close>, as far as a check tells values apart.\<close>

datatype yaml_value = YString string | YInt | YFloat | YBool | YOther

record Step =
  s_Name :: string
  s_Run :: string
  s_Env :: "(string, string) gomap"
  s_Needs :: "(string, string) gomap"
  s_DependsOn :: "string list option"
  s_Ephemeral :: bool
  s_Secret :: "string list"
  s_Type :: string
  s_With :: "(string, yaml_value) gomap"
  s_Timeout :: int
  s_AllowFailure :: bool

definition EffectiveTimeout :: "Step \<Rightarrow> int" where
  "EffectiveTimeout s = (if s_Timeout s \<le> 0 then DefaultTimeout else s_Timeout s)"

record Flow =
  f_Name :: string
  f_Description :: string
  f_Steps :: "Step list"
  f_Path :: string
  f_Checksum :: string

datatype field = Stdout | Stderr | ExitCode

record reference =
  ref_Step :: string
  ref_Field :: field

datatype flow_error =
    InvalidYAML
  | NoName
  | WrongFile string string
  | NoSteps
  | StepNoName nat
  | StepTwice string
  | RunAndType string
  | NothingToRun string
  | WithOnShell string
  | NegativeTimeout string
  | TimeoutOverCap string int
  | SecretNoName string
  | BadEnvName string string
  | SecretToken string
  | SecretTwice string string
  | BindsToken string
  | EnvAndNeeds string string
  | NotAReference string
  | UnknownField string
  | NeedsItself string
  | NeedsUnknown string string
  | DependsOnItself string
  | DependsOnUnknown string string
  | CycleOf "string list"

subsection \<open>References: needs.go\<close>

definition field_of :: "string \<Rightarrow> field option" where
  "field_of s =
     (if s = ''stdout'' then Some Stdout
      else if s = ''stderr'' then Some Stderr
      else if s = ''exit_code'' then Some ExitCode
      else None)"

definition field_name :: "field \<Rightarrow> string" where
  "field_name f = (case f of Stdout \<Rightarrow> ''stdout'' | Stderr \<Rightarrow> ''stderr'' | ExitCode \<Rightarrow> ''exit_code'')"

definition parseReference :: "string \<Rightarrow> flow_error + reference" where
  "parseReference ref =
     (case last_index_byte ref (\<lambda>c. c = CHR ''.'') of
        None \<Rightarrow> Inl (NotAReference ref)
      | Some i \<Rightarrow>
          if i = 0 \<or> i = length ref - 1 then Inl (NotAReference ref)
          else (case field_of (drop (i + 1) ref) of
                  None \<Rightarrow> Inl (UnknownField ref)
                | Some f \<Rightarrow> Inr \<lparr>ref_Step = take i ref, ref_Field = f\<rparr>))"

definition sortedNames :: "(string, 'v) gomap \<Rightarrow> string list" where
  "sortedNames m = sort (remdups (map_keys m))"

definition env_letter :: "char \<Rightarrow> bool" where
  "env_letter c \<longleftrightarrow> c = CHR ''_'' \<or> is_lower c \<or> is_upper c"

definition validEnvName :: "string \<Rightarrow> bool" where
  "validEnvName name \<longleftrightarrow>
     name \<noteq> [] \<and> env_letter (hd name) \<and> list_all (\<lambda>c. env_letter c \<or> is_digit c) (tl name)"

definition validateNeed :: "Step \<Rightarrow> string list \<Rightarrow> string \<Rightarrow> flow_error option" where
  "validateNeed step known name =
     (if \<not> validEnvName name then Some (BadEnvName (s_Name step) name)
      else if name = tokenEnvVar then Some (BindsToken (s_Name step))
      else if lookup (s_Env step) name \<noteq> None then Some (EnvAndNeeds (s_Name step) name)
      else (case parseReference (get_or [] (s_Needs step) name) of
              Inl e \<Rightarrow> Some e
            | Inr parsed \<Rightarrow>
                if ref_Step parsed = s_Name step then Some (NeedsItself (s_Name step))
                else if ref_Step parsed \<notin> set known
                then Some (NeedsUnknown (s_Name step) (ref_Step parsed))
                else None))"

definition validateNeeds :: "Step \<Rightarrow> string list \<Rightarrow> flow_error option" where
  "validateNeeds step known = first_error (validateNeed step known) (sortedNames (s_Needs step))"

subsection \<open>One step: flow.go\<close>

fun validateSecretNames :: "string \<Rightarrow> string list \<Rightarrow> string list \<Rightarrow> flow_error option" where
  "validateSecretNames step seen [] = None"
| "validateSecretNames step seen (name # names) =
     (if name = [] then Some (SecretNoName step)
      else if \<not> validEnvName name then Some (BadEnvName step name)
      else if name = tokenEnvVar then Some (SecretToken step)
      else if name \<in> set seen then Some (SecretTwice step name)
      else validateSecretNames step (name # seen) names)"

definition validateSecret :: "Step \<Rightarrow> flow_error option" where
  "validateSecret s = validateSecretNames (s_Name s) [] (s_Secret s)"

definition validateStep :: "string list \<Rightarrow> Step \<Rightarrow> flow_error option" where
  "validateStep known s =
     (let hasRun = (trim_space (s_Run s) \<noteq> []); hasType = (trim_space (s_Type s) \<noteq> [])
      in if hasRun \<and> hasType then Some (RunAndType (s_Name s))
         else if \<not> hasRun \<and> \<not> hasType then Some (NothingToRun (s_Name s))
         else if hasRun \<and> s_With s \<noteq> [] then Some (WithOnShell (s_Name s))
         else if s_Timeout s < 0 then Some (NegativeTimeout (s_Name s))
         else if s_Timeout s > MaxTimeout then Some (TimeoutOverCap (s_Name s) (s_Timeout s))
         else and_then (validateSecret s) (validateNeeds s known))"

fun validateNames :: "nat \<Rightarrow> string list \<Rightarrow> Step list \<Rightarrow> flow_error option" where
  "validateNames i known [] = None"
| "validateNames i known (s # ss) =
     (if s_Name s = [] then Some (StepNoName (i + 1))
      else if s_Name s \<in> set known then Some (StepTwice (s_Name s))
      else validateNames (i + 1) (s_Name s # known) ss)"

subsection \<open>The dependency graph: graph.go\<close>

definition parsed_step :: "string \<Rightarrow> string option" where
  "parsed_step ref = (case parseReference ref of Inl _ \<Rightarrow> None | Inr p \<Rightarrow> Some (ref_Step p))"

text \<open>The set \<open>waits\<close> of one step, given the step written before it.\<close>

definition step_waits :: "Step option \<Rightarrow> Step \<Rightarrow> string list" where
  "step_waits prev step =
     (let implied = (case s_DependsOn step of
                       None \<Rightarrow> (case prev of None \<Rightarrow> [] | Some p \<Rightarrow> [s_Name p])
                     | Some names \<Rightarrow> names);
          needed = List.map_filter (\<lambda>name. parsed_step (get_or [] (s_Needs step) name))
                     (sortedNames (s_Needs step))
      in sort (remdups (filter (\<lambda>n. n \<noteq> s_Name step) (implied @ needed))))"

fun deps_from :: "Step option \<Rightarrow> Step list \<Rightarrow> (string, string list) gomap" where
  "deps_from prev [] = []"
| "deps_from prev (s # ss) = (s_Name s, step_waits prev s) # deps_from (Some s) ss"

definition dependencies :: "Flow \<Rightarrow> (string, string list) gomap" where
  "dependencies f = rev (deps_from None (f_Steps f))"

definition cycleFrom :: "string list \<Rightarrow> string \<Rightarrow> string list" where
  "cycleFrom path start =
     (let from = (if start \<in> set path then dropWhile (\<lambda>n. n \<noteq> start) path else path)
      in from @ [start])"

datatype mark = Unvisited | OnStack | Settled

text \<open>
  The closure \<open>walk\<close> with the variables it captures, \<open>state\<close> and \<open>path\<close>. The first argument bounds
  the depth of the recursion; \<open>walk_fuel\<close> below shows a bound that is never reached.
\<close>

record walk_state =
  ws_state :: "(string, mark) gomap"
  ws_path :: "string list"

definition set_mark :: "string \<Rightarrow> mark \<Rightarrow> walk_state \<Rightarrow> walk_state" where
  "set_mark name m st = st\<lparr>ws_state := AList.update name m (ws_state st)\<rparr>"

definition mark_of :: "walk_state \<Rightarrow> string \<Rightarrow> mark" where
  "mark_of st name = get_or Unvisited (ws_state st) name"

datatype walk_error = FoundCycle "string list" | TooDeep

fun walk :: "(string, string list) gomap \<Rightarrow> nat \<Rightarrow> string \<Rightarrow> walk_state \<Rightarrow> walk_error + walk_state"
and walk_deps :: "(string, string list) gomap \<Rightarrow> nat \<Rightarrow> string list \<Rightarrow> walk_state \<Rightarrow> walk_error + walk_state"
where
  "walk deps 0 name st = Inl TooDeep"
| "walk deps (Suc n) name st =
     (case walk_deps deps n (get_or [] deps name)
        ((set_mark name OnStack st)\<lparr>ws_path := ws_path st @ [name]\<rparr>) of
        Inl e \<Rightarrow> Inl e
      | Inr st' \<Rightarrow> Inr (set_mark name Settled (st'\<lparr>ws_path := butlast (ws_path st')\<rparr>)))"
| "walk_deps deps n [] st = Inr st"
| "walk_deps deps n (next # rest) st =
     (case mark_of st next of
        OnStack \<Rightarrow> Inl (FoundCycle (cycleFrom (ws_path st) next))
      | Unvisited \<Rightarrow>
          (case walk deps n next st of Inl e \<Rightarrow> Inl e | Inr st' \<Rightarrow> walk_deps deps n rest st')
      | Settled \<Rightarrow> walk_deps deps n rest st)"

fun walk_all ::
  "(string, string list) gomap \<Rightarrow> nat \<Rightarrow> Step list \<Rightarrow> walk_state \<Rightarrow> walk_error + walk_state" where
  "walk_all deps n [] st = Inr st"
| "walk_all deps n (s # ss) st =
     (if mark_of st (s_Name s) \<noteq> Unvisited then walk_all deps n ss st
      else (case walk deps n (s_Name s) st of
              Inl e \<Rightarrow> Inl e
            | Inr st' \<Rightarrow> walk_all deps n ss st'))"

text \<open>Every name the walk can meet: the steps and what they wait on.\<close>

definition graph_names :: "(string, string list) gomap \<Rightarrow> string list" where
  "graph_names deps = remdups (map_keys deps @ concat (map snd deps))"

definition findCycle :: "Flow \<Rightarrow> flow_error option" where
  "findCycle f =
     (let deps = dependencies f
      in (case walk_all deps (length (graph_names deps)) (f_Steps f) \<lparr>ws_state = [], ws_path = []\<rparr> of
            Inr _ \<Rightarrow> None
          | Inl (FoundCycle c) \<Rightarrow> Some (CycleOf c)
          | Inl TooDeep \<Rightarrow> None))"

definition check_depends :: "string list \<Rightarrow> Step \<Rightarrow> flow_error option" where
  "check_depends known s =
     first_error (\<lambda>name.
         if name = s_Name s then Some (DependsOnItself (s_Name s))
         else if name \<notin> set known then Some (DependsOnUnknown (s_Name s) name)
         else None)
       (case s_DependsOn s of None \<Rightarrow> [] | Some names \<Rightarrow> names)"

definition validateGraph :: "Flow \<Rightarrow> flow_error option" where
  "validateGraph f =
     and_then (first_error (check_depends (map s_Name (f_Steps f))) (f_Steps f)) (findCycle f)"

definition validateSteps :: "Flow \<Rightarrow> flow_error option" where
  "validateSteps f =
     and_then (validateNames 0 [] (f_Steps f))
       (and_then (first_error (validateStep (map s_Name (f_Steps f))) (f_Steps f)) (validateGraph f))"

definition validate :: "string \<Rightarrow> Flow \<Rightarrow> flow_error option" where
  "validate stem f =
     (if f_Name f = [] then Some NoName
      else if f_Name f \<noteq> stem then Some (WrongFile (f_Name f) stem)
      else if f_Steps f = [] then Some NoSteps
      else validateSteps f)"

text \<open>\<open>filepath.Base\<close> and \<open>filepath.Ext\<close> of a Unix path.\<close>

definition NameFromPath :: "string \<Rightarrow> string" where
  "NameFromPath path = trim_suffix (path_base path) (path_ext (path_base path))"

definition Checksum :: "string \<Rightarrow> string" where
  "Checksum data = ''sha256:'' @ sha256_hex data"

definition Parse :: "(string \<Rightarrow> Flow option) \<Rightarrow> string \<Rightarrow> string \<Rightarrow> flow_error + Flow" where
  "Parse decode path data =
     (case decode data of
        None \<Rightarrow> Inl InvalidYAML
      | Some f0 \<Rightarrow>
          let f = f0\<lparr>f_Path := path, f_Checksum := Checksum data\<rparr>
          in (case validate (NameFromPath path) f of Some e \<Rightarrow> Inl e | None \<Rightarrow> Inr f))"

end
