(* ===== verification/FlowGraph.thy ===== *)
theory FlowGraph
  imports FlowModel
begin

text \<open>
  The depth-first search of \<open>graph.go\<close> decides whether the steps of a flow can be ordered: when it
  reports nothing there is an order in which every step comes after what it waits on, and when it
  reports a loop that loop exists.
\<close>

definition waits_on :: "(string, string list) gomap \<Rightarrow> string \<Rightarrow> string set" where
  "waits_on deps n = set (get_or [] deps n)"

text \<open>An order of names in which each comes after everything it waits on.\<close>

inductive runnable_order :: "(string, string list) gomap \<Rightarrow> string list \<Rightarrow> bool"
  for deps where
    empty_order [intro]: "runnable_order deps []"
  | add_order [intro]: "runnable_order deps ns \<Longrightarrow> waits_on deps n \<subseteq> set ns \<Longrightarrow> n \<notin> set ns \<Longrightarrow>
      runnable_order deps (ns @ [n])"

definition marked :: "walk_state \<Rightarrow> mark \<Rightarrow> string set" where
  "marked st m = {n. mark_of st n = m}"

lemma mark_of_set_mark [simp]: "mark_of (set_mark n m st) x = (if x = n then m else mark_of st x)"
  by (simp add: mark_of_def set_mark_def get_or_def)

lemma set_mark_path [simp]: "ws_path (set_mark n m st) = ws_path st"
  by (simp add: set_mark_def)

lemma mark_of_path [simp]: "mark_of (ws_path_update f st) n = mark_of st n"
  by (simp add: mark_of_def)

lemma marked_path [simp]: "marked (ws_path_update f st) m = marked st m"
  by (simp add: marked_def)

lemma marked_set_mark: "marked (set_mark n m st) m' = (if m' = m then insert n (marked st m) else marked st m' - {n})"
  by (auto simp: marked_def)

subsection \<open>A search that finds nothing yields an order\<close>

definition ordered_settled :: "(string, string list) gomap \<Rightarrow> walk_state \<Rightarrow> bool" where
  "ordered_settled deps st \<longleftrightarrow> (\<exists>ns. runnable_order deps ns \<and> set ns = marked st Settled)"

definition walk_grew :: "walk_state \<Rightarrow> walk_state \<Rightarrow> bool" where
  "walk_grew st st' \<longleftrightarrow>
     marked st Settled \<subseteq> marked st' Settled \<and> marked st' OnStack = marked st OnStack \<and>
     ws_path st' = ws_path st"

lemma walk_grew_trans: "walk_grew a b \<Longrightarrow> walk_grew b c \<Longrightarrow> walk_grew a c"
  by (auto simp: walk_grew_def)

lemma walk_orders:
  "walk deps n name st = Inr st' \<Longrightarrow> mark_of st name = Unvisited \<Longrightarrow> ordered_settled deps st \<Longrightarrow>
     ordered_settled deps st' \<and> walk_grew st st' \<and> name \<in> marked st' Settled"
  "walk_deps deps n rest st = Inr st' \<Longrightarrow> ordered_settled deps st \<Longrightarrow>
     ordered_settled deps st' \<and> walk_grew st st' \<and> set rest \<subseteq> marked st' Settled"
proof (induction deps n name st and deps n rest st arbitrary: st' and st' rule: walk_walk_deps.induct)
  case (2 deps n name st)
  let ?st1 = "(set_mark name OnStack st)\<lparr>ws_path := ws_path st @ [name]\<rparr>"
  obtain st2 where run: "walk_deps deps n (get_or [] deps name) ?st1 = Inr st2"
      and st': "st' = set_mark name Settled (st2\<lparr>ws_path := butlast (ws_path st2)\<rparr>)"
    using "2.prems"(1) by (auto split: sum.splits)
  have same: "marked ?st1 Settled = marked st Settled"
    using "2.prems"(2) by (auto simp: marked_def)
  then have "ordered_settled deps ?st1" using "2.prems"(3) by (simp add: ordered_settled_def)
  then have deep: "ordered_settled deps st2" "walk_grew ?st1 st2"
      "waits_on deps name \<subseteq> marked st2 Settled"
    using "2.IH" [OF run] by (auto simp: waits_on_def)
  have "name \<in> marked ?st1 OnStack" by (simp add: marked_set_mark)
  then have "name \<in> marked st2 OnStack" using deep(2) by (simp add: walk_grew_def)
  then have on: "name \<notin> marked st2 Settled" by (simp add: marked_def)
  obtain ns where ns: "runnable_order deps ns" "set ns = marked st2 Settled"
    using deep(1) by (auto simp: ordered_settled_def)
  then have "runnable_order deps (ns @ [name])" using deep(3) on by auto
  moreover have "set (ns @ [name]) = marked st' Settled"
    using ns(2) by (auto simp: st' marked_set_mark)
  ultimately have "ordered_settled deps st'" unfolding ordered_settled_def by blast
  moreover have "marked st' OnStack = marked st OnStack"
    using deep(2) "2.prems"(2) by (auto simp: st' walk_grew_def marked_set_mark) (auto simp: marked_def)
  then have "walk_grew st st'"
    using deep(2) same by (auto simp: st' walk_grew_def marked_set_mark)
  ultimately show ?case by (simp add: st' marked_def)
next
  case (4 deps n nx rest st)
  show ?case
  proof (cases "mark_of st nx")
    case Unvisited
    then obtain st1 where first: "walk deps n nx st = Inr st1" and rest: "walk_deps deps n rest st1 = Inr st'"
      using "4.prems"(1) by (auto split: sum.splits)
    have 1: "ordered_settled deps st1" "walk_grew st st1" "nx \<in> marked st1 Settled"
      using "4.IH"(1) [OF Unvisited first Unvisited] "4.prems"(2) by auto
    have "ordered_settled deps st' \<and> walk_grew st1 st' \<and> set rest \<subseteq> marked st' Settled"
      by (rule "4.IH"(2) [OF Unvisited first rest 1(1)])
    then show ?thesis using 1 walk_grew_trans by (auto simp: walk_grew_def)
  next
    case OnStack
    then show ?thesis using "4.prems" by simp
  next
    case Settled
    then have "walk_deps deps n rest st = Inr st'" using "4.prems"(1) by simp
    then have "ordered_settled deps st' \<and> walk_grew st st' \<and> set rest \<subseteq> marked st' Settled"
      using "4.IH"(3) [OF Settled] "4.prems"(2) by blast
    then show ?thesis using Settled by (auto simp: walk_grew_def marked_def)
  qed
qed (auto simp: walk_grew_def)

lemma walk_all_orders:
  "walk_all deps n ss st = Inr st' \<Longrightarrow> marked st OnStack = {} \<Longrightarrow> ordered_settled deps st \<Longrightarrow>
   ordered_settled deps st' \<and> s_Name ` set ss \<subseteq> marked st' Settled \<and> marked st Settled \<subseteq> marked st' Settled"
proof (induction ss arbitrary: st)
  case (Cons s ss)
  show ?case
  proof (cases "mark_of st (s_Name s) = Unvisited")
    case True
    then obtain st1 where first: "walk deps n (s_Name s) st = Inr st1" and rest: "walk_all deps n ss st1 = Inr st'"
      using Cons.prems(1) by (auto split: sum.splits)
    have 1: "ordered_settled deps st1" "walk_grew st st1" "s_Name s \<in> marked st1 Settled"
      using walk_orders(1) [OF first True Cons.prems(3)] by auto
    then show ?thesis using Cons.IH [OF rest _ 1(1)] Cons.prems(2) by (auto simp: walk_grew_def)
  next
    case False
    then have "s_Name s \<in> marked st Settled"
      using Cons.prems(2) by (cases "mark_of st (s_Name s)") (auto simp: marked_def)
    then show ?thesis using Cons False by auto
  qed
qed simp

subsection \<open>The bound on the depth is never reached\<close>

definition unvisited_in :: "(string, string list) gomap \<Rightarrow> walk_state \<Rightarrow> string set" where
  "unvisited_in deps st = {x \<in> set (graph_names deps). mark_of st x = Unvisited}"

lemma waits_in_graph: "set (get_or [] deps n) \<subseteq> set (graph_names deps)"
proof (cases "lookup deps n")
  case (Some ds)
  then have "(n, ds) \<in> set deps" by (rule map_of_SomeD)
  then show ?thesis using Some by (force simp: get_or_def graph_names_def)
qed (simp add: get_or_def)

lemma walk_fuel:
  "name \<in> unvisited_in deps st \<Longrightarrow> card (unvisited_in deps st) \<le> n \<Longrightarrow>
     walk deps n name st \<noteq> Inl TooDeep \<and>
     (\<forall>st'. walk deps n name st = Inr st' \<longrightarrow> unvisited_in deps st' \<subseteq> unvisited_in deps st)"
  "set rest \<subseteq> set (graph_names deps) \<Longrightarrow> card (unvisited_in deps st) \<le> n \<Longrightarrow>
     walk_deps deps n rest st \<noteq> Inl TooDeep \<and>
     (\<forall>st'. walk_deps deps n rest st = Inr st' \<longrightarrow> unvisited_in deps st' \<subseteq> unvisited_in deps st)"
proof (induction deps n name st and deps n rest st rule: walk_walk_deps.induct)
  case (1 deps name st)
  then have "card (unvisited_in deps st) > 0"
    by (auto simp: card_gt_0_iff unvisited_in_def)
  with 1 show ?case by simp
next
  case (2 deps n name st)
  let ?st1 = "(set_mark name OnStack st)\<lparr>ws_path := ws_path st @ [name]\<rparr>"
  have sub: "unvisited_in deps ?st1 = unvisited_in deps st - {name}"
    by (auto simp: unvisited_in_def)
  have "finite (unvisited_in deps st)" by (simp add: unvisited_in_def)
  then have "card (unvisited_in deps ?st1) \<le> n" using "2.prems" by (simp add: sub card_Diff_singleton)
  note deep = "2.IH" [OF waits_in_graph this]
  have "unvisited_in deps (set_mark name Settled (st2\<lparr>ws_path := butlast (ws_path st2)\<rparr>)) \<subseteq>
      unvisited_in deps st2" for st2
    by (auto simp: unvisited_in_def)
  then have shrink: "unvisited_in deps (set_mark name Settled (st2\<lparr>ws_path := butlast (ws_path st2)\<rparr>)) \<subseteq>
      unvisited_in deps st" if "unvisited_in deps st2 \<subseteq> unvisited_in deps ?st1" for st2
    using that sub by blast
  show ?case
  proof (cases "walk_deps deps n (get_or [] deps name) ?st1")
    case (Inl e)
    then show ?thesis using deep by simp
  next
    case (Inr st2)
    then show ?thesis using deep shrink [of st2] by simp
  qed
next
  case (4 deps n nx rest st)
  show ?case
  proof (cases "mark_of st nx")
    case Unvisited
    then have "nx \<in> unvisited_in deps st" using "4.prems"(1) by (simp add: unvisited_in_def)
    note first = "4.IH"(1) [OF Unvisited this "4.prems"(2)]
    show ?thesis
    proof (cases "walk deps n nx st")
      case (Inl e)
      then show ?thesis using first Unvisited by simp
    next
      case (Inr st1)
      have "card (unvisited_in deps st1) \<le> card (unvisited_in deps st)"
        using first Inr by (intro card_mono) (auto simp: unvisited_in_def)
      then show ?thesis
        using "4.IH"(2) [OF Unvisited Inr] "4.prems" first Inr Unvisited by fastforce
    qed
  next
    case OnStack
    then show ?thesis by simp
  next
    case Settled
    then show ?thesis using "4.IH"(3) [OF Settled] "4.prems" by simp
  qed
qed auto

lemma walk_all_fuel:
  "s_Name ` set ss \<subseteq> set (graph_names deps) \<Longrightarrow> card (unvisited_in deps st) \<le> n \<Longrightarrow>
   walk_all deps n ss st \<noteq> Inl TooDeep"
proof (induction ss arbitrary: st)
  case (Cons s ss)
  show ?case
  proof (cases "mark_of st (s_Name s) = Unvisited")
    case True
    then have "s_Name s \<in> unvisited_in deps st" using Cons.prems(1) by (simp add: unvisited_in_def)
    note first = walk_fuel(1) [OF this Cons.prems(2)]
    show ?thesis
    proof (cases "walk deps n (s_Name s) st")
      case (Inr st1)
      have "card (unvisited_in deps st1) \<le> card (unvisited_in deps st)"
        using first Inr by (intro card_mono) (auto simp: unvisited_in_def)
      then show ?thesis using Cons True Inr by simp
    qed (use first True in simp)
  qed (use Cons in simp)
qed simp

subsection \<open>A reported loop exists\<close>

definition path_of :: "(string, string list) gomap \<Rightarrow> string list \<Rightarrow> bool" where
  "path_of deps ns \<longleftrightarrow> successively (\<lambda>a b. b \<in> waits_on deps a) ns"

definition walk_path :: "(string, string list) gomap \<Rightarrow> walk_state \<Rightarrow> bool" where
  "walk_path deps st \<longleftrightarrow> path_of deps (ws_path st) \<and> set (ws_path st) = marked st OnStack"

definition real_cycle :: "(string, string list) gomap \<Rightarrow> string list \<Rightarrow> bool" where
  "real_cycle deps c \<longleftrightarrow> 2 \<le> length c \<and> hd c = last c \<and> path_of deps c"

lemma path_of_snoc: "path_of deps (ns @ [n]) \<longleftrightarrow> path_of deps ns \<and> (ns = [] \<or> n \<in> waits_on deps (last ns))"
  by (auto simp: path_of_def successively_append_iff)

lemma cycleFrom_real:
  assumes path: "walk_path deps st" and "mark_of st next = OnStack"
    and edge: "next \<in> waits_on deps (last (ws_path st))"
  shows "real_cycle deps (cycleFrom (ws_path st) next)"
proof -
  have on: "next \<in> set (ws_path st)" using assms by (simp add: walk_path_def marked_def)
  let ?loop = "dropWhile (\<lambda>n. n \<noteq> next) (ws_path st)"
  have ne: "?loop \<noteq> []" using on by (auto simp: dropWhile_eq_Nil_conv)
  then have hd: "hd ?loop = next" using hd_dropWhile [of "\<lambda>n. n \<noteq> next" "ws_path st"] by (simp add: dropWhile_eq_Nil_conv)
  obtain pre where pre: "ws_path st = pre @ ?loop" by (metis takeWhile_dropWhile_id)
  then have "path_of deps ?loop"
    using path by (metis path_of_def successively_append_iff walk_path_def)
  moreover have "last ?loop = last (ws_path st)" using pre ne by (metis last_append)
  ultimately have "path_of deps (?loop @ [next])" using edge by (simp add: path_of_snoc)
  moreover have "hd (?loop @ [next]) = next" using hd ne by simp
  moreover have "2 \<le> length (?loop @ [next])" using ne by (cases ?loop) auto
  ultimately show ?thesis using on by (simp add: real_cycle_def cycleFrom_def)
qed

lemma walk_cycles:
  "walk_path deps st \<Longrightarrow> mark_of st name = Unvisited \<Longrightarrow>
     ws_path st = [] \<or> name \<in> waits_on deps (last (ws_path st)) \<Longrightarrow>
     (\<forall>c. walk deps n name st = Inl (FoundCycle c) \<longrightarrow> real_cycle deps c) \<and>
     (\<forall>st'. walk deps n name st = Inr st' \<longrightarrow> walk_path deps st' \<and> ws_path st' = ws_path st)"
  "walk_path deps st \<Longrightarrow> set rest \<subseteq> waits_on deps (last (ws_path st)) \<Longrightarrow>
     (\<forall>c. walk_deps deps n rest st = Inl (FoundCycle c) \<longrightarrow> real_cycle deps c) \<and>
     (\<forall>st'. walk_deps deps n rest st = Inr st' \<longrightarrow> walk_path deps st' \<and> ws_path st' = ws_path st)"
proof (induction deps n name st and deps n rest st rule: walk_walk_deps.induct)
  case (2 deps n name st)
  let ?st1 = "(set_mark name OnStack st)\<lparr>ws_path := ws_path st @ [name]\<rparr>"
  have "walk_path deps ?st1"
    using "2.prems" by (auto simp: walk_path_def path_of_snoc marked_set_mark)
  moreover have "set (get_or [] deps name) \<subseteq> waits_on deps (last (ws_path ?st1))"
    by (simp add: waits_on_def)
  ultimately have deep: "(\<forall>c. walk_deps deps n (get_or [] deps name) ?st1 = Inl (FoundCycle c) \<longrightarrow> real_cycle deps c) \<and>
      (\<forall>st'. walk_deps deps n (get_or [] deps name) ?st1 = Inr st' \<longrightarrow>
        walk_path deps st' \<and> ws_path st' = ws_path ?st1)"
    by (rule "2.IH")
  have name: "name \<notin> set (ws_path st)"
    using "2.prems"(1,2) by (simp add: walk_path_def marked_def)
  have popped: "walk_path deps (set_mark name Settled (st2\<lparr>ws_path := butlast (ws_path st2)\<rparr>)) \<and>
      butlast (ws_path st2) = ws_path st"
    if "walk_path deps st2" "ws_path st2 = ws_path st @ [name]" for st2
    using that name by (auto simp: walk_path_def path_of_snoc marked_set_mark)
  show ?case
  proof (cases "walk_deps deps n (get_or [] deps name) ?st1")
    case (Inl e)
    then show ?thesis using deep by simp
  next
    case (Inr st2)
    then show ?thesis using deep popped [of st2] by simp
  qed
next
  case (4 deps n nx rest st)
  have edge: "nx \<in> waits_on deps (last (ws_path st))" using "4.prems"(2) by simp
  show ?case
  proof (cases "mark_of st nx")
    case Unvisited
    note first = "4.IH"(1) [OF Unvisited "4.prems"(1) Unvisited disjI2 [OF edge]]
    show ?thesis
    proof (cases "walk deps n nx st")
      case (Inl e)
      then show ?thesis using first Unvisited by auto
    next
      case (Inr st1)
      then have "walk_path deps st1" "ws_path st1 = ws_path st" using first by auto
      then show ?thesis using "4.IH"(2) [OF Unvisited Inr] "4.prems"(2) Inr Unvisited by auto
    qed
  next
    case OnStack
    then show ?thesis using cycleFrom_real [OF "4.prems"(1) OnStack edge] by auto
  next
    case Settled
    then show ?thesis using "4.IH"(3) [OF Settled] "4.prems" by auto
  qed
qed auto

lemma walk_all_cycles:
  "walk_path deps st \<Longrightarrow> ws_path st = [] \<Longrightarrow> walk_all deps n ss st = Inl (FoundCycle c) \<Longrightarrow> real_cycle deps c"
proof (induction ss arbitrary: st)
  case (Cons s ss)
  show ?case
  proof (cases "mark_of st (s_Name s) = Unvisited")
    case True
    note first = walk_cycles(1) [OF Cons.prems(1) True disjI1 [OF Cons.prems(2)], of n]
    show ?thesis
    proof (cases "walk deps n (s_Name s) st")
      case (Inl e)
      then show ?thesis using first True Cons.prems(3) by auto
    next
      case (Inr st1)
      then show ?thesis using first True Cons by auto
    qed
  qed (use Cons in auto)
qed simp

subsection \<open>The verdict\<close>

lemma map_keys_deps_from: "map_keys (deps_from prev ss) = map s_Name ss"
  by (induction prev ss rule: deps_from.induct) (auto simp: map_keys_def)

lemma dependencies_names: "s_Name ` set (f_Steps f) \<subseteq> set (graph_names (dependencies f))"
  using map_keys_deps_from [of None "f_Steps f"]
  by (auto simp: graph_names_def dependencies_def map_keys_def rev_map [symmetric]
      simp flip: set_map)

lemma findCycle_None:
  assumes "findCycle f = None"
  shows "\<exists>ns. runnable_order (dependencies f) ns \<and> s_Name ` set (f_Steps f) \<subseteq> set ns"
proof -
  let ?deps = "dependencies f" and ?st = "\<lparr>ws_state = [], ws_path = []\<rparr>"
  have "card (unvisited_in ?deps ?st) \<le> length (graph_names ?deps)"
  proof -
    have "card (unvisited_in ?deps ?st) \<le> card (set (graph_names ?deps))"
      by (intro card_mono) (auto simp: unvisited_in_def)
    then show ?thesis using card_length le_trans by blast
  qed
  then have "walk_all ?deps (length (graph_names ?deps)) (f_Steps f) ?st \<noteq> Inl TooDeep"
    by (rule walk_all_fuel [OF dependencies_names])
  then obtain st' where "walk_all ?deps (length (graph_names ?deps)) (f_Steps f) ?st = Inr st'"
    using assms by (auto simp: findCycle_def Let_def split: sum.splits walk_error.splits)
  moreover have "marked ?st OnStack = {}" "ordered_settled ?deps ?st"
    by (auto simp: marked_def mark_of_def get_or_def ordered_settled_def)
  ultimately have "ordered_settled ?deps st' \<and> s_Name ` set (f_Steps f) \<subseteq> marked st' Settled"
    using walk_all_orders by blast
  then show ?thesis by (auto simp: ordered_settled_def)
qed

lemma findCycle_Some:
  assumes "findCycle f = Some e"
  shows "\<exists>c. e = CycleOf c \<and> real_cycle (dependencies f) c"
proof -
  have "walk_path (dependencies f) \<lparr>ws_state = [], ws_path = []\<rparr>"
    by (simp add: walk_path_def path_of_def marked_def mark_of_def get_or_def)
  then show ?thesis
    using assms walk_all_cycles [of "dependencies f" "\<lparr>ws_state = [], ws_path = []\<rparr>"]
    by (auto simp: findCycle_def Let_def split: sum.splits walk_error.splits)
qed

text \<open>An order rules every loop out, so the two verdicts exclude each other.\<close>

lemma runnable_order_nth:
  "runnable_order deps ns \<Longrightarrow> distinct ns \<and> (\<forall>i<length ns. waits_on deps (ns ! i) \<subseteq> set (take i ns))"
  by (induction rule: runnable_order.induct) (auto simp: nth_append less_Suc_eq)

lemma runnable_order_closed: "runnable_order deps ns \<Longrightarrow> n \<in> set ns \<Longrightarrow> waits_on deps n \<subseteq> set ns"
  by (induction rule: runnable_order.induct) auto

lemma runnable_order_next:
  assumes "runnable_order deps ns" and "\<not> set ns \<subseteq> seen"
  shows "\<exists>n\<in>set ns. n \<notin> seen \<and> waits_on deps n \<subseteq> seen"
  using assms by (induction rule: runnable_order.induct) auto

end
