(* ===== verification/FlowValues.thy ===== *)
theory FlowValues
  imports FlowModel
begin

text \<open>
  Values that travel between steps, and what is masked in a record: the second half of
  \<open>internal/flow/needs.go\<close>, the environment and redaction functions of \<open>run.go\<close> and the capture of
  \<open>stream.go\<close>. The environment of the process is an argument of \<open>childEnv\<close>; \<open>strings.NewReplacer\<close> is
  modelled as the standard library documents it: it goes through the text once, at each point the
  earliest argument that matches is replaced, and an empty argument matches at every point.
\<close>

definition minSecretLength :: nat where "minSecretLength = 4"

record step_output =
  o_Stdout :: string
  o_Stderr :: string
  o_ExitCode :: int
  o_StdoutCut :: bool
  o_StderrCut :: bool
  o_Ephemeral :: bool
  o_Secrets :: "string list"

datatype value_error =
    Truncated field
  | ContainsNUL field
  | OverLimit field nat
  | DidNotRun string string
  | OverTotal string nat
  | BadReference flow_error

subsection \<open>Resolving needs\<close>

definition streamValue :: "string \<Rightarrow> bool \<Rightarrow> field \<Rightarrow> value_error + string" where
  "streamValue value at_cut stream =
     (if at_cut then Inl (Truncated stream)
      else let v = trim_right (\<lambda>c. c = CHR 13 \<or> c = newline) value
           in if CHR 0x00 \<in> set v then Inl (ContainsNUL stream)
              else if length v > MaxValueBytes then Inl (OverLimit stream (length v))
              else Inr v)"

definition output_field :: "step_output \<Rightarrow> field \<Rightarrow> value_error + string" where
  "output_field out f =
     (case f of
        Stdout \<Rightarrow> streamValue (o_Stdout out) (o_StdoutCut out) Stdout
      | Stderr \<Rightarrow> streamValue (o_Stderr out) (o_StderrCut out) Stderr
      | ExitCode \<Rightarrow> Inr (itoa (o_ExitCode out)))"

definition resolveOne :: "Step \<Rightarrow> string \<Rightarrow> (string, step_output) gomap \<Rightarrow> value_error + string" where
  "resolveOne step ref outputs =
     (case parseReference ref of
        Inl e \<Rightarrow> Inl (BadReference e)
      | Inr parsed \<Rightarrow>
          (case lookup outputs (ref_Step parsed) of
             None \<Rightarrow> Inl (DidNotRun (s_Name step) (ref_Step parsed))
           | Some out \<Rightarrow> output_field out (ref_Field parsed)))"

definition no_output :: step_output where
  "no_output = \<lparr>o_Stdout = [], o_Stderr = [], o_ExitCode = 0, o_StdoutCut = False,
     o_StderrCut = False, o_Ephemeral = False, o_Secrets = []\<rparr>"

definition inheritedSecrets :: "string \<Rightarrow> (string, step_output) gomap \<Rightarrow> string \<Rightarrow> string list" where
  "inheritedSecrets ref outputs value =
     (case parseReference ref of
        Inl _ \<Rightarrow> []
      | Inr parsed \<Rightarrow>
          let src = get_or no_output outputs (ref_Step parsed)
          in o_Secrets src @ (if o_Ephemeral src then [value] else []))"

text \<open>The loop of \<open>resolve\<close> over the names in order, with the running bytes.\<close>

fun resolve_names ::
  "Step \<Rightarrow> (string, step_output) gomap \<Rightarrow> nat \<Rightarrow> (string, string) gomap \<Rightarrow> string list \<Rightarrow> string list \<Rightarrow>
   value_error + (string, string) gomap \<times> string list" where
  "resolve_names step outputs bytes vals secret [] = Inr (vals, secret)"
| "resolve_names step outputs bytes vals secret (name # names) =
     (case resolveOne step (get_or [] (s_Needs step) name) outputs of
        Inl e \<Rightarrow> Inl e
      | Inr value \<Rightarrow>
          let bytes1 = bytes + length name + length value
          in if bytes1 > MaxTotalValueBytes then Inl (OverTotal (s_Name step) bytes1)
             else resolve_names step outputs bytes1 (AList.update name value vals)
                    (secret @ inheritedSecrets (get_or [] (s_Needs step) name) outputs value) names)"

definition resolve ::
  "Step \<Rightarrow> (string, step_output) gomap \<Rightarrow> value_error + (string, string) gomap \<times> string list" where
  "resolve step outputs =
     (if s_Needs step = [] then Inr ([], [])
      else resolve_names step outputs 0 [] [] (sortedNames (s_Needs step)))"

definition stepEnvOf :: "Step \<Rightarrow> (string, string) gomap \<Rightarrow> (string, string) gomap" where
  "stepEnvOf step resolved =
     (if resolved = [] then s_Env step
      else fold (\<lambda>(name, value) m. AList.update name value m) resolved (s_Env step))"

definition redactMap :: "(string, string) gomap \<Rightarrow> (string \<Rightarrow> string) \<Rightarrow> (string, string) gomap" where
  "redactMap vals redact = map (\<lambda>(name, value). (name, redact value)) vals"

definition referencedSteps :: "Flow \<Rightarrow> string list" where
  "referencedSteps f =
     remdups (concat (map (\<lambda>step. List.map_filter
       (\<lambda>name. parsed_step (get_or [] (s_Needs step) name)) (sortedNames (s_Needs step))) (f_Steps f)))"

subsection \<open>The environment of a step\<close>

definition env_entry :: "string \<times> string \<Rightarrow> string" where
  "env_entry nv = fst nv @ ''='' @ snd nv"

definition childEnv :: "string list \<Rightarrow> (string, string) gomap \<Rightarrow> string list" where
  "childEnv environ stepEnv =
     filter (\<lambda>entry.
         case str_cut entry ''='' of
           None \<Rightarrow> False
         | Some (name, _) \<Rightarrow> name \<noteq> tokenEnvVar \<and> lookup stepEnv name = None) environ @
     map env_entry (filter (\<lambda>nv. fst nv \<noteq> tokenEnvVar) (AList.clearjunk stepEnv))"

definition declaredValues :: "string list \<Rightarrow> string list \<Rightarrow> string list" where
  "declaredValues env names =
     List.map_filter (\<lambda>entry.
       case str_cut entry ''='' of
         None \<Rightarrow> None
       | Some (name, value) \<Rightarrow>
           if value \<noteq> [] \<and> name \<in> set names then Some value else None) env"

subsection \<open>Redaction\<close>

definition isSecretName :: "string \<Rightarrow> bool" where
  "isSecretName name \<longleftrightarrow>
     (let upper = to_upper name
      in list_ex (\<lambda>marker. str_contains upper marker)
           [''TOKEN'', ''SECRET'', ''KEY'', ''PASSWORD'', ''CREDENTIAL''])"

text \<open>
  \<open>Replace\<close>: the flag says whether an empty match was the last thing that happened, in which case
  the empty argument does not match again at this point.
\<close>

definition replace_match :: "string list \<Rightarrow> bool \<Rightarrow> string \<Rightarrow> string option" where
  "replace_match olds was_empty s = find (\<lambda>old. has_prefix s old \<and> (old \<noteq> [] \<or> \<not> was_empty)) olds"

lemma replace_match_Some:
  "replace_match olds b s = Some old \<Longrightarrow> old \<in> set olds \<and> has_prefix s old \<and> (old \<noteq> [] \<or> \<not> b)"
  by (auto simp: replace_match_def find_Some_iff)

function replace_from :: "string list \<Rightarrow> string \<Rightarrow> bool \<Rightarrow> string \<Rightarrow> string" where
  "replace_from olds new was_empty s =
     (case replace_match olds was_empty s of
        Some old \<Rightarrow>
          new @ (if old = [] then replace_from olds new True s
                 else replace_from olds new False (drop (length old) s))
      | None \<Rightarrow> (case s of [] \<Rightarrow> [] | c # cs \<Rightarrow> c # replace_from olds new False cs))"
  by pat_completeness auto
termination
  by (relation "measure (\<lambda>(olds, new, b, s). 2 * length s + (if b then 0 else 1))")
    (auto dest!: replace_match_Some has_prefix_take_nat split: if_splits
      simp flip: length_greater_0_conv)

declare replace_from.simps [simp del]

definition redact_values :: "string list \<Rightarrow> string list \<Rightarrow> string list" where
  "redact_values env extra =
     extra @ List.map_filter (\<lambda>entry.
       case str_cut entry ''='' of
         None \<Rightarrow> None
       | Some (name, value) \<Rightarrow>
           if length value < minSecretLength \<or> \<not> isSecretName name then None else Some value) env"

definition newRedactor :: "string list \<Rightarrow> string list \<Rightarrow> string \<Rightarrow> string" where
  "newRedactor env extra s =
     (let vals = redact_values env extra
      in if vals = [] then s else replace_from vals ''***'' False s)"

subsection \<open>Capturing a stream: stream.go\<close>

record capture =
  c_buf :: string
  c_pending :: string
  c_truncated :: bool
  c_stream :: "string option"
  c_prefix :: string

text \<open>
  \<open>c_stream\<close> holds what went to the mirror so far, \<^const>\<open>None\<close> where there is no mirror. The
  redactor is an argument of the operations.
\<close>

definition newCapture :: "bool \<Rightarrow> string \<Rightarrow> capture" where
  "newCapture mirrored pfx =
     \<lparr>c_buf = [], c_pending = [], c_truncated = False,
      c_stream = (if mirrored then Some [] else None), c_prefix = pfx\<rparr>"

fun split_after_newline :: "string \<Rightarrow> string list" where
  "split_after_newline [] = [[]]"
| "split_after_newline (c # cs) =
     (if c = newline then [c] # split_after_newline cs
      else (case split_after_newline cs of [] \<Rightarrow> [[c]] | w # ws \<Rightarrow> (c # w) # ws))"

definition emit_line :: "string \<Rightarrow> string \<Rightarrow> string" where
  "emit_line pfx line =
     (if line = [] then []
      else pfx @ line @ (if has_suffix line [newline] then [] else [newline]))"

definition emit :: "(string \<Rightarrow> string) \<Rightarrow> string \<Rightarrow> capture \<Rightarrow> capture" where
  "emit redact text c =
     c\<lparr>c_stream := map_option
        (\<lambda>out. out @ concat (map (emit_line (c_prefix c)) (split_after_newline (redact text))))
        (c_stream c)\<rparr>"

definition mirrorLines :: "(string \<Rightarrow> string) \<Rightarrow> string \<Rightarrow> capture \<Rightarrow> capture" where
  "mirrorLines redact p c =
     (if c_stream c = None \<or> p = [] then c
      else let pending = c_pending c @ p
           in (case last_index_byte pending (\<lambda>x. x = newline) of
                 None \<Rightarrow> c\<lparr>c_pending := pending\<rparr>
               | Some at_cut \<Rightarrow>
                   emit redact (take (at_cut + 1) pending) (c\<lparr>c_pending := drop (at_cut + 1) pending\<rparr>)))"

definition capture_Write :: "(string \<Rightarrow> string) \<Rightarrow> string \<Rightarrow> capture \<Rightarrow> capture" where
  "capture_Write redact p c =
     (let room = int MaxStreamBytes - int (length (c_buf c))
      in mirrorLines redact p
        (if room > 0 then
           (if int (length p) > room
            then c\<lparr>c_buf := c_buf c @ take (nat room) p, c_truncated := True\<rparr>
            else c\<lparr>c_buf := c_buf c @ p\<rparr>)
         else if p \<noteq> [] then c\<lparr>c_truncated := True\<rparr> else c))"

definition capture_flush :: "(string \<Rightarrow> string) \<Rightarrow> capture \<Rightarrow> capture" where
  "capture_flush redact c =
     (if c_stream c = None \<or> c_pending c = [] then c
      else (emit redact (c_pending c) c)\<lparr>c_pending := []\<rparr>)"

definition capture_result :: "capture \<Rightarrow> string \<times> bool" where
  "capture_result c = (c_buf c, c_truncated c)"

subsection \<open>What a redactor lets through\<close>

lemma str_contains_Cons: "str_contains (c # cs) v \<longleftrightarrow> has_prefix (c # cs) v \<or> str_contains cs v"
  by (simp add: str_contains_def)

lemma str_contains_Nil: "str_contains [] v \<longleftrightarrow> v = []"
  by (simp add: str_contains_def)

lemma replaced_prefix:
  "CHR ''*'' \<notin> set w \<Longrightarrow> has_prefix (replace_from olds ''***'' b s) w \<Longrightarrow> has_prefix s w"
proof (induction olds "''***''" b s arbitrary: w rule: replace_from.induct)
  case (1 olds b s)
  show ?case
  proof (cases "replace_match olds b s")
    case None
    show ?thesis
    proof (cases s)
      case Nil
      then show ?thesis using None 1(5) by (simp add: replace_from.simps [of _ _ _ "[]"])
    next
      case (Cons c cs)
      then show ?thesis
        using None 1(1) [OF None Cons] 1(4,5)
        by (cases w) (auto simp: replace_from.simps [of _ _ _ "c # cs"])
    qed
  next
    case (Some old)
    then show ?thesis
      using 1(4,5) by (cases w) (auto simp: replace_from.simps [of _ _ _ s])
  qed
qed

lemma replaced_hides:
  assumes v: "v \<in> set olds" "v \<noteq> []" "CHR ''*'' \<notin> set v"
  shows "\<not> str_contains (replace_from olds ''***'' b s) v"
  using v
proof (induction olds "''***''" b s rule: replace_from.induct)
  case (1 olds b s)
  have star: "\<not> has_prefix (CHR ''*'' # t) v" for t
    using 1(5,6) by (cases v) auto
  show ?case
  proof (cases "replace_match olds b s")
    case None
    then have "\<not> has_prefix s v" using 1(4,5) by (auto simp: replace_match_def find_None_iff)
    then have no: "\<not> has_prefix (replace_from olds ''***'' b s) v" using replaced_prefix 1(6) by blast
    show ?thesis
    proof (cases s)
      case Nil
      then show ?thesis using None 1(5)
        by (simp add: replace_from.simps [of _ _ _ "[]"] str_contains_Nil)
    next
      case (Cons c cs)
      then show ?thesis
        using None no 1(1) [OF None Cons] 1(4-6)
        by (simp add: replace_from.simps [of _ _ _ "c # cs"] str_contains_Cons)
    qed
  next
    case (Some old)
    then show ?thesis
      using star 1(4-6) 1(2) [OF Some] 1(3) [OF Some]
      by (cases "old = []") (simp_all add: replace_from.simps [of _ _ _ s] str_contains_Cons)
  qed
qed

lemma newRedactor_hides:
  assumes "v \<in> set (redact_values env extra)" and "v \<noteq> []" and "CHR ''*'' \<notin> set v"
  shows "\<not> str_contains (newRedactor env extra s) v"
  using assms replaced_hides by (cases "redact_values env extra") (auto simp: newRedactor_def)

subsection \<open>A capture keeps a prefix of the stream\<close>

lemma capture_mirror [simp]:
  "c_buf (emit redact t c) = c_buf c" "c_truncated (emit redact t c) = c_truncated c"
  "c_buf (mirrorLines redact p c) = c_buf c" "c_truncated (mirrorLines redact p c) = c_truncated c"
  by (simp_all add: emit_def mirrorLines_def Let_def split: option.split)

definition capture_holds :: "string \<Rightarrow> capture \<Rightarrow> bool" where
  "capture_holds s c \<longleftrightarrow>
     c_buf c = take MaxStreamBytes s \<and> (c_truncated c \<longleftrightarrow> length s > MaxStreamBytes)"

lemma capture_Write_holds:
  assumes "capture_holds s c"
  shows "capture_holds (s @ p) (capture_Write redact p c)"
proof -
  have buf: "c_buf c = take MaxStreamBytes s" and cut: "c_truncated c \<longleftrightarrow> length s > MaxStreamBytes"
    using assms by (auto simp: capture_holds_def)
  show ?thesis
  proof (cases "length s < MaxStreamBytes")
    case True
    then have "c_buf c = s" "\<not> c_truncated c" using buf cut by auto
    then show ?thesis using True
      by (auto simp: capture_holds_def capture_Write_def Let_def nat_diff_distrib)
  next
    case False
    then have "length (c_buf c) = MaxStreamBytes" "c_buf c = take MaxStreamBytes (s @ p)"
      using buf by auto
    then show ?thesis using False cut
      by (auto simp: capture_holds_def capture_Write_def Let_def)
  qed
qed

lemma capture_writes:
  "capture_holds s c \<Longrightarrow> capture_holds (s @ concat ps) (fold (capture_Write redact) ps c)"
proof (induction ps arbitrary: s c)
  case (Cons p ps)
  then show ?case using Cons.IH [OF capture_Write_holds [OF Cons.prems, of p redact]] by simp
qed simp

lemma newCapture_holds: "capture_holds [] (newCapture m x)"
  by (simp add: capture_holds_def newCapture_def)

subsection \<open>Values within bounds\<close>

lemma streamValue_ok:
  "streamValue s c f = Inr v \<longleftrightarrow>
   \<not> c \<and> v = trim_right (\<lambda>c. c = CHR 13 \<or> c = newline) s \<and> CHR 0x00 \<notin> set v \<and> length v \<le> MaxValueBytes"
  by (auto simp: streamValue_def Let_def)

definition env_bytes :: "(string, string) gomap \<Rightarrow> nat" where
  "env_bytes m = sum_list (map (\<lambda>(k, v). length k + length v) m)"

lemma update_new: "lookup m k = None \<Longrightarrow> AList.update k v m = m @ [(k, v)]"
  by (induction m) (auto split: if_splits)

lemma resolve_names_ok:
  "resolve_names step outs bytes vals secret names = Inr (vals', secret') \<Longrightarrow>
   distinct names \<Longrightarrow> (\<forall>n\<in>set names. lookup vals n = None) \<Longrightarrow> bytes = env_bytes vals \<Longrightarrow>
   bytes \<le> MaxTotalValueBytes \<Longrightarrow>
   \<exists>vs. vals' = vals @ zip names vs \<and> length vs = length names \<and>
     env_bytes vals' \<le> MaxTotalValueBytes \<and>
     (\<forall>(n, v)\<in>set (zip names vs). resolveOne step (get_or [] (s_Needs step) n) outs = Inr v \<and>
        set (inheritedSecrets (get_or [] (s_Needs step) n) outs v) \<subseteq> set secret') \<and>
     set secret \<subseteq> set secret'"
proof (induction names arbitrary: bytes vals secret)
  case Nil
  then show ?case by (intro exI [of _ "[]"]) simp
next
  case (Cons n names)
  obtain v where v: "resolveOne step (get_or [] (s_Needs step) n) outs = Inr v"
      and le: "bytes + length n + length v \<le> MaxTotalValueBytes"
      and rest: "resolve_names step outs (bytes + length n + length v) (AList.update n v vals)
        (secret @ inheritedSecrets (get_or [] (s_Needs step) n) outs v) names = Inr (vals', secret')"
    using Cons.prems(1) by (auto simp: Let_def split: sum.splits if_splits)
  have new: "AList.update n v vals = vals @ [(n, v)]"
    using Cons.prems(3) by (simp add: update_new)
  have "\<forall>x\<in>set names. lookup (AList.update n v vals) x = None"
    using Cons.prems(2,3) by auto
  moreover have "bytes + length n + length v = env_bytes (AList.update n v vals)"
    using Cons.prems(4) by (simp add: new env_bytes_def)
  ultimately obtain vs where vs: "vals' = AList.update n v vals @ zip names vs" "length vs = length names"
      "env_bytes vals' \<le> MaxTotalValueBytes"
      "\<forall>(n, v)\<in>set (zip names vs). resolveOne step (get_or [] (s_Needs step) n) outs = Inr v \<and>
        set (inheritedSecrets (get_or [] (s_Needs step) n) outs v) \<subseteq> set secret'"
      "set (secret @ inheritedSecrets (get_or [] (s_Needs step) n) outs v) \<subseteq> set secret'"
    using Cons.IH [OF rest] Cons.prems(2) le by auto
  show ?case
    by (intro exI [of _ "v # vs"]) (use vs v new in auto)
qed

lemma distinct_sortedNames [simp]: "distinct (sortedNames m)"
  by (simp add: sortedNames_def)

lemma set_sortedNames [simp]: "set (sortedNames m) = dom (lookup m)"
  by (simp add: sortedNames_def set_map_keys)

lemma resolve_ok:
  assumes "resolve step outs = Inr (vals, secret)"
  shows "env_bytes vals \<le> MaxTotalValueBytes \<and> map fst vals = sortedNames (s_Needs step) \<and>
    (\<forall>(n, v)\<in>set vals. resolveOne step (get_or [] (s_Needs step) n) outs = Inr v \<and>
       set (inheritedSecrets (get_or [] (s_Needs step) n) outs v) \<subseteq> set secret)"
proof (cases "s_Needs step = []")
  case True
  then show ?thesis using assms by (simp add: resolve_def env_bytes_def sortedNames_def map_keys_def)
next
  case False
  then have "resolve_names step outs 0 [] [] (sortedNames (s_Needs step)) = Inr (vals, secret)"
    using assms by (simp add: resolve_def)
  from resolve_names_ok [OF this] show ?thesis
    by (auto simp: env_bytes_def map_fst_zip)
qed

end
