(* ===== verification/FlowRun.thy ===== *)
theory FlowRun
  imports FlowGraph FlowValues GoTime
begin

text \<open>
  Running a flow: \<open>internal/flow/schedule.go\<close> and the execution of one step in \<open>run.go\<close>.

  Goroutines and processes are outside the program: what the operating system does is a script of
  events. Each time the scheduler waits on its channel the next event says which of the steps in
  flight reports and what its process did, \<^const>\<open>None\<close> where the command could not be built. A
  property that holds for every script holds for every interleaving and every behaviour of the
  commands, a cancelled one included. When the script is used up the first step in flight reports a
  process that could not start.

  A reason in \<open>Stderr\<close> is kept as data; the wording of the messages is not modelled.
\<close>

definition DefaultParallel :: nat where "DefaultParallel = 4"

definition StatusOK :: string where "StatusOK = ''ok''"
definition StatusFailed :: string where "StatusFailed = ''failed''"
definition StatusTimeout :: string where "StatusTimeout = ''timeout''"
definition StatusUnresolved :: string where "StatusUnresolved = ''unresolved''"

lemmas status_defs = StatusOK_def StatusFailed_def StatusTimeout_def StatusUnresolved_def

datatype step_text =
    Captured string
  | NoValue value_error
  | NoModel string
  | DependsOnBlocked string
  | RunStopped

record StepResult =
  sr_Name :: string
  sr_ExitCode :: int
  sr_DurationMS :: int
  sr_Stdout :: string
  sr_Stderr :: step_text
  sr_Resolved :: "(string, string) gomap"
  sr_Truncated :: bool
  sr_TimedOut :: bool
  sr_NotStarted :: bool
  sr_Skipped :: bool
  sr_Ephemeral :: bool
  sr_StartedAt :: instant

subsection \<open>One step: run.go\<close>

datatype wait_error = NoWaitError | ExitStatus int | OtherWaitError

record process_run =
  pr_stdout :: "string list"
  pr_stderr :: "string list"
  pr_err :: wait_error
  pr_deadline :: bool
  pr_started :: instant
  pr_duration :: int

definition exitCodeOf :: "wait_error \<Rightarrow> int" where
  "exitCodeOf err = (case err of NoWaitError \<Rightarrow> 0 | ExitStatus c \<Rightarrow> c | OtherWaitError \<Rightarrow> - 1)"

definition not_started :: "Step \<Rightarrow> step_text \<Rightarrow> bool \<Rightarrow> StepResult" where
  "not_started step reason was_skipped =
     \<lparr>sr_Name = s_Name step, sr_ExitCode = - 1, sr_DurationMS = 0, sr_Stdout = [], sr_Stderr = reason,
      sr_Resolved = [], sr_Truncated = False, sr_TimedOut = False, sr_NotStarted = True,
      sr_Skipped = was_skipped, sr_Ephemeral = False, sr_StartedAt = zero_time\<rparr>"

definition unresolved :: "Step \<Rightarrow> step_text \<Rightarrow> StepResult" where
  "unresolved step err = not_started step err False"

definition skipped :: "Step \<Rightarrow> step_text \<Rightarrow> StepResult" where
  "skipped step reason = not_started step reason True"

definition run_capture :: "(string \<Rightarrow> string) \<Rightarrow> bool \<Rightarrow> string \<Rightarrow> string list \<Rightarrow> capture" where
  "run_capture redact mirrored pfx chunks =
     capture_flush redact (fold (capture_Write redact) chunks (newCapture mirrored pfx))"

definition runStep ::
  "string list \<Rightarrow> bool \<Rightarrow> Step \<Rightarrow> (string, string) gomap \<Rightarrow> string list \<Rightarrow> process_run option \<Rightarrow>
   StepResult \<times> step_output" where
  "runStep environ live step resolved secret proc =
     (let stepEnv = stepEnvOf step resolved;
          env = childEnv environ stepEnv;
          declared = declaredValues env (s_Secret step);
          masked = declared @ secret;
          redact = newRedactor env masked;
          mirror = (live \<and> \<not> s_Ephemeral step)
      in (case proc of
            None \<Rightarrow> (unresolved step (NoModel (s_Type step)), no_output)
          | Some p \<Rightarrow>
              let (stdout, outCut) = capture_result
                    (run_capture redact mirror (''['' @ s_Name step @ ''] '') (pr_stdout p));
                  (stderr, errCut) = capture_result
                    (run_capture redact mirror (''['' @ s_Name step @ ''! '') (pr_stderr p));
                  code = exitCodeOf (pr_err p);
                  res = \<lparr>sr_Name = s_Name step, sr_ExitCode = code, sr_DurationMS = pr_duration p,
                    sr_Stdout = redact stdout, sr_Stderr = Captured (redact stderr),
                    sr_Resolved = redactMap resolved redact, sr_Truncated = (outCut \<or> errCut),
                    sr_TimedOut = pr_deadline p, sr_NotStarted = False, sr_Skipped = False,
                    sr_Ephemeral = False, sr_StartedAt = pr_started p\<rparr>;
                  res' = (if s_Ephemeral step
                    then res\<lparr>sr_Stdout := [], sr_Stderr := Captured [], sr_Ephemeral := True\<rparr> else res);
                  raw = \<lparr>o_Stdout = stdout, o_Stderr = stderr, o_ExitCode = code, o_StdoutCut = outCut,
                    o_StderrCut = errCut, o_Ephemeral = s_Ephemeral step, o_Secrets = declared\<rparr>
              in (res', raw)))"

subsection \<open>The scheduler: schedule.go\<close>

record flight =
  fl_step :: Step
  fl_resolved :: "(string, string) gomap"
  fl_secret :: "string list"

record run_event =
  ev_pick :: nat
  ev_proc :: "process_run option"
  ev_now :: instant

record scheduler =
  sch_flow :: Flow
  sch_deps :: "(string, string list) gomap"
  sch_retain :: "string list"
  sch_limit :: nat
  sch_environ :: "string list"
  sch_live :: bool
  sch_status :: string
  sch_steps :: "StepResult list"
  sch_outputs :: "(string, step_output) gomap"
  sch_done :: "string list"
  sch_blocked :: "string list"
  sch_started :: "string list"
  sch_inflight :: "flight list"
  sch_stopped :: bool
  sch_events :: "run_event list"
  sch_now :: instant

definition newScheduler ::
  "Flow \<Rightarrow> int \<Rightarrow> string list \<Rightarrow> bool \<Rightarrow> run_event list \<Rightarrow> instant \<Rightarrow> scheduler" where
  "newScheduler f limit environ live events start =
     \<lparr>sch_flow = f, sch_deps = dependencies f, sch_retain = referencedSteps f,
      sch_limit = (if limit \<le> 0 then DefaultParallel else nat limit),
      sch_environ = environ, sch_live = live, sch_status = StatusOK, sch_steps = [], sch_outputs = [],
      sch_done = [], sch_blocked = [], sch_started = [], sch_inflight = [], sch_stopped = False,
      sch_events = events, sch_now = start\<rparr>"

definition statusRank :: "string \<Rightarrow> nat" where
  "statusRank status =
     (if status = StatusFailed then 1
      else if status = StatusUnresolved then 2
      else if status = StatusTimeout then 3
      else 0)"

definition worsen :: "string \<Rightarrow> scheduler \<Rightarrow> scheduler" where
  "worsen status s =
     (if statusRank status > statusRank (sch_status s) then s\<lparr>sch_status := status\<rparr> else s)"

definition no_step :: Step where
  "no_step = \<lparr>s_Name = [], s_Run = [], s_Env = [], s_Needs = [], s_DependsOn = None,
     s_Ephemeral = False, s_Secret = [], s_Type = [], s_With = [], s_Timeout = 0, s_AllowFailure = False\<rparr>"

definition step_named :: "Flow \<Rightarrow> string \<Rightarrow> Step" where
  "step_named f name = (case find (\<lambda>s. s_Name s = name) (f_Steps f) of None \<Rightarrow> no_step | Some s \<Rightarrow> s)"

definition block :: "string \<Rightarrow> scheduler \<Rightarrow> scheduler" where
  "block name s = s\<lparr>sch_blocked := List.insert name (sch_blocked s)\<rparr>"

definition judge :: "StepResult \<Rightarrow> scheduler \<Rightarrow> scheduler" where
  "judge res s =
     (if sr_TimedOut res then (worsen StatusTimeout s)\<lparr>sch_stopped := True\<rparr>
      else if sr_NotStarted res \<and> \<not> sr_Skipped res then worsen StatusUnresolved (block (sr_Name res) s)
      else if sr_Skipped res then block (sr_Name res) s
      else if sr_ExitCode res \<noteq> 0 \<and> \<not> s_AllowFailure (step_named (sch_flow s) (sr_Name res))
      then worsen StatusFailed (block (sr_Name res) s)
      else s)"

definition record_outcome :: "StepResult \<Rightarrow> step_output \<Rightarrow> scheduler \<Rightarrow> scheduler" where
  "record_outcome res0 raw s =
     (let name = sr_Name res0;
          res = (if sr_StartedAt res0 = zero_time then res0\<lparr>sr_StartedAt := sch_now s\<rparr> else res0)
      in judge res
        (s\<lparr>sch_started := List.insert name (sch_started s),
           sch_done := (if name \<in> set (sch_done s) then sch_done s else sch_done s @ [name]),
           sch_outputs := (if name \<in> set (sch_retain s) then AList.update name raw (sch_outputs s)
                           else sch_outputs s),
           sch_steps := sch_steps s @ [res]\<rparr>))"

definition ready :: "scheduler \<Rightarrow> Step \<Rightarrow> bool" where
  "ready s step \<longleftrightarrow> list_all (\<lambda>n. n \<in> set (sch_done s)) (get_or [] (sch_deps s) (s_Name step))"

definition blockedBy :: "scheduler \<Rightarrow> Step \<Rightarrow> string option" where
  "blockedBy s step = find (\<lambda>n. n \<in> set (sch_blocked s)) (get_or [] (sch_deps s) (s_Name step))"

definition skip_step :: "Step \<Rightarrow> step_text \<Rightarrow> scheduler \<Rightarrow> scheduler" where
  "skip_step step reason s = record_outcome (skipped step reason) no_output s"

definition launch :: "Step \<Rightarrow> scheduler \<Rightarrow> scheduler" where
  "launch step s =
     (case resolve step (sch_outputs s) of
        Inl e \<Rightarrow> record_outcome (unresolved step (NoValue e)) no_output s
      | Inr (resolved, secret) \<Rightarrow>
          s\<lparr>sch_started := List.insert (s_Name step) (sch_started s),
            sch_inflight := sch_inflight s @
              [\<lparr>fl_step = step, fl_resolved = resolved, fl_secret = secret\<rparr>]\<rparr>)"

fun sweep_steps :: "Step list \<Rightarrow> scheduler \<Rightarrow> bool \<Rightarrow> scheduler \<times> bool" where
  "sweep_steps [] s changed = (s, changed)"
| "sweep_steps (step # steps) s changed =
     (if s_Name step \<in> set (sch_started s) \<or> s_Name step \<in> set (sch_done s) \<or> \<not> ready s step
      then sweep_steps steps s changed
      else (case blockedBy s step of
              Some n \<Rightarrow> sweep_steps steps (skip_step step (DependsOnBlocked n) s) True
            | None \<Rightarrow>
                if sch_stopped s then sweep_steps steps (skip_step step RunStopped s) True
                else if length (sch_inflight s) \<ge> sch_limit s then (s, changed)
                else sweep_steps steps (launch step s) True))"

definition sweep :: "scheduler \<Rightarrow> scheduler \<times> bool" where
  "sweep s = sweep_steps (f_Steps (sch_flow s)) s False"

definition next_event :: "scheduler \<Rightarrow> run_event" where
  "next_event s =
     (case sch_events s of
        [] \<Rightarrow> \<lparr>ev_pick = 0,
               ev_proc = Some \<lparr>pr_stdout = [], pr_stderr = [], pr_err = OtherWaitError,
                 pr_deadline = False, pr_started = sch_now s, pr_duration = 0\<rparr>,
               ev_now = sch_now s\<rparr>
      | e # _ \<Rightarrow> e)"

definition collect :: "scheduler \<Rightarrow> scheduler" where
  "collect s =
     (let e = next_event s;
          i = ev_pick e mod length (sch_inflight s);
          fl = sch_inflight s ! i;
          (res, raw) = runStep (sch_environ s) (sch_live s) (fl_step fl) (fl_resolved fl) (fl_secret fl)
            (ev_proc e)
      in record_outcome res raw
        (s\<lparr>sch_inflight := take i (sch_inflight s) @ drop (i + 1) (sch_inflight s),
           sch_events := tl (sch_events s), sch_now := ev_now e\<rparr>))"

text \<open>
  The loop of \<open>drive\<close>. The first argument bounds the number of rounds; \<open>drive_ends\<close> in the next
  theory shows that one round more than the flow has steps is enough.
\<close>

fun drive :: "nat \<Rightarrow> scheduler \<Rightarrow> scheduler option" where
  "drive 0 s = None"
| "drive (Suc n) s =
     (if length (sch_done s) \<ge> length (f_Steps (sch_flow s)) then Some s
      else let (s1, progressed) = sweep s
           in if sch_inflight s1 \<noteq> [] then drive n (collect s1)
              else if \<not> progressed then Some s1
              else drive n s1)"

definition sortSteps :: "StepResult list \<Rightarrow> StepResult list" where
  "sortSteps rs = sort_key sr_StartedAt rs"

record Run =
  run_Flow :: string
  run_FlowChecksum :: string
  run_Machine :: string
  run_WorkDir :: string
  run_StartedAt :: instant
  run_Status :: string
  run_Steps :: "StepResult list"
  run_ID :: string

text \<open>
  \<open>Execute\<close> for a flow whose typed steps \<open>preflight\<close> accepted (\<open>refused\<close> says whether it did not).
\<close>

definition Execute ::
  "Flow \<Rightarrow> string \<Rightarrow> string \<Rightarrow> int \<Rightarrow> string list \<Rightarrow> bool \<Rightarrow> bool \<Rightarrow> run_event list \<Rightarrow> instant \<Rightarrow> Run option"
where
  "Execute f machine dir par_limit environ live refused events start =
     (let run0 = \<lparr>run_Flow = f_Name f, run_FlowChecksum = f_Checksum f, run_Machine = machine,
            run_WorkDir = dir, run_StartedAt = start, run_Status = StatusOK, run_Steps = [], run_ID = []\<rparr>
      in if refused then Some (run0\<lparr>run_Status := StatusUnresolved\<rparr>)
         else map_option (\<lambda>s. run0\<lparr>run_Status := sch_status s, run_Steps := sortSteps (sch_steps s)\<rparr>)
           (drive (length (f_Steps f) + 1) (newScheduler f par_limit environ live events start)))"

end
