(* ===== verification/FlowSchedule.thy ===== *)
theory FlowSchedule
  imports FlowRun
begin

text \<open>
  What the scheduler guarantees for a flow that passed validation, whatever its processes do and in
  whatever order they end: it never runs more steps at once than it may, starts a step only after
  what it waits on, records every step exactly once, and always comes to an end.
\<close>

definition deps_of :: "scheduler \<Rightarrow> string \<Rightarrow> string set" where
  "deps_of s n = waits_on (sch_deps s) n"

definition in_flight :: "scheduler \<Rightarrow> string list" where
  "in_flight s = map (\<lambda>fl. s_Name (fl_step fl)) (sch_inflight s)"

definition flow_names :: "scheduler \<Rightarrow> string set" where
  "flow_names s = s_Name ` set (f_Steps (sch_flow s))"

text \<open>What one result does to the status of the run.\<close>

definition verdict :: "Flow \<Rightarrow> StepResult \<Rightarrow> nat" where
  "verdict f res =
     (if sr_TimedOut res then 3
      else if sr_NotStarted res \<and> \<not> sr_Skipped res then 2
      else if sr_Skipped res then 0
      else if sr_ExitCode res \<noteq> 0 \<and> \<not> s_AllowFailure (step_named f (sr_Name res)) then 1
      else 0)"

definition worst :: "Flow \<Rightarrow> StepResult list \<Rightarrow> nat" where
  "worst f rs = fold (\<lambda>r m. max m (verdict f r)) rs 0"

lemma worst_snoc: "worst f (rs @ [r]) = max (worst f rs) (verdict f r)"
  by (simp add: worst_def)

lemma worst_Nil [simp]: "worst f [] = 0"
  by (simp add: worst_def)

text \<open>A step that ran had none of its dependencies blocked.\<close>

definition ran_clear :: "scheduler \<Rightarrow> StepResult \<Rightarrow> bool" where
  "ran_clear s r \<longleftrightarrow> sr_Skipped r \<or> deps_of s (sr_Name r) \<inter> set (sch_blocked s) = {}"

text \<open>The names in \<open>X\<close> are between two states: taken from the channel and not recorded yet.\<close>

definition sched_mid :: "string set \<Rightarrow> scheduler \<Rightarrow> bool" where
  "sched_mid X s \<longleftrightarrow>
     distinct (sch_done s @ in_flight s) \<and>
     set (sch_started s) \<union> X = set (sch_done s) \<union> set (in_flight s) \<union> X \<and>
     set (sch_started s) \<subseteq> flow_names s \<and>
     set (sch_blocked s) \<subseteq> set (sch_done s) \<and>
     (\<forall>n\<in>set (sch_started s). deps_of s n \<subseteq> set (sch_done s)) \<and>
     (\<forall>n\<in>set (in_flight s). deps_of s n \<inter> set (sch_blocked s) = {}) \<and>
     map sr_Name (sch_steps s) = sch_done s \<and>
     (\<forall>r\<in>set (sch_steps s). ran_clear s r) \<and>
     statusRank (sch_status s) = worst (sch_flow s) (sch_steps s) \<and>
     (\<forall>n\<in>set (sch_done s). n \<in> set (sch_retain s) \<longrightarrow> lookup (sch_outputs s) n \<noteq> None)"

abbreviation sched_inv :: "scheduler \<Rightarrow> bool" where
  "sched_inv \<equiv> sched_mid {}"

lemma sched_midD:
  assumes "sched_mid X s"
  shows "distinct (sch_done s @ in_flight s)"
    and "set (sch_started s) \<union> X = set (sch_done s) \<union> set (in_flight s) \<union> X"
    and "set (sch_started s) \<subseteq> flow_names s" and "set (sch_blocked s) \<subseteq> set (sch_done s)"
    and "n \<in> set (sch_started s) \<Longrightarrow> deps_of s n \<subseteq> set (sch_done s)"
    and "n \<in> set (in_flight s) \<Longrightarrow> deps_of s n \<inter> set (sch_blocked s) = {}"
    and "map sr_Name (sch_steps s) = sch_done s"
    and "r \<in> set (sch_steps s) \<Longrightarrow> ran_clear s r"
    and "statusRank (sch_status s) = worst (sch_flow s) (sch_steps s)"
    and "n \<in> set (sch_done s) \<Longrightarrow> n \<in> set (sch_retain s) \<Longrightarrow> lookup (sch_outputs s) n \<noteq> None"
  using assms unfolding sched_mid_def by blast+

lemma sched_invD: "sched_inv s \<Longrightarrow> set (sch_started s) = set (sch_done s) \<union> set (in_flight s)"
  using sched_midD(2) [of "{}" s] by simp

definition same_flow :: "scheduler \<Rightarrow> scheduler \<Rightarrow> bool" where
  "same_flow s s' \<longleftrightarrow>
     sch_flow s' = sch_flow s \<and> sch_deps s' = sch_deps s \<and> sch_limit s' = sch_limit s \<and>
     sch_retain s' = sch_retain s \<and> sch_environ s' = sch_environ s"

lemma same_flow_refl [simp]: "same_flow s s"
  by (simp add: same_flow_def)

lemma same_flow_trans: "same_flow a b \<Longrightarrow> same_flow b c \<Longrightarrow> same_flow a c"
  by (simp add: same_flow_def)

lemma statusRank_simps [simp]:
  "statusRank StatusOK = 0" "statusRank StatusFailed = 1" "statusRank StatusUnresolved = 2"
  "statusRank StatusTimeout = 3"
  by (simp_all add: statusRank_def status_defs)

lemma worsen_simps [simp]:
  "sch_flow (worsen st s) = sch_flow s" "sch_deps (worsen st s) = sch_deps s"
  "sch_limit (worsen st s) = sch_limit s" "sch_retain (worsen st s) = sch_retain s"
  "sch_environ (worsen st s) = sch_environ s" "sch_steps (worsen st s) = sch_steps s"
  "sch_outputs (worsen st s) = sch_outputs s" "sch_done (worsen st s) = sch_done s"
  "sch_blocked (worsen st s) = sch_blocked s" "sch_started (worsen st s) = sch_started s"
  "sch_inflight (worsen st s) = sch_inflight s" "sch_stopped (worsen st s) = sch_stopped s"
  "statusRank (sch_status (worsen st s)) = max (statusRank (sch_status s)) (statusRank st)"
  by (simp_all add: worsen_def)

lemma judge_simps [simp]:
  "sch_flow (judge r s) = sch_flow s" "sch_deps (judge r s) = sch_deps s"
  "sch_limit (judge r s) = sch_limit s" "sch_retain (judge r s) = sch_retain s"
  "sch_environ (judge r s) = sch_environ s" "sch_steps (judge r s) = sch_steps s"
  "sch_outputs (judge r s) = sch_outputs s" "sch_done (judge r s) = sch_done s"
  "sch_started (judge r s) = sch_started s" "sch_inflight (judge r s) = sch_inflight s"
  by (simp_all add: judge_def block_def)

lemma judge_blocked:
  "set (sch_blocked (judge r s)) \<subseteq> insert (sr_Name r) (set (sch_blocked s))"
  by (auto simp: judge_def block_def)

lemma judge_status:
  "statusRank (sch_status (judge r s)) = max (statusRank (sch_status s)) (verdict (sch_flow s) r)"
  by (simp add: judge_def verdict_def block_def)

lemma in_flight_cong: "sch_inflight s' = sch_inflight s \<Longrightarrow> in_flight s' = in_flight s"
  by (simp add: in_flight_def)

lemma same_flow_names:
  "same_flow s s' \<Longrightarrow> flow_names s' = flow_names s" "same_flow s s' \<Longrightarrow> deps_of s' n = deps_of s n"
  by (simp_all add: same_flow_def flow_names_def deps_of_def)

lemma record_outcome_simps [simp]:
  "same_flow s (record_outcome res raw s)"
  "sch_inflight (record_outcome res raw s) = sch_inflight s"
  "in_flight (record_outcome res raw s) = in_flight s"
  "sch_done (record_outcome res raw s) =
     (if sr_Name res \<in> set (sch_done s) then sch_done s else sch_done s @ [sr_Name res])"
  "set (sch_started (record_outcome res raw s)) = insert (sr_Name res) (set (sch_started s))"
  by (simp_all add: record_outcome_def same_flow_def Let_def in_flight_def)

lemma record_outcome_steps:
  "\<exists>r. sch_steps (record_outcome res raw s) = sch_steps s @ [r] \<and> sr_Name r = sr_Name res \<and>
     sr_Skipped r = sr_Skipped res \<and>
     statusRank (sch_status (record_outcome res raw s)) =
       max (statusRank (sch_status s)) (verdict (sch_flow s) r) \<and>
     set (sch_blocked (record_outcome res raw s)) \<subseteq> insert (sr_Name res) (set (sch_blocked s))"
  by (rule exI [of _ "if sr_StartedAt res = zero_time then res\<lparr>sr_StartedAt := sch_now s\<rparr> else res"])
    (auto simp: record_outcome_def Let_def judge_status dest: subsetD [OF judge_blocked])

lemma record_outcome_outputs:
  "sch_outputs (record_outcome res raw s) =
     (if sr_Name res \<in> set (sch_retain s) then AList.update (sr_Name res) raw (sch_outputs s)
      else sch_outputs s)"
  by (simp add: record_outcome_def Let_def)

text \<open>Recording the outcome of a step that is neither done nor in flight any more.\<close>

lemma record_outcome_inv:
  assumes inv: "sched_mid {sr_Name res} s"
    and new: "sr_Name res \<notin> set (sch_done s)" "sr_Name res \<notin> set (in_flight s)"
    and flow: "sr_Name res \<in> flow_names s" and deps: "deps_of s (sr_Name res) \<subseteq> set (sch_done s)"
    and clear: "sr_Skipped res \<or> deps_of s (sr_Name res) \<inter> set (sch_blocked s) = {}"
  shows "sched_inv (record_outcome res raw s)"
proof -
  let ?n = "sr_Name res" and ?s = "record_outcome res raw s"
  have f: "flow_names ?s = flow_names s" "\<And>n. deps_of ?s n = deps_of s n" "sch_flow ?s = sch_flow s"
      "sch_retain ?s = sch_retain s"
    using record_outcome_simps(1) [of s res raw]
    by (simp_all add: flow_names_def deps_of_def same_flow_def)
  obtain r where r: "sch_steps ?s = sch_steps s @ [r]" "sr_Name r = ?n" "sr_Skipped r = sr_Skipped res"
      "statusRank (sch_status ?s) = max (statusRank (sch_status s)) (verdict (sch_flow s) r)"
      and b: "set (sch_blocked ?s) \<subseteq> insert ?n (set (sch_blocked s))"
    using record_outcome_steps [of res raw s] by blast
  have fin: "sch_done ?s = sch_done s @ [?n]" using new by simp
  have started: "set (sch_started ?s) = set (sch_done s) \<union> set (in_flight s) \<union> {?n}"
    using inv by (auto simp: sched_mid_def)
  have below: "\<forall>n\<in>set (sch_started ?s). deps_of s n \<subseteq> set (sch_done s)"
    unfolding record_outcome_simps using sched_midD(5) [OF inv] deps by blast
  have free: "deps_of s n \<inter> set (sch_blocked ?s) = {}"
    if "n \<in> set (sch_started ?s)" "deps_of s n \<inter> set (sch_blocked s) = {}" for n
    using that below b new(1) by blast
  have ran: "ran_clear ?s q" if "q \<in> set (sch_steps s)" for q
  proof -
    have "sr_Name q \<in> set (map sr_Name (sch_steps s))" using that by simp
    then have "sr_Name q \<in> set (sch_done s)" by (simp only: sched_midD(7) [OF inv])
    then have "sr_Name q \<in> set (sch_started ?s)" using started by simp
    then show ?thesis using sched_midD(8) [OF inv that] free by (auto simp: ran_clear_def f)
  qed
  have ran_r: "ran_clear ?s r" using clear free [of ?n] started by (auto simp: ran_clear_def r f)
  show ?thesis
    unfolding sched_mid_def
  proof (intro conjI)
    show "distinct (sch_done ?s @ in_flight ?s)" using sched_midD(1) [OF inv] new by simp
    show "set (sch_started ?s) \<union> {} = set (sch_done ?s) \<union> set (in_flight ?s) \<union> {}"
      using started fin by auto
    show "set (sch_started ?s) \<subseteq> flow_names ?s"
      unfolding record_outcome_simps f using sched_midD(3) [OF inv] flow by blast
    show "set (sch_blocked ?s) \<subseteq> set (sch_done ?s)" using sched_midD(4) [OF inv] b fin by auto
    show "\<forall>n\<in>set (sch_started ?s). deps_of ?s n \<subseteq> set (sch_done ?s)"
      using below fin by (auto simp: f)
    show "\<forall>n\<in>set (in_flight ?s). deps_of ?s n \<inter> set (sch_blocked ?s) = {}"
    proof
      fix n assume "n \<in> set (in_flight ?s)"
      then have n: "n \<in> set (in_flight s)" by simp
      then have "n \<in> set (sch_started ?s)" unfolding started by blast
      then show "deps_of ?s n \<inter> set (sch_blocked ?s) = {}"
        using free sched_midD(6) [OF inv n] by (simp only: f)
    qed
    show "map sr_Name (sch_steps ?s) = sch_done ?s" using sched_midD(7) [OF inv] fin r by simp
    show "\<forall>q\<in>set (sch_steps ?s). ran_clear ?s q" using ran ran_r r by auto
    show "statusRank (sch_status ?s) = worst (sch_flow ?s) (sch_steps ?s)"
      using sched_midD(9) [OF inv] r by (simp add: f worst_snoc)
    show "\<forall>n\<in>set (sch_done ?s). n \<in> set (sch_retain ?s) \<longrightarrow> lookup (sch_outputs ?s) n \<noteq> None"
      using sched_midD(10) [OF inv] fin by (auto simp: f record_outcome_outputs)
  qed
qed

subsection \<open>Launching, skipping, sweeping\<close>

lemma not_started_simps [simp]:
  "sr_Name (skipped st x) = s_Name st" "sr_Name (unresolved st x) = s_Name st"
  "sr_Skipped (skipped st x)" "\<not> sr_Skipped (unresolved st x)"
  "sr_NotStarted (skipped st x)" "sr_NotStarted (unresolved st x)"
  by (simp_all add: skipped_def unresolved_def not_started_def)

lemma sched_inv_mid:
  assumes "sched_inv s"
  shows "sched_mid X s"
  using assms sched_invD [OF assms] unfolding sched_mid_def by blast

text \<open>What one decision of a sweep does.\<close>

definition swept :: "scheduler \<Rightarrow> scheduler \<Rightarrow> bool" where
  "swept s s' \<longleftrightarrow>
     same_flow s s' \<and> sched_inv s' \<and>
     length (sch_done s) + length (in_flight s) < length (sch_done s') + length (in_flight s') \<and>
     length (sch_done s) \<le> length (sch_done s') \<and>
     (length (in_flight s') \<le> length (in_flight s) \<or> length (in_flight s') \<le> sch_limit s)"

lemma blockedBy_None: "blockedBy s st = None \<longleftrightarrow> deps_of s (s_Name st) \<inter> set (sch_blocked s) = {}"
  by (auto simp: blockedBy_def find_None_iff deps_of_def waits_on_def)

lemma ready_deps: "ready s st \<longleftrightarrow> deps_of s (s_Name st) \<subseteq> set (sch_done s)"
  by (auto simp: ready_def deps_of_def waits_on_def list_all_iff)

lemma record_swept:
  assumes inv: "sched_inv s" and n: "sr_Name res \<notin> set (sch_started s)" and flow: "sr_Name res \<in> flow_names s"
    and deps: "deps_of s (sr_Name res) \<subseteq> set (sch_done s)"
    and clear: "sr_Skipped res \<or> deps_of s (sr_Name res) \<inter> set (sch_blocked s) = {}"
  shows "swept s (record_outcome res raw s)"
proof -
  have "sr_Name res \<notin> set (sch_done s)" "sr_Name res \<notin> set (in_flight s)"
    using sched_invD [OF inv] n by auto
  then show ?thesis
    using record_outcome_inv [OF sched_inv_mid [OF inv] _ _ flow deps clear, of raw]
    by (simp add: swept_def)
qed

lemma launch_swept:
  assumes inv: "sched_inv s" and st: "st \<in> set (f_Steps (sch_flow s))" and n: "s_Name st \<notin> set (sch_started s)"
    and deps: "deps_of s (s_Name st) \<subseteq> set (sch_done s)"
    and clear: "deps_of s (s_Name st) \<inter> set (sch_blocked s) = {}"
    and room: "length (sch_inflight s) < sch_limit s"
  shows "swept s (launch st s)"
proof (cases "resolve st (sch_outputs s)")
  case (Inl e)
  then show ?thesis
    using record_swept [OF inv, of "unresolved st (NoValue e)" no_output] n st deps clear
    by (simp add: launch_def flow_names_def)
next
  case (Inr rs)
  obtain resolved secret where rs: "rs = (resolved, secret)" by fastforce
  let ?s = "launch st s"
  have l: "?s = s\<lparr>sch_started := List.insert (s_Name st) (sch_started s),
      sch_inflight := sch_inflight s @ [\<lparr>fl_step = st, fl_resolved = resolved, fl_secret = secret\<rparr>]\<rparr>"
    using Inr rs by (simp add: launch_def)
  have parts: "in_flight ?s = in_flight s @ [s_Name st]" "sch_done ?s = sch_done s"
      "set (sch_started ?s) = insert (s_Name st) (set (sch_started s))" "flow_names ?s = flow_names s"
      "\<And>n. deps_of ?s n = deps_of s n" "sch_blocked ?s = sch_blocked s" "sch_steps ?s = sch_steps s"
      "sch_status ?s = sch_status s" "sch_flow ?s = sch_flow s" "sch_outputs ?s = sch_outputs s"
      "sch_retain ?s = sch_retain s" "\<And>r. ran_clear ?s r = ran_clear s r"
    by (simp_all add: l in_flight_def flow_names_def deps_of_def ran_clear_def)
  have new: "s_Name st \<notin> set (sch_done s)" "s_Name st \<notin> set (in_flight s)"
    using sched_invD [OF inv] n by auto
  have flow: "s_Name st \<in> flow_names s" using st by (simp add: flow_names_def)
  have "sched_inv ?s"
    unfolding sched_mid_def
  proof (intro conjI)
    show "distinct (sch_done ?s @ in_flight ?s)"
      using sched_midD(1) [OF inv] new by (simp add: parts)
    show "set (sch_started ?s) \<union> {} = set (sch_done ?s) \<union> set (in_flight ?s) \<union> {}"
      using sched_invD [OF inv] by (simp add: parts)
    show "set (sch_started ?s) \<subseteq> flow_names ?s"
      using sched_midD(3) [OF inv] flow by (simp add: parts)
    show "\<forall>n\<in>set (sch_started ?s). deps_of ?s n \<subseteq> set (sch_done ?s)"
      unfolding parts using sched_midD(5) [OF inv] deps by blast
    show "\<forall>n\<in>set (in_flight ?s). deps_of ?s n \<inter> set (sch_blocked ?s) = {}"
      unfolding parts using sched_midD(6) [OF inv] clear by auto
  qed (use sched_midD [OF inv] in \<open>simp_all add: parts\<close>)
  moreover have "same_flow s ?s" by (simp add: l same_flow_def)
  moreover have "length (in_flight ?s) = Suc (length (in_flight s))" by (simp add: parts)
  moreover have "length (in_flight s) < sch_limit s" using room by (simp add: in_flight_def)
  ultimately show ?thesis by (simp add: swept_def parts(2))
qed

lemma swept_trans: "swept a b \<Longrightarrow> swept b c \<Longrightarrow> swept a c"
  by (auto simp: swept_def same_flow_def)

lemma sweep_steps_swept:
  "sched_inv s \<Longrightarrow> set ss \<subseteq> set (f_Steps (sch_flow s)) \<Longrightarrow> sweep_steps ss s c = (s', c') \<Longrightarrow>
   s' = s \<and> c' = c \<or> swept s s' \<and> c'"
proof (induction ss arbitrary: s c)
  case (Cons st ss)
  have continue: "swept s s' \<and> c'"
    if s1: "swept s s1" and run: "sweep_steps ss s1 True = (s', c')" for s1
  proof -
    have "set ss \<subseteq> set (f_Steps (sch_flow s1))" "sched_inv s1"
      using s1 Cons.prems(2) by (auto simp: swept_def same_flow_def)
    from Cons.IH [OF this(2,1) run] show ?thesis using s1 swept_trans by blast
  qed
  show ?case
  proof (cases "s_Name st \<in> set (sch_started s) \<or> s_Name st \<in> set (sch_done s) \<or> \<not> ready s st")
    case True
    then show ?thesis using Cons by simp
  next
    case False
    then have elig: "s_Name st \<notin> set (sch_started s)" "deps_of s (s_Name st) \<subseteq> set (sch_done s)"
        "s_Name st \<in> flow_names s" "st \<in> set (f_Steps (sch_flow s))"
      using Cons.prems(2) by (auto simp: ready_deps flow_names_def)
    have skip: "swept s (skip_step st x s)" for x
      unfolding skip_step_def by (rule record_swept) (use Cons.prems(1) elig in simp_all)
    show ?thesis
    proof (cases "blockedBy s st")
      case (Some n)
      then have "sweep_steps ss (skip_step st (DependsOnBlocked n) s) True = (s', c')"
        using Cons.prems(3) False by simp
      then show ?thesis using continue [OF skip] by blast
    next
      case None
      then have "deps_of s (s_Name st) \<inter> set (sch_blocked s) = {}" by (simp add: blockedBy_None)
      note go = launch_swept [OF Cons.prems(1) elig(4,1,2) this]
      have step: "(if sch_stopped s then sweep_steps ss (skip_step st RunStopped s) True
          else if length (sch_inflight s) \<ge> sch_limit s then (s, c)
          else sweep_steps ss (launch st s) True) = (s', c')"
        using Cons.prems(3) False None by simp
      consider (stop) "sweep_steps ss (skip_step st RunStopped s) True = (s', c')"
        | (full) "s' = s" "c' = c"
        | (run) "length (sch_inflight s) < sch_limit s" "sweep_steps ss (launch st s) True = (s', c')"
        by (cases "sch_stopped s"; cases "sch_limit s \<le> length (sch_inflight s)")
          (use step in \<open>simp_all add: stop full run\<close>)
      then show ?thesis
      proof cases
        case stop
        then show ?thesis using continue [OF skip] by blast
      next
        case full
        then show ?thesis by simp
      next
        case run
        then show ?thesis using continue [OF go [OF run(1)]] by blast
      qed
    qed
  qed
qed simp

subsection \<open>Collecting a result\<close>

lemma runStep_name [simp]:
  "sr_Name (fst (runStep environ live st res secret p)) = s_Name st"
  "\<not> sr_Skipped (fst (runStep environ live st res secret p))"
  by (auto simp: runStep_def Let_def split: option.split prod.split)

lemma collect_swept:
  assumes inv: "sched_inv s" and busy: "sch_inflight s \<noteq> []"
  shows "same_flow s (collect s) \<and> sched_inv (collect s) \<and>
    length (sch_done (collect s)) = Suc (length (sch_done s)) \<and>
    length (in_flight (collect s)) < length (in_flight s)"
proof -
  define i where "i = ev_pick (next_event s) mod length (sch_inflight s)"
  define fl where "fl = sch_inflight s ! i"
  define run where "run = runStep (sch_environ s) (sch_live s) (fl_step fl) (fl_resolved fl) (fl_secret fl)
    (ev_proc (next_event s))"
  define m where "m = s\<lparr>sch_inflight := take i (sch_inflight s) @ drop (i + 1) (sch_inflight s),
    sch_events := tl (sch_events s), sch_now := ev_now (next_event s)\<rparr>"
  have c: "collect s = record_outcome (fst run) (snd run) m"
    by (simp add: collect_def Let_def i_def fl_def run_def m_def split: prod.split)
  have i: "i < length (sch_inflight s)" using busy by (simp add: i_def)
  have split: "sch_inflight s = take i (sch_inflight s) @ fl # drop (i + 1) (sch_inflight s)"
    using id_take_nth_drop [OF i] by (simp add: fl_def)
  define n where "n = s_Name (fl_step fl)"
  have n: "sr_Name (fst run) = n" by (simp add: run_def n_def)
  obtain A B where fly: "in_flight s = A @ n # B" "in_flight m = A @ B"
    using arg_cong [where f = "map (\<lambda>fl. s_Name (fl_step fl))", OF split]
    by (simp add: in_flight_def m_def n_def)
  have parts: "sch_done m = sch_done s" "sch_started m = sch_started s" "sch_blocked m = sch_blocked s"
      "flow_names m = flow_names s" "\<And>n. deps_of m n = deps_of s n" "\<And>r. ran_clear m r = ran_clear s r"
      "sch_steps m = sch_steps s" "sch_status m = sch_status s" "sch_flow m = sch_flow s"
      "sch_outputs m = sch_outputs s" "sch_retain m = sch_retain s"
    by (simp_all add: m_def flow_names_def deps_of_def ran_clear_def)
  have away: "n \<notin> set (sch_done m)" "n \<notin> set (in_flight m)" and d: "distinct (sch_done m @ in_flight m)"
    using sched_midD(1) [OF inv] by (auto simp: fly parts)
  have ns: "n \<in> set (in_flight s)" by (simp add: fly)
  then have started: "n \<in> set (sch_started s)" using sched_invD [OF inv] by simp
  have "sched_mid {n} m"
    unfolding sched_mid_def
  proof (intro conjI)
    show "set (sch_started m) \<union> {n} = set (sch_done m) \<union> set (in_flight m) \<union> {n}"
      using sched_invD [OF inv] by (auto simp: parts fly)
    show "\<forall>x\<in>set (in_flight m). deps_of m x \<inter> set (sch_blocked m) = {}"
      using sched_midD(6) [OF inv] by (simp add: parts fly)
  qed (use sched_midD [OF inv] d in \<open>simp_all add: parts\<close>)
  moreover have "n \<in> flow_names m" using sched_midD(3) [OF inv] started parts by auto
  moreover have "deps_of m n \<subseteq> set (sch_done m)" using sched_midD(5) [OF inv started] by (simp add: parts)
  moreover have "deps_of m n \<inter> set (sch_blocked m) = {}"
    using sched_midD(6) [OF inv ns] by (simp add: parts)
  ultimately have "sched_inv (collect s)"
    unfolding c using record_outcome_inv [of "fst run" m "snd run"] away by (simp add: n)
  moreover have "same_flow s (collect s)"
    using record_outcome_simps(1) [of m "fst run" "snd run"] by (simp add: c same_flow_def m_def)
  moreover have "sch_done (collect s) = sch_done s @ [n]" "in_flight (collect s) = A @ B"
    using away by (simp_all add: c n parts fly)
  ultimately show ?thesis by (simp add: fly)
qed

subsection \<open>The whole run\<close>

text \<open>A flow whose graph can be ordered, with every dependency one of its steps.\<close>

definition orderly :: "Flow \<Rightarrow> bool" where
  "orderly f \<longleftrightarrow>
     distinct (map s_Name (f_Steps f)) \<and>
     (\<forall>n. waits_on (dependencies f) n \<subseteq> s_Name ` set (f_Steps f)) \<and>
     (\<exists>ns. runnable_order (dependencies f) ns \<and> s_Name ` set (f_Steps f) \<subseteq> set ns)"

lemma runnable_next:
  "runnable_order deps ns \<Longrightarrow> A \<subseteq> set ns \<Longrightarrow> (\<forall>n\<in>A. waits_on deps n \<subseteq> A) \<Longrightarrow> \<not> A \<subseteq> seen \<Longrightarrow>
   \<exists>n\<in>A. n \<notin> seen \<and> waits_on deps n \<subseteq> seen"
proof (induction arbitrary: A rule: runnable_order.induct)
  case (add_order ns n)
  show ?case
  proof (cases "A - {n} \<subseteq> seen")
    case True
    then have "n \<in> A" "n \<notin> seen" using add_order.prems by auto
    moreover have "waits_on deps n \<subseteq> A - {n}"
      using add_order.hyps add_order.prems(2) \<open>n \<in> A\<close> by blast
    ultimately show ?thesis using True by blast
  next
    case False
    have sub: "A - {n} \<subseteq> set ns" using add_order.prems(1) by auto
    have "\<forall>x\<in>A - {n}. waits_on deps x \<subseteq> A - {n}"
    proof
      fix x assume x: "x \<in> A - {n}"
      then have "waits_on deps x \<subseteq> set ns"
        using sub runnable_order_closed [OF add_order.hyps(1)] by blast
      then show "waits_on deps x \<subseteq> A - {n}" using x add_order.prems(2) add_order.hyps(3) by blast
    qed
    then show ?thesis using add_order.IH [OF sub _ False] by blast
  qed
qed simp

lemma sweep_changes:
  "\<exists>st\<in>set ss. s_Name st \<notin> set (sch_started s) \<and> s_Name st \<notin> set (sch_done s) \<and> ready s st \<Longrightarrow>
   sch_inflight s = [] \<Longrightarrow> 0 < sch_limit s \<Longrightarrow> sched_inv s \<Longrightarrow> set ss \<subseteq> set (f_Steps (sch_flow s)) \<Longrightarrow>
   snd (sweep_steps ss s c)"
proof (induction ss)
  case (Cons st ss)
  show ?case
  proof (cases "s_Name st \<in> set (sch_started s) \<or> s_Name st \<in> set (sch_done s) \<or> \<not> ready s st")
    case True
    then show ?thesis using Cons by auto
  next
    case False
    have elig: "s_Name st \<notin> set (sch_started s)" "deps_of s (s_Name st) \<subseteq> set (sch_done s)"
        "s_Name st \<in> flow_names s" "st \<in> set (f_Steps (sch_flow s))"
      using False Cons.prems(5) by (auto simp: ready_deps flow_names_def)
    have on: "snd (sweep_steps ss s1 True)" if "swept s s1" for s1
    proof -
      have "sched_inv s1" "set ss \<subseteq> set (f_Steps (sch_flow s1))"
        using that Cons.prems(5) by (auto simp: swept_def same_flow_def)
      then show ?thesis
        using sweep_steps_swept [of s1 ss True] by (metis prod.collapse)
    qed
    have skip: "swept s (skip_step st x s)" for x
      unfolding skip_step_def by (rule record_swept) (use Cons.prems(4) elig in simp_all)
    have go: "swept s (launch st s)" if "blockedBy s st = None"
      by (rule launch_swept [OF Cons.prems(4) elig(4,1,2)])
        (use that Cons.prems(2,3) in \<open>simp_all add: blockedBy_None\<close>)
    show ?thesis
      using False Cons.prems(2,3) on [OF skip] on [OF go] by (simp split: option.split)
  qed
qed simp

text \<open>The states a run goes through: a sweep, or the collection of one result.\<close>

inductive run_reaches :: "scheduler \<Rightarrow> scheduler \<Rightarrow> bool" for s0 where
  at_start [intro]: "run_reaches s0 s0"
| after_sweep: "run_reaches s0 s \<Longrightarrow> run_reaches s0 (fst (sweep s))"
| after_collect: "run_reaches s0 s \<Longrightarrow> sch_inflight s \<noteq> [] \<Longrightarrow> run_reaches s0 (collect s)"

lemma run_reaches_trans: "run_reaches b c \<Longrightarrow> run_reaches a b \<Longrightarrow> run_reaches a c"
  by (induction rule: run_reaches.induct) (auto intro: after_sweep after_collect)

lemma sweep_swept:
  "sched_inv s \<Longrightarrow> sweep s = (s', c') \<Longrightarrow> s' = s \<and> \<not> c' \<or> swept s s' \<and> c'"
  using sweep_steps_swept [of s "f_Steps (sch_flow s)" False s' c'] by (auto simp: sweep_def)

lemma sched_reaches_inv:
  "run_reaches s0 s \<Longrightarrow> sched_inv s0 \<Longrightarrow> length (in_flight s0) \<le> sch_limit s0 \<Longrightarrow>
   sched_inv s \<and> same_flow s0 s \<and> length (in_flight s) \<le> sch_limit s"
proof (induction rule: run_reaches.induct)
  case (after_sweep s)
  obtain s1 c where s1: "sweep s = (s1, c)" by fastforce
  then show ?case using after_sweep sweep_swept [of s s1 c] by (auto simp: swept_def same_flow_def)
next
  case (after_collect s)
  then show ?case using collect_swept [of s] by (auto simp: same_flow_def)
qed simp

lemma done_bound:
  assumes "sched_inv s" and "distinct (map s_Name (f_Steps (sch_flow s)))"
  shows "length (sch_done s) \<le> length (f_Steps (sch_flow s))"
    and "length (sch_done s) \<ge> length (f_Steps (sch_flow s)) \<Longrightarrow> set (sch_done s) = flow_names s"
proof -
  have d: "distinct (sch_done s)" "set (sch_done s) \<subseteq> flow_names s"
    using sched_midD(1,3) [OF assms(1)] sched_invD [OF assms(1)] by auto
  have fin: "finite (flow_names s)" "card (flow_names s) = length (f_Steps (sch_flow s))"
    using distinct_card [OF assms(2)] by (simp_all add: flow_names_def)
  show "length (sch_done s) \<le> length (f_Steps (sch_flow s))"
    using card_mono [OF fin(1) d(2)] distinct_card [OF d(1)] fin(2) by simp
  show "length (sch_done s) \<ge> length (f_Steps (sch_flow s)) \<Longrightarrow> set (sch_done s) = flow_names s"
    using card_seteq [OF fin(1) d(2)] distinct_card [OF d(1)] fin(2) by simp
qed

lemma ready_step_exists:
  assumes inv: "sched_inv s" and f: "orderly (sch_flow s)" "sch_deps s = dependencies (sch_flow s)"
    and idle: "sch_inflight s = []" and left: "length (sch_done s) < length (f_Steps (sch_flow s))"
  shows "\<exists>st\<in>set (f_Steps (sch_flow s)).
    s_Name st \<notin> set (sch_started s) \<and> s_Name st \<notin> set (sch_done s) \<and> ready s st"
proof -
  have started: "set (sch_started s) = set (sch_done s)"
    using sched_invD [OF inv] idle by (simp add: in_flight_def)
  have "\<not> flow_names s \<subseteq> set (sch_done s)"
  proof
    assume "flow_names s \<subseteq> set (sch_done s)"
    then have "card (flow_names s) \<le> length (sch_done s)"
      by (meson List.finite_set card_length card_mono le_trans)
    then show False
      using left f(1) distinct_card by (fastforce simp: orderly_def flow_names_def)
  qed
  then obtain n where "n \<in> flow_names s" "n \<notin> set (sch_done s)" "waits_on (sch_deps s) n \<subseteq> set (sch_done s)"
    using f runnable_next unfolding orderly_def flow_names_def by metis
  then show ?thesis by (auto simp: started flow_names_def ready_deps deps_of_def)
qed

lemma drive_ends:
  "sched_inv s \<Longrightarrow> orderly (sch_flow s) \<Longrightarrow> sch_deps s = dependencies (sch_flow s) \<Longrightarrow> 0 < sch_limit s \<Longrightarrow>
   length (f_Steps (sch_flow s)) < n + length (sch_done s) \<Longrightarrow>
   \<exists>s'. drive n s = Some s' \<and> run_reaches s s' \<and> set (sch_done s') = flow_names s"
proof (induction n arbitrary: s)
  case 0
  then show ?case using done_bound(1) [of s] by (simp add: orderly_def)
next
  case (Suc n)
  show ?case
  proof (cases "length (sch_done s) \<ge> length (f_Steps (sch_flow s))")
    case True
    then show ?thesis using done_bound(2) [of s] Suc.prems(1,2) by (auto simp: orderly_def)
  next
    case False
    obtain s1 c where s1: "sweep s = (s1, c)" by fastforce
    have r1: "run_reaches s s1" using after_sweep [OF at_start [of s]] s1 by simp
    have alt: "s1 = s \<and> \<not> c \<or> swept s s1 \<and> c" by (rule sweep_swept [OF Suc.prems(1) s1])
    have go: "\<exists>s'. drive n s2 = Some s' \<and> run_reaches s s' \<and> set (sch_done s') = flow_names s"
      if s2: "sched_inv s2" "same_flow s s2" "run_reaches s s2" "length (sch_done s) < length (sch_done s2)" for s2
    proof -
      have "\<exists>s'. drive n s2 = Some s' \<and> run_reaches s2 s' \<and> set (sch_done s') = flow_names s2"
        using Suc.prems s2 by (intro Suc.IH) (auto simp: same_flow_def)
      then show ?thesis
        using run_reaches_trans [OF _ s2(3)] s2(2) by (auto simp: same_flow_def flow_names_def)
    qed
    show ?thesis
    proof (cases "sch_inflight s1 = []")
      case True
      have "c"
      proof (rule ccontr)
        assume "\<not> c"
        then have "sch_inflight s = []" using alt True by auto
        then have "snd (sweep s)"
          unfolding sweep_def
          using ready_step_exists [OF Suc.prems(1-3)] False sweep_changes Suc.prems(1,4) by simp
        then show False using s1 \<open>\<not> c\<close> by simp
      qed
      then have "swept s s1" using alt by blast
      then show ?thesis
        using go [of s1] r1 True False s1 \<open>c\<close> by (simp add: swept_def in_flight_def)
    next
      case busy: False
      have inv1: "sched_inv s1" "same_flow s s1" "length (sch_done s) \<le> length (sch_done s1)"
        using alt Suc.prems(1) by (auto simp: swept_def)
      have "run_reaches s (collect s1)" by (rule after_collect [OF r1 busy])
      then show ?thesis
        using go [of "collect s1"] collect_swept [OF inv1(1) busy] inv1 busy False s1 same_flow_trans
        by (auto simp: Let_def)
    qed
  qed
qed

lemma newScheduler_inv:
  "sched_inv (newScheduler f limit environ live events start)"
  "sch_flow (newScheduler f limit environ live events start) = f"
  "sch_deps (newScheduler f limit environ live events start) = dependencies f"
  "0 < sch_limit (newScheduler f limit environ live events start)"
  "sch_done (newScheduler f limit environ live events start) = []"
  "in_flight (newScheduler f limit environ live events start) = []"
  by (simp_all add: newScheduler_def sched_mid_def in_flight_def DefaultParallel_def)

end
