(* ===== verification/FlowChecked.thy ===== *)
theory FlowChecked
  imports FlowSchedule "HOL-Library.Multiset"
begin

text \<open>
  What \<open>Parse\<close> accepts, and the properties of flows: a flow that was accepted can be run to its end.
\<close>

lemma validateNames_None:
  "validateNames i known ss = None \<longleftrightarrow>
   (\<forall>s\<in>set ss. s_Name s \<noteq> []) \<and> distinct (map s_Name ss) \<and> set (map s_Name ss) \<inter> set known = {}"
  by (induction i known ss rule: validateNames.induct) auto

lemma validateSecretNames_None:
  "validateSecretNames st seen names = None \<longleftrightarrow>
   (\<forall>n\<in>set names. validEnvName n \<and> n \<noteq> tokenEnvVar) \<and> distinct names \<and> set names \<inter> set seen = {}"
  by (induction st seen names rule: validateSecretNames.induct) (auto simp: validEnvName_def)

lemma validateNeed_None:
  assumes "validateNeed st known n = None"
  shows "validEnvName n" "n \<noteq> tokenEnvVar" "lookup (s_Env st) n = None"
    "\<exists>p. parseReference (get_or [] (s_Needs st) n) = Inr p \<and> ref_Step p \<noteq> s_Name st \<and> ref_Step p \<in> set known"
  using assms by (auto simp: validateNeed_def split: if_splits sum.splits)

lemma validateNeeds_None:
  "validateNeeds st known = None \<longleftrightarrow> (\<forall>n\<in>dom (lookup (s_Needs st)). validateNeed st known n = None)"
  by (simp add: validateNeeds_def)

lemma validateStep_None:
  assumes "validateStep known st = None"
  shows "0 \<le> s_Timeout st" "s_Timeout st \<le> MaxTimeout" "validateSecret st = None"
    "validateNeeds st known = None"
  using assms by (auto simp: validateStep_def Let_def split: if_splits)

lemma validate_None:
  assumes "validate stem f = None"
  shows "f_Name f = stem" "f_Steps f \<noteq> []" "validateNames 0 [] (f_Steps f) = None"
    "\<And>s. s \<in> set (f_Steps f) \<Longrightarrow> validateStep (map s_Name (f_Steps f)) s = None"
    "\<And>s. s \<in> set (f_Steps f) \<Longrightarrow> check_depends (map s_Name (f_Steps f)) s = None"
    "findCycle f = None"
  using assms by (auto simp: validate_def validateSteps_def validateGraph_def split: if_splits)

text \<open>The steps a step waits on are steps of the flow.\<close>

lemma deps_from_entry:
  "(n, ds) \<in> set (deps_from prev ss) \<Longrightarrow>
   \<exists>p s. s \<in> set ss \<and> n = s_Name s \<and> ds = step_waits p s \<and>
     (\<forall>q. p = Some q \<longrightarrow> prev = Some q \<or> q \<in> set ss)"
proof (induction prev ss rule: deps_from.induct)
  case (2 prev s ss)
  then show ?case
    by (cases "(n, ds) = (s_Name s, step_waits prev s)") fastforce+
qed simp

lemma step_waits_known:
  assumes v: "validateNeeds s known = None" and c: "check_depends known s = None"
    and p: "\<forall>q. p = Some q \<longrightarrow> s_Name q \<in> set known"
  shows "set (step_waits p s) \<subseteq> set known - {s_Name s}"
proof
  fix x assume x: "x \<in> set (step_waits p s)"
  then have ne: "x \<noteq> s_Name s" by (auto simp: step_waits_def Let_def)
  from x consider
      (implied) "x \<in> set (case s_DependsOn s of None \<Rightarrow> (case p of None \<Rightarrow> [] | Some p \<Rightarrow> [s_Name p])
        | Some names \<Rightarrow> names)"
    | (needed) n where "n \<in> dom (lookup (s_Needs s))" "parsed_step (get_or [] (s_Needs s) n) = Some x"
    unfolding step_waits_def Let_def set_sort set_remdups set_filter set_append in_set_map_filter
    by (simp add: in_set_map_filter) blast
  then have "x \<in> set known"
  proof cases
    case implied
    then show ?thesis
      using c p by (auto simp: check_depends_def split: option.splits if_splits)
  next
    case needed
    then have "validateNeed s known n = None" using v by (auto simp: validateNeeds_None)
    from validateNeed_None(4) [OF this] show ?thesis
      using needed(2) by (auto simp: parsed_step_def)
  qed
  then show "x \<in> set known - {s_Name s}" using ne by simp
qed

lemma validate_orderly:
  assumes "validate stem f = None"
  shows "orderly f"
proof -
  note v = validate_None [OF assms]
  let ?names = "map s_Name (f_Steps f)"
  have "waits_on (dependencies f) n \<subseteq> set ?names" for n
  proof (cases "lookup (dependencies f) n")
    case None
    then show ?thesis by (simp add: waits_on_def get_or_def)
  next
    case (Some ds)
    then have "(n, ds) \<in> set (deps_from None (f_Steps f))"
      by (auto simp: dependencies_def dest: map_of_SomeD)
    then obtain p s where s: "s \<in> set (f_Steps f)" "ds = step_waits p s"
        "\<forall>q. p = Some q \<longrightarrow> q \<in> set (f_Steps f)"
      using deps_from_entry by fastforce
    have "set (step_waits p s) \<subseteq> set ?names - {s_Name s}"
      using s v(4,5) validateStep_None(4) by (intro step_waits_known) auto
    then show ?thesis using Some s(2) by (auto simp: waits_on_def get_or_def)
  qed
  moreover have "distinct ?names" using v(3) by (simp add: validateNames_None)
  ultimately show ?thesis using findCycle_None [OF v(6)] by (simp add: orderly_def)
qed

lemma Parse_orderly: "Parse decode path data = Inr f \<Longrightarrow> orderly f"
  by (auto simp: Parse_def Let_def split: option.splits intro: validate_orderly)

lemma Parse_valid: "Parse decode path data = Inr f \<Longrightarrow> \<exists>stem. validate stem f = None"
  by (auto simp: Parse_def Let_def split: option.splits)

text \<open>A run from its start.\<close>

lemma Execute_runs:
  assumes "orderly f"
  shows "\<exists>s. drive (length (f_Steps f) + 1) (newScheduler f lim environ live events start) = Some s \<and>
    run_reaches (newScheduler f lim environ live events start) s \<and> sched_inv s \<and> sch_flow s = f \<and>
    set (sch_done s) = s_Name ` set (f_Steps f)"
proof -
  let ?s0 = "newScheduler f lim environ live events start"
  obtain s where s: "drive (length (f_Steps f) + 1) ?s0 = Some s" "run_reaches ?s0 s"
      "set (sch_done s) = flow_names ?s0"
    using drive_ends [of ?s0 "length (f_Steps f) + 1"] assms newScheduler_inv
    by (auto simp: newScheduler_inv)
  have "sched_inv s \<and> same_flow ?s0 s"
    using sched_reaches_inv [OF s(2)] newScheduler_inv by simp
  then show ?thesis using s by (auto simp: same_flow_def newScheduler_inv flow_names_def)
qed

lemma Execute_result:
  assumes "orderly f"
  shows "\<exists>run. Execute f machine dir lim environ live False events start = Some run \<and>
    mset (map sr_Name (run_Steps run)) = mset (map s_Name (f_Steps f)) \<and>
    sorted (map sr_StartedAt (run_Steps run)) \<and>
    (\<exists>s. run_reaches (newScheduler f lim environ live events start) s \<and> sched_inv s \<and> sch_flow s = f \<and>
       run_Steps run = sortSteps (sch_steps s) \<and> run_Status run = sch_status s)"
proof -
  obtain s where s: "drive (length (f_Steps f) + 1) (newScheduler f lim environ live events start) = Some s"
      "run_reaches (newScheduler f lim environ live events start) s" "sched_inv s" "sch_flow s = f"
      "set (sch_done s) = s_Name ` set (f_Steps f)"
    using Execute_runs [OF assms] by blast
  have "distinct (sch_done s)" using sched_midD(1) [OF s(3)] by simp
  then have "mset (sch_done s) = mset (map s_Name (f_Steps f))"
    using s(5) assms set_eq_iff_mset_eq_distinct [of "sch_done s" "map s_Name (f_Steps f)"]
    by (simp add: orderly_def)
  then have "mset (map sr_Name (sortSteps (sch_steps s))) = mset (map s_Name (f_Steps f))"
    using arg_cong [OF sched_midD(7) [OF s(3)], of mset] by (simp add: sortSteps_def)
  then show ?thesis
    using s by (auto simp: Execute_def Let_def sortSteps_def)
qed

lemma worst_Max: "worst f rs = Max (insert 0 (set (map (verdict f) rs)))"
proof (induction rs rule: rev_induct)
  case (snoc r rs)
  then show ?case by (simp add: worst_snoc insert_commute [of 0] max.commute)
qed simp

lemma worst_sort [simp]: "worst f (sortSteps rs) = worst f rs"
  by (simp add: worst_Max sortSteps_def)

text \<open>Needing an output is a dependency, so the value is there when the step is ready.\<close>

lemma ready_resolves:
  assumes "orderly (sch_flow s)" and "sch_deps s = dependencies (sch_flow s)"
    and "sch_retain s = referencedSteps (sch_flow s)" and inv: "sched_inv s"
    and st: "st \<in> set (f_Steps (sch_flow s))" and "ready s st"
    and n: "n \<in> dom (lookup (s_Needs st))" and p: "parsed_step (get_or [] (s_Needs st) n) = Some m" and "m \<noteq> s_Name st"
  shows "lookup (sch_outputs s) m \<noteq> None"
proof -
  have needed: "m \<in> set (List.map_filter (\<lambda>name. parsed_step (get_or [] (s_Needs st) name)) (sortedNames (s_Needs st)))"
    using n p by (auto simp: in_set_map_filter)
  then have in_waits: "m \<in> set (step_waits q st)" for q
    using \<open>m \<noteq> s_Name st\<close> by (simp add: step_waits_def Let_def)
  have "s_Name st \<in> set (map_keys (dependencies (sch_flow s)))"
    using st map_keys_deps_from [of None "f_Steps (sch_flow s)"]
    by (simp add: dependencies_def map_keys_def) (metis image_eqI image_image list.set_map)
  then obtain ds where ds: "lookup (dependencies (sch_flow s)) (s_Name st) = Some ds"
    by (auto simp: set_map_keys)
  then have "(s_Name st, ds) \<in> set (deps_from None (f_Steps (sch_flow s)))"
    by (auto simp: dependencies_def dest: map_of_SomeD)
  then obtain q s2 where "s2 \<in> set (f_Steps (sch_flow s))" "s_Name s2 = s_Name st" "ds = step_waits q s2"
    using deps_from_entry by metis
  moreover from this have "s2 = st"
    using assms(1) st by (auto simp: orderly_def distinct_map dest: inj_onD)
  ultimately have "m \<in> set (sch_done s)"
    using \<open>ready s st\<close> ds assms(2) in_waits by (auto simp: ready_def get_or_def list_all_iff)
  moreover have "m \<in> set (referencedSteps (sch_flow s))"
    using st needed by (auto simp: referencedSteps_def)
  ultimately show ?thesis using sched_midD(10) [OF inv] assms(3) by simp
qed

end
