(* ===== verification/FlowFacts.thy ===== *)
theory FlowFacts
  imports FlowChecked
begin

text \<open>
  The properties of flows. \<open>decode\<close> stands for the YAML decoder; nothing is assumed about it. The
  script of events stands for what processes do and for the order in which they end.
\<close>

subsection \<open>A flow the witnesses run\<close>

definition shell_step :: "string \<Rightarrow> Step" where
  "shell_step name = no_step\<lparr>s_Name := name, s_Run := ''true''\<rparr>"

definition demo_flow :: Flow where
  "demo_flow = \<lparr>f_Name = ''gate'', f_Description = [],
     f_Steps = [shell_step ''build'',
       (shell_step ''test'')\<lparr>s_Needs := [(''OUT'', ''build.stdout'')], s_DependsOn := Some []\<rparr>],
     f_Path = [], f_Checksum = []\<rparr>"

definition demo_parsed :: Flow where
  "demo_parsed = demo_flow\<lparr>f_Path := ''flows/gate.yml'', f_Checksum := Checksum ''name: gate''\<rparr>"

lemma demo_valid: "validate ''gate'' demo_parsed = None"
proof -
  have "validate ''gate'' demo_flow = None" by code_simp
  moreover have "validate s (f\<lparr>f_Path := p, f_Checksum := c\<rparr>) = validate s f" for s f p c
    by (simp add: validate_def validateSteps_def validateGraph_def findCycle_def dependencies_def)
  ultimately show ?thesis by (simp add: demo_parsed_def)
qed

lemma demo_parse: "Parse (\<lambda>_. Some demo_flow) ''flows/gate.yml'' ''name: gate'' = Inr demo_parsed"
proof -
  have "NameFromPath ''flows/gate.yml'' = ''gate''" by code_simp
  then show ?thesis using demo_valid by (simp add: Parse_def demo_parsed_def)
qed

lemma demo_names:
  "shell_step ''build'' \<in> set (f_Steps demo_parsed)" "s_Name (shell_step n) = n"
  "map s_Name (f_Steps demo_parsed) = [''build'', ''test'']"
  by (simp_all add: demo_parsed_def demo_flow_def shell_step_def)

abbreviation demo_start where "demo_start \<equiv> newScheduler demo_parsed 2 [] False [] 5"

subsection \<open>Validation\<close>

text \<open>
  C33: the search for a cycle is right either way. When it reports nothing the steps have an order in
  which each comes after everything it waits on; when it reports a loop, that loop is in the graph.
\<close>

theorem cycle_search_correct:
  "case findCycle f of
     None \<Rightarrow> \<exists>ns. runnable_order (dependencies f) ns \<and> s_Name ` set (f_Steps f) \<subseteq> set ns
   | Some e \<Rightarrow> \<exists>c. e = CycleOf c \<and> real_cycle (dependencies f) c"
  using findCycle_None findCycle_Some by (auto split: option.split)

text \<open>
  C39: what \<open>Parse\<close> accepts is well formed: it has the name of its file, its steps have different
  names and timeouts within the cap, no value is bound to the token variable, and every step a value
  or an order is asked of is another step of the flow.
\<close>

theorem parsed_flow_checked:
  assumes "Parse decode path data = Inr f" and "s \<in> set (f_Steps f)"
  shows "f_Name f = NameFromPath path \<and> distinct (map s_Name (f_Steps f)) \<and>
    0 < EffectiveTimeout s \<and> EffectiveTimeout s \<le> MaxTimeout \<and>
    lookup (s_Needs s) tokenEnvVar = None \<and>
    waits_on (dependencies f) (s_Name s) \<subseteq> s_Name ` set (f_Steps f)"
proof -
  have v: "validate (NameFromPath path) f = None"
    using assms(1) by (auto simp: Parse_def Let_def split: option.splits)
  note st = validateStep_None [OF validate_None(4) [OF v assms(2)]]
  have "lookup (s_Needs s) tokenEnvVar = None"
    using st(4) validateNeed_None(2) by (auto simp: validateNeeds_None)
  moreover have "0 < EffectiveTimeout s \<and> EffectiveTimeout s \<le> MaxTimeout"
    using st(1,2) by (simp add: EffectiveTimeout_def DefaultTimeout_def MaxTimeout_def)
  ultimately show ?thesis
    using validate_None(1) [OF v] validate_orderly [OF v] by (simp add: orderly_def)
qed

lemma parsed_flow_checked_witness:
  "waits_on (dependencies demo_parsed) ''build'' \<subseteq> s_Name ` set (f_Steps demo_parsed)"
  using parsed_flow_checked [OF demo_parse, of "shell_step ''build''"]
  by (simp add: demo_names)

text \<open>
  A reference is read back as the step and the field it was written from, whatever dots the name
  of the step contains.
\<close>

theorem reference_roundtrip:
  assumes "step \<noteq> []"
  shows "parseReference (step @ ''.'' @ field_name f) = Inr \<lparr>ref_Step = step, ref_Field = f\<rparr>"
proof -
  have dots: "\<forall>x\<in>set (field_name f). x \<noteq> CHR ''.''" and ne: "field_name f \<noteq> []"
      and same: "field_of (field_name f) = Some f"
    by (cases f; simp add: field_name_def field_of_def)+
  have "last_index_byte (step @ CHR ''.'' # field_name f) (\<lambda>c. c = CHR ''.'') = Some (length step)"
    using dots by (intro last_index_byte_last) auto
  then show ?thesis using assms ne same by (simp add: parseReference_def)
qed

lemma reference_roundtrip_witness:
  "parseReference ''v1.2.exit_code'' = Inr \<lparr>ref_Step = ''v1.2'', ref_Field = ExitCode\<rparr>"
  using reference_roundtrip [of "''v1.2''" ExitCode] by (simp add: field_name_def)

subsection \<open>Running\<close>



text \<open>
  No more steps run at once than the flow may use, at any moment of any run.
\<close>

theorem parallel_bound:
  assumes "run_reaches (newScheduler f limit environ live events start) s"
  shows "length (sch_inflight s) \<le> (if limit \<le> 0 then DefaultParallel else nat limit)"
  using sched_reaches_inv [OF assms newScheduler_inv(1)]
  by (simp add: in_flight_def same_flow_def newScheduler_def split: if_splits)

lemma parallel_bound_witness: "length (sch_inflight (fst (sweep demo_start))) \<le> 2"
  using parallel_bound [OF after_sweep [OF at_start [of demo_start]]] by simp

text \<open>
  C35: a step starts only when everything it waits on has finished, and a step that ran, or is running,
  waited on nothing that was blocked: the casualties of a failure are skipped instead.
\<close>

theorem starts_after_dependencies:
  assumes "run_reaches (newScheduler f limit environ live events start) s"
  shows "(\<forall>n\<in>set (sch_started s). waits_on (dependencies f) n \<subseteq> set (sch_done s)) \<and>
    (\<forall>n\<in>set (in_flight s). waits_on (dependencies f) n \<inter> set (sch_blocked s) = {}) \<and>
    (\<forall>r\<in>set (sch_steps s). \<not> sr_Skipped r \<longrightarrow>
       waits_on (dependencies f) (sr_Name r) \<inter> set (sch_blocked s) = {})"
proof -
  have inv: "sched_inv s" and deps: "sch_deps s = dependencies f"
    using sched_reaches_inv [OF assms newScheduler_inv(1)] newScheduler_inv
    by (auto simp: same_flow_def)
  show ?thesis
    using sched_midD(5,6) [OF inv] sched_midD(8) [OF inv] unfolding deps_of_def deps ran_clear_def
    by blast
qed

lemma starts_after_dependencies_witness:
  "\<exists>s. run_reaches demo_start s \<and> waits_on (dependencies demo_parsed) ''test'' \<subseteq> set (sch_done s)"
proof -
  obtain s where s: "run_reaches demo_start s" "sched_inv s"
      "set (sch_done s) = s_Name ` set (f_Steps demo_parsed)"
    using Execute_runs [OF Parse_orderly [OF demo_parse]] by blast
  have "''test'' \<in> set (map s_Name (f_Steps demo_parsed))" by (simp add: demo_names)
  then have "''test'' \<in> set (sch_started s)" using s(3) sched_invD [OF s(2)] by simp
  with starts_after_dependencies [OF s(1)] show ?thesis using s(1) by blast
qed

text \<open>
  A run ends with the status of the worst thing that happened in it, so the status does not depend
  on the order in which the steps finished.
\<close>

theorem status_is_worst:
  assumes "Parse decode path data = Inr f"
    and "Execute f machine dir limit environ live False events start = Some run"
  shows "statusRank (run_Status run) = Max (insert 0 (verdict f ` set (run_Steps run)))"
proof -
  obtain s where s: "sched_inv s" "sch_flow s = f" "run_Steps run = sortSteps (sch_steps s)"
      "run_Status run = sch_status s"
    using Execute_result [OF Parse_orderly [OF assms(1)], of machine dir limit environ live events start]
      assms(2) by auto
  then have "statusRank (run_Status run) = worst f (run_Steps run)"
    using sched_midD(9) [OF s(1)] by simp
  then show ?thesis by (simp add: worst_Max)
qed

lemma status_is_worst_witness:
  "\<exists>run. Execute demo_parsed [] [] 1 [] False False [] 5 = Some run \<and>
    statusRank (run_Status run) = Max (insert 0 (verdict demo_parsed ` set (run_Steps run)))"
proof -
  obtain run where run: "Execute demo_parsed [] [] 1 [] False False [] 5 = Some run"
    using Execute_result [OF Parse_orderly [OF demo_parse]] by blast
  then show ?thesis using status_is_worst [OF demo_parse run] by blast
qed

text \<open>
  C37: when a step of an accepted flow is about to start, every step it needs a value of has left its
  output: \<open>resolve\<close> never complains of a step that did not run.
\<close>

theorem needed_output_present:
  assumes "Parse decode path data = Inr f"
    and "run_reaches (newScheduler f limit environ live events start) s"
    and "step \<in> set (f_Steps f)" and "ready s step" and "n \<in> dom (lookup (s_Needs step))"
  shows "\<exists>p out. parseReference (get_or [] (s_Needs step) n) = Inr p \<and>
    lookup (sch_outputs s) (ref_Step p) = Some out"
proof -
  have inv: "sched_inv s" "same_flow (newScheduler f limit environ live events start) s"
    using sched_reaches_inv [OF assms(2) newScheduler_inv(1)] newScheduler_inv by auto
  have flow: "sch_flow s = f" "sch_deps s = dependencies f" "sch_retain s = referencedSteps f"
    using inv(2) by (auto simp: same_flow_def newScheduler_def)
  obtain stem where v: "validate stem f = None" using Parse_valid [OF assms(1)] by blast
  have "validateNeed step (map s_Name (f_Steps f)) n = None"
    using validateStep_None(4) [OF validate_None(4) [OF v assms(3)]] assms(5)
    by (simp add: validateNeeds_None)
  from validateNeed_None(4) [OF this] obtain p where
      p: "parseReference (get_or [] (s_Needs step) n) = Inr p" "ref_Step p \<noteq> s_Name step" by blast
  have "lookup (sch_outputs s) (ref_Step p) \<noteq> None"
    using ready_resolves [of s step n "ref_Step p"] flow inv(1) assms(3-5) p Parse_orderly [OF assms(1)]
    by (simp add: parsed_step_def)
  then show ?thesis using p(1) by auto
qed

lemma needed_output_present_witness:
  "\<exists>s p out. run_reaches demo_start s \<and> parseReference ''build.stdout'' = Inr p \<and>
    lookup (sch_outputs s) (ref_Step p) = Some out"
proof -
  let ?st = "f_Steps demo_parsed ! 1"
  obtain s where s: "run_reaches demo_start s" "sch_flow s = demo_parsed"
      "set (sch_done s) = s_Name ` set (f_Steps demo_parsed)"
    using Execute_runs [OF Parse_orderly [OF demo_parse]] by blast
  have st: "?st \<in> set (f_Steps demo_parsed)" "''OUT'' \<in> dom (lookup (s_Needs ?st))"
      "get_or [] (s_Needs ?st) ''OUT'' = ''build.stdout''"
    by (simp_all add: demo_parsed_def demo_flow_def get_or_def)
  have "sch_deps s = dependencies demo_parsed"
    using sched_reaches_inv [OF s(1) newScheduler_inv(1)] newScheduler_inv by (auto simp: same_flow_def)
  then have "ready s ?st"
    using Parse_orderly [OF demo_parse] s(3) by (simp add: ready_deps deps_of_def orderly_def)
  from needed_output_present [OF demo_parse s(1) st(1) this st(2)] show ?thesis using s(1) st(3) by auto
qed

subsection \<open>Values, environments, masks\<close>





text \<open>
  The token of this machine never reaches a step: no entry of the environment a step is given
  sets the variable, whatever the process itself has in its environment.
\<close>

theorem token_never_passed:
  assumes "\<forall>n\<in>dom (lookup stepEnv). CHR ''='' \<notin> set n" and "e \<in> set (childEnv environ stepEnv)"
  shows "\<not> has_prefix e (tokenEnvVar @ ''='')"
proof
  assume "has_prefix e (tokenEnvVar @ ''='')"
  then obtain v where e: "e = tokenEnvVar @ ''='' @ v" by (auto simp: has_prefix_iff)
  have tok: "CHR ''='' \<notin> set tokenEnvVar" by (simp add: tokenEnvVar_def)
  then have cut: "str_cut e ''='' = Some (tokenEnvVar, v)" unfolding e by (rule str_cut_sep)
  from assms(2) consider "\<exists>n. str_cut e ''='' = Some n \<and> fst n \<noteq> tokenEnvVar"
    | n w where "n \<noteq> tokenEnvVar" "n \<in> dom (lookup stepEnv)" "e = n @ ''='' @ w"
    unfolding childEnv_def set_append Un_iff
  proof (elim disjE)
    assume "e \<in> set (map env_entry (filter (\<lambda>nv. fst nv \<noteq> tokenEnvVar) (AList.clearjunk stepEnv)))"
    then obtain n w where nw: "(n, w) \<in> set (AList.clearjunk stepEnv)" "n \<noteq> tokenEnvVar" "e = n @ ''='' @ w"
      by (auto simp: env_entry_def)
    then have "n \<in> dom (lookup stepEnv)"
      by (metis domIff dom_clearjunk dom_map_of_conv_image_fst image_eqI fst_conv)
    then show ?thesis using nw that(2) by blast
  qed (use that(1) in \<open>auto split: option.splits\<close>)
  then show False
  proof cases
    case 1
    then show ?thesis using cut by auto
  next
    case (2 n w)
    then have "str_cut e ''='' = Some (n, w)"
      using assms(1) str_cut_sep [of "CHR ''=''" n w] by auto
    then show ?thesis using cut 2 by simp
  qed
qed

lemma token_never_passed_witness:
  "\<not> has_prefix ''HOME=/root'' (tokenEnvVar @ ''='')"
proof -
  have "''HOME=/root'' \<in> set (childEnv [''MYCELIUM_TOKEN=secret'', ''HOME=/root''] [(''A'', ''1'')])"
    by code_simp
  with token_never_passed [of "[(''A'', ''1'')]"] show ?thesis by auto
qed

text \<open>
  Of a stream a capture keeps the first \<open>MaxStreamBytes\<close> bytes, however the writes cut it up, and
  says whether there was more.
\<close>

theorem capture_keeps_prefix:
  "capture_result (run_capture redact mirrored pfx chunks) =
   (take MaxStreamBytes (concat chunks), length (concat chunks) > MaxStreamBytes)"
  using capture_writes [OF newCapture_holds, of chunks redact mirrored pfx]
  by (auto simp: run_capture_def capture_result_def capture_flush_def capture_holds_def)

text \<open>
  A value a step gets from an ephemeral step that printed nothing is the empty string, and masking
  that puts the mask into every gap of the output instead of nowhere.
\<close>

theorem empty_secret_masks_gaps:
  "newRedactor [] [[]] s = concat (map (\<lambda>c. ''***'' @ [c]) s) @ ''***''"
proof -
  have "replace_from [[]] ''***'' False s = concat (map (\<lambda>c. ''***'' @ [c]) s) @ ''***''"
  proof (induction s)
    case Nil
    show ?case by (simp add: replace_from.simps replace_match_def)
  next
    case (Cons c s)
    show ?case
      by (subst replace_from.simps, subst (2) replace_from.simps)
        (simp add: replace_match_def Cons.IH)
  qed
  then show ?thesis by (simp add: newRedactor_def redact_values_def)
qed

text \<open>
  Of two secrets the one that comes first in the list wins even where it is only the beginning of
  the other, and the rest of the longer one stays readable.
\<close>

theorem prefix_secret_leaks:
  assumes "a \<noteq> []"
  shows "newRedactor [] [a, a @ b] (a @ b) = ''***'' @ newRedactor [] [a, a @ b] b"
  using assms by (simp add: newRedactor_def redact_values_def)
    (subst replace_from.simps, simp add: replace_match_def)

lemma prefix_secret_leaks_witness:
  "newRedactor [] [''abcd'', ''abcd'' @ ''efgh''] (''abcd'' @ ''efgh'') =
   ''***'' @ newRedactor [] [''abcd'', ''abcd'' @ ''efgh''] ''efgh''"
  by (rule prefix_secret_leaks) simp

end
