(* ===== verification/WikiPage.thy ===== *)
theory WikiPage
  imports GoTime
begin

text \<open>
  Pages of the wiki and the blocks a search returns: \<open>frontmatter.go\<close>, \<open>chunk.go\<close>, the page half of
  \<open>links.go\<close>, and the dates of \<open>freshness.go\<close> in \<open>internal/memory\<close>. A page is its bytes; a loop over the
  bytes of a body is a recursion on what is left of it.
\<close>

abbreviation lines_of :: "string \<Rightarrow> string list" where "lines_of \<equiv> split_on newline"
abbreviation join_lines :: "string list \<Rightarrow> string" where "join_lines \<equiv> str_join [newline]"

definition trim_set :: "string \<Rightarrow> string \<Rightarrow> string" where
  "trim_set cutset s = trim_right (\<lambda>c. c \<in> set cutset) (trim_left (\<lambda>c. c \<in> set cutset) s)"

definition trim_newlines :: "string \<Rightarrow> string" where
  "trim_newlines s = trim_right (\<lambda>c. c = newline) s"

subsection \<open>Links\<close>

definition appendLink :: "string list \<Rightarrow> string \<Rightarrow> string list" where
  "appendLink links raw =
     (let name = trim_space (trim_set (''[]'' @ [dquote, CHR 39]) (trim_space raw))
      in if name = [] \<or> (\<exists>c\<in>set name. c \<in> {CHR '':'', newline}) then links
         else links @ [to_lower (trim_suffix name ''.md'')])"

fun related_lines :: "bool \<Rightarrow> string list \<Rightarrow> string list \<Rightarrow> string list" where
  "related_lines inBlock links [] = links"
| "related_lines inBlock links (line # rest) =
     (let trimmed = trim_space line in
      if inBlock \<and> has_prefix trimmed ''- '' then
        related_lines inBlock (appendLink links (drop 2 trimmed)) rest
      else case cut_prefix trimmed ''related:'' of
        None \<Rightarrow> related_lines False links rest
      | Some r \<Rightarrow>
          (let value = trim_space r in
           if value = [] then related_lines True links rest
           else related_lines False (foldl appendLink links (split_on CHR '','' (trim_set ''[]'' value))) rest))"

definition relatedLinks :: "string \<Rightarrow> string list" where
  "relatedLinks head = related_lines False [] (lines_of head)"

definition splitRelated :: "string \<Rightarrow> string list" where
  "splitRelated related = (if related = [] then [] else split_on CHR '','' related)"

fun inline_code :: "bool \<Rightarrow> string \<Rightarrow> string" where
  "inline_code code [] = []"
| "inline_code code (r # rs) =
     (if r = backquote then inline_code (\<not> code) rs
      else if code then inline_code code rs else r # inline_code code rs)"

definition dropInlineCode :: "string \<Rightarrow> string" where
  "dropInlineCode line = inline_code False line"

fun unfenced :: "bool \<Rightarrow> string list \<Rightarrow> string list" where
  "unfenced fenced [] = []"
| "unfenced fenced (line # rest) =
     (if has_prefix (trim_space line) [backquote, backquote, backquote] then unfenced (\<not> fenced) rest
      else if fenced then unfenced fenced rest
      else dropInlineCode line # unfenced fenced rest)"

definition outsideCode :: "string \<Rightarrow> string" where
  "outsideCode body = join_lines (unfenced False (lines_of body))"

definition link_name :: "string \<Rightarrow> string" where
  "link_name name = trim_space (takeWhile (\<lambda>c. c \<notin> {CHR ''|'', CHR ''#''}) name)"

function links_from :: "string \<Rightarrow> string list" where
  "links_from body =
     (case str_index body ''[['' of
        None \<Rightarrow> []
      | Some i \<Rightarrow>
          (let after = drop (i + 2) body in
           case str_index after '']]'' of
             None \<Rightarrow> []
           | Some end \<Rightarrow>
               (let name = link_name (take end after); rest = links_from (drop (end + 2) after)
                in if name = [] \<or> newline \<in> set name then rest
                   else to_lower (trim_suffix name ''.md'') # rest)))"
  by pat_completeness auto

termination
  by (relation "measure length") (auto dest!: str_index_length)

declare links_from.simps [simp del]

definition wikiLinks :: "string \<Rightarrow> string list" where
  "wikiLinks body = links_from (outsideCode body)"

subsection \<open>Front matter\<close>

record pageFront =
  pf_title :: string
  pf_kind :: string
  pf_related :: string

record remainder =
  rm_text :: string
  rm_offset :: nat

fun scalar_lines :: "string \<Rightarrow> string list \<Rightarrow> string" where
  "scalar_lines key [] = []"
| "scalar_lines key (line # rest) =
     (if \<not> has_prefix line (key @ '':'') then scalar_lines key rest
      else trim_set [dquote, CHR 39] (trim_space (trim_prefix line (key @ '':''))))"

definition scalar :: "string \<Rightarrow> string \<Rightarrow> string" where
  "scalar head key = scalar_lines key (lines_of head)"

definition fence :: string where "fence = ''---'' @ [newline]"
definition closing :: string where "closing = newline # ''---''"

definition no_front :: pageFront where
  "no_front = \<lparr>pf_title = [], pf_kind = [], pf_related = []\<rparr>"

definition frontmatter :: "string \<Rightarrow> pageFront \<times> remainder" where
  "frontmatter content =
     (if \<not> has_prefix content fence then (no_front, \<lparr>rm_text = content, rm_offset = 0\<rparr>)
      else case str_index (drop 4 content) closing of
        None \<Rightarrow> (no_front, \<lparr>rm_text = content, rm_offset = 0\<rparr>)
      | Some end \<Rightarrow>
          (let head = take end (drop 4 content);
               rest = drop (4 + end) content;
               rest = (case str_index rest [newline] of None \<Rightarrow> rest | Some k \<Rightarrow> drop (k + 1) rest);
               rest = (case str_index rest [newline] of
                         None \<Rightarrow> rest
                       | Some k \<Rightarrow> if has_prefix rest ''-'' then drop (k + 1) rest else rest)
           in (\<lparr>pf_title = scalar head ''title'', pf_kind = scalar head ''type'',
                 pf_related = str_join '','' (relatedLinks head)\<rparr>,
               \<lparr>rm_text = rest,
                rm_offset = count_byte newline (take (length content - length rest) content)\<rparr>)))"

subsection \<open>Chunks\<close>

definition MaxChunkChars :: nat where "MaxChunkChars = 1600"

record Meta =
  m_ID :: string
  m_Date :: string
  m_Source :: string
  m_Confirmed :: string
  m_Supersedes :: string

record Chunk =
  ck_Path :: string
  ck_Heading :: string
  ck_Line :: nat
  ck_Header :: string
  ck_Body :: string
  ck_Related :: string
  ck_Meta :: Meta

definition no_meta :: Meta where
  "no_meta = \<lparr>m_ID = [], m_Date = [], m_Source = [], m_Confirmed = [], m_Supersedes = []\<rparr>"

function dropStruck :: "string \<Rightarrow> string" where
  "dropStruck [] = []"
| "dropStruck (c # cs) =
     (if c = backquote then
        (case str_index cs [backquote] of
           None \<Rightarrow> c # cs
         | Some end \<Rightarrow> take (end + 2) (c # cs) @ dropStruck (drop (end + 2) (c # cs)))
      else if has_prefix (c # cs) ''~~'' then
        (case str_index (drop 2 (c # cs)) ''~~'' of
           None \<Rightarrow> c # cs
         | Some end \<Rightarrow> '' '' @ dropStruck (drop (end + 4) (c # cs)))
      else c # dropStruck cs)"
  by pat_completeness auto

termination
  by (relation "measure length") auto

declare dropStruck.simps(2) [simp del]

definition Text :: "Chunk \<Rightarrow> string" where
  "Text c =
     (let body = dropStruck (ck_Body c)
      in if ck_Header c = [] then body else ck_Header c @ [newline, newline] @ body)"

definition withTail :: "string \<Rightarrow> string list \<Rightarrow> string list" where
  "withTail tail rest = (if tail = [] then rest else tail # rest)"

text \<open>The loop of \<open>metaBlock\<close>: \<open>first\<close> marks the line the comment opens on, \<open>inner\<close> what was read.\<close>

fun meta_lines :: "bool \<Rightarrow> string list \<Rightarrow> string list \<Rightarrow> (string \<times> string list) option" where
  "meta_lines first inner [] = None"
| "meta_lines first inner (raw # rest) =
     (let trimmed = trim_space raw;
          line = (if first then trim_space (trim_prefix trimmed ''<!--'') else trimmed)
      in if \<not> first \<and> line = [] then None
         else case str_index line ''-->'' of
           None \<Rightarrow> meta_lines False (inner @ [line]) rest
         | Some k \<Rightarrow>
             Some (join_lines (inner @ [trim_space (take k line)]),
                   withTail (trim_space (drop (k + 3) line)) rest))"

definition metaBlock :: "string list \<Rightarrow> nat \<Rightarrow> (string \<times> string list) option" where
  "metaBlock body start = meta_lines True [] (drop start body)"

definition takeMeta :: "string list \<Rightarrow> Meta \<times> string list" where
  "takeMeta body =
     (let start = length (takeWhile (\<lambda>l. trim_space l = []) body) in
      if start = length body \<or> \<not> has_prefix (trim_space (body ! start)) ''<!--'' then (no_meta, body)
      else case metaBlock body start of
        None \<Rightarrow> (no_meta, body)
      | Some (inner, rest) \<Rightarrow>
          (let m = \<lparr>m_ID = scalar inner ''id'', m_Date = scalar inner ''date'',
                    m_Source = scalar inner ''source'', m_Confirmed = scalar inner ''confirmed'',
                    m_Supersedes = scalar inner ''supersedes''\<rparr>
           in if m = no_meta then (no_meta, body) else (m, rest)))"

fun split_loop :: "Chunk \<Rightarrow> nat \<Rightarrow> string list \<Rightarrow> string list \<Rightarrow> nat \<Rightarrow> nat \<Rightarrow> Chunk list" where
  "split_loop c i [] buf sz lineAt =
     (if buf = [] then [] else [c\<lparr>ck_Body := join_lines buf, ck_Line := lineAt\<rparr>])"
| "split_loop c i (line # rest) buf sz lineAt =
     (if MaxChunkChars < sz + length line \<and> buf \<noteq> [] then
        c\<lparr>ck_Body := join_lines buf, ck_Line := lineAt\<rparr> #
        split_loop c (i + 1) rest [line] (length line + 1) (ck_Line c + i)
      else split_loop c (i + 1) rest (buf @ [line]) (sz + length line + 1) lineAt)"

definition split :: "Chunk \<Rightarrow> Chunk list" where
  "split c =
     (if length (Text c) \<le> MaxChunkChars then [c]
      else split_loop c 0 (lines_of (ck_Body c)) [] 0 (ck_Line c))"

definition appendChunk :: "Chunk list \<Rightarrow> Chunk \<Rightarrow> string list \<Rightarrow> Chunk list" where
  "appendChunk chunks c body =
     (let (m, body) = takeMeta body;
          c = c\<lparr>ck_Meta := m, ck_Body := trim_space (join_lines body)\<rparr>
      in if ck_Body c = [] \<and> ck_Heading c = [] then chunks
         else let c = (if ck_Heading c = [] then c
                       else c\<lparr>ck_Header := ck_Header c @ '' / '' @ ck_Heading c\<rparr>)
              in chunks @ split c)"

definition chunkHeader :: "string \<Rightarrow> string \<Rightarrow> string \<Rightarrow> string" where
  "chunkHeader path title kind =
     str_join '' / '' ([trim_suffix path ''.md''] @ (if title = [] then [] else [title]) @
       (if kind = [] then [] else [kind]))"

definition chunk_at :: "string \<Rightarrow> string \<Rightarrow> string \<Rightarrow> string \<Rightarrow> nat \<Rightarrow> Chunk" where
  "chunk_at path heading header related line =
     \<lparr>ck_Path = path, ck_Heading = heading, ck_Line = line, ck_Header = header, ck_Body = [],
      ck_Related = related, ck_Meta = no_meta\<rparr>"

text \<open>
  The loop of \<open>Chunks\<close>: \<open>n\<close> is the line number in the file of the next line, \<open>mk\<close> makes the chunk of a
  heading at a line.
\<close>

fun chunk_loop ::
  "(string \<Rightarrow> nat \<Rightarrow> Chunk) \<Rightarrow> nat \<Rightarrow> string list \<Rightarrow> Chunk list \<Rightarrow> Chunk \<Rightarrow> string list \<Rightarrow> Chunk list" where
  "chunk_loop mk n [] chunks current body = appendChunk chunks current body"
| "chunk_loop mk n (line # rest) chunks current body =
     (if \<not> has_prefix line ''### '' then chunk_loop mk (n + 1) rest chunks current (body @ [line])
      else chunk_loop mk (n + 1) rest (appendChunk chunks current body)
        (mk (trim_space (trim_prefix line ''###'')) n) [])"

definition Chunks :: "string \<Rightarrow> string \<Rightarrow> Chunk list" where
  "Chunks path content =
     (let (front, rest) = frontmatter content;
          header = chunkHeader path (pf_title front) (pf_kind front);
          mk = (\<lambda>heading line. chunk_at path heading header (pf_related front) line)
      in chunk_loop mk (rm_offset rest + 1) (lines_of (rm_text rest)) [] (mk [] (rm_offset rest + 1)) [])"

definition ChunkKey :: "Chunk \<Rightarrow> string" where
  "ChunkKey c = ck_Path c @ ''#'' @ itoa (int (ck_Line c))"

subsection \<open>Dates\<close>

definition parseDay :: "string \<Rightarrow> instant option" where
  "parseDay value = parse_day_layout (trim_space value)"

definition looksLikeDay :: "string \<Rightarrow> bool" where
  "looksLikeDay s \<longleftrightarrow>
     s ! 4 = CHR ''-'' \<and> s ! 7 = CHR ''-'' \<and> list_all (\<lambda>i. is_digit (s ! i)) [0, 1, 2, 3, 5, 6, 8, 9]"

fun latest_from :: "string \<Rightarrow> nat list \<Rightarrow> instant \<Rightarrow> instant" where
  "latest_from line [] best = best"
| "latest_from line (i # is) best =
     (let s = take 10 (drop i line) in
      latest_from line is
        (if \<not> looksLikeDay s then best
         else case parseDay s of None \<Rightarrow> best | Some d \<Rightarrow> if best < d then d else best))"

definition latestDay :: "string \<Rightarrow> instant option" where
  "latestDay line =
     (let best = latest_from line [0..<length line - 9] zero_time
      in if best = zero_time then None else Some best)"

fun prose_lines :: "string list \<Rightarrow> instant" where
  "prose_lines [] = zero_time"
| "prose_lines (line # rest) =
     (if \<not> has_prefix (trim_space line) ''**Date**'' then prose_lines rest
      else case latestDay line of Some d \<Rightarrow> d | None \<Rightarrow> prose_lines rest)"

definition proseDate :: "string \<Rightarrow> instant" where
  "proseDate body = prose_lines (lines_of body)"

definition chunk_Date :: "Chunk \<Rightarrow> instant" where
  "chunk_Date c =
     (case parseDay (m_Confirmed (ck_Meta c)) of
        Some d \<Rightarrow> d
      | None \<Rightarrow> (case parseDay (m_Date (ck_Meta c)) of Some d \<Rightarrow> d | None \<Rightarrow> proseDate (ck_Body c)))"

definition supersededIDs :: "Chunk list \<Rightarrow> string list" where
  "supersededIDs chunks =
     filter (\<lambda>i. i \<noteq> [])
       (map trim_space (concat (map (\<lambda>c. split_on CHR '','' (m_Supersedes (ck_Meta c))) chunks)))"

definition DayString :: "instant \<Rightarrow> string" where
  "DayString at = (if at = zero_time then [] else format_day at)"

end
