(* ===== verification/WikiWrite.thy ===== *)
theory WikiWrite
  imports WikiPage Effects
begin

text \<open>
  Filing a finding: \<open>write.go\<close>, \<open>bookkeeping.go\<close>, \<open>atomic.go\<close> and the check of \<open>language.go\<close> in
  \<open>internal/memory\<close>. The wiki is a map from page keys, slash-separated paths below its root, to
  contents. A staged file has a name of its own and is no page. Every effect, a read, the staging of
  a file, a rename, a removal, ends as the next entry of the script \<open>wk_ops\<close> says. The time of a
  finding is the wall clock of the caller's zone.
\<close>

record wiki =
  wk_files :: "(string, string) gomap"
  wk_temps :: "(nat, string) gomap"
  wk_next :: nat
  wk_ops :: "outcome list"

datatype wiki_error =
    NeedsField string
  | ReadsAsFrench string
  | NotInWiki string
  | WikiBusy
  | CannotFile string
  | NoHeader string
  | HeaderOpen string
  | StageError string
  | WriteError string

subsection \<open>Bookkeeping\<close>

definition stamp_line :: "string \<Rightarrow> string" where
  "stamp_line today = ''updated: '' @ today"

text \<open>The loop of \<open>bumpUpdated\<close> over the lines of the header.\<close>

fun stamp_lines :: "string \<Rightarrow> string list \<Rightarrow> string list option" where
  "stamp_lines today [] = None"
| "stamp_lines today (line # rest) =
     (if has_prefix line ''updated:'' then Some (stamp_line today # rest)
      else map_option ((#) line) (stamp_lines today rest))"

definition bumpUpdated :: "string \<Rightarrow> string \<Rightarrow> string \<Rightarrow> wiki_error + string" where
  "bumpUpdated key content today =
     (if \<not> has_prefix content fence then Inl (NoHeader key)
      else case str_index (drop 4 content) closing of
        None \<Rightarrow> Inl (HeaderOpen key)
      | Some end \<Rightarrow>
          (let head = lines_of (take end (drop 4 content)); rest = drop (4 + end) content
           in Inr (fence @ join_lines (case stamp_lines today head of
                                         Some head' \<Rightarrow> head'
                                       | None \<Rightarrow> head @ [stamp_line today]) @ rest)))"

text \<open>\<open>insertInSection\<close>: \<open>section_start\<close> and \<open>section_end\<close> are its two searches.\<close>

definition section_start :: "string \<Rightarrow> string list \<Rightarrow> nat option" where
  "section_start head ls =
     (let i = length (takeWhile (\<lambda>l. trim_space l \<noteq> head) ls)
      in if i < length ls then Some (i + 1) else None)"

definition section_end :: "nat \<Rightarrow> string list \<Rightarrow> nat" where
  "section_end start ls =
     (let entries = takeWhile (\<lambda>l. \<not> has_prefix l ''## '') (drop start ls)
      in start + length (rev (dropWhile (\<lambda>l. trim_space l = []) (rev entries))))"

definition insertInSection :: "string \<Rightarrow> string \<Rightarrow> string \<Rightarrow> string" where
  "insertInSection index sec line =
     (let head = ''## '' @ sec in
      if trim_space index = [] then join_lines [head, [], line] @ [newline]
      else let ls = lines_of (trim_newlines index) in
        case section_start head ls of
          None \<Rightarrow> join_lines (ls @ [[], head, [], line]) @ [newline]
        | Some start \<Rightarrow>
            (let e = section_end start ls
             in join_lines (take e ls @ [line] @ drop e ls) @ [newline]))"

definition section_of :: "string \<Rightarrow> string" where
  "section_of page =
     (case str_cut page ''/'' of
        Some (dir, _) \<Rightarrow> if dir \<noteq> [] then to_upper (take 1 dir) @ drop 1 dir else ''Pages''
      | None \<Rightarrow> ''Pages'')"

definition pointer_line :: "string \<Rightarrow> string \<Rightarrow> string \<Rightarrow> string" where
  "pointer_line page pageTitle finding =
     (let title = trim_space pageTitle;
          name = (if title = [] then trim_suffix (path_base page) ''.md'' else title)
      in ''- ['' @ name @ ''](''@ page @ ''): '' @ trim_space finding)"

definition indexPointer :: "string \<Rightarrow> string \<Rightarrow> string \<Rightarrow> string \<Rightarrow> string \<times> bool" where
  "indexPointer index page pageTitle finding =
     (if str_contains index (''('' @ page @ '')'') then (index, False)
      else (insertInSection index (section_of page) (pointer_line page pageTitle finding), True))"

definition logOperation :: string where "logOperation = ''ingest''"

definition log_line :: "string \<Rightarrow> string \<Rightarrow> string" where
  "log_line today description =
     ''## ['' @ today @ ''] '' @ logOperation @ '' | '' @ trim_space description @ [newline]"

definition appendLog :: "string \<Rightarrow> string \<Rightarrow> string \<Rightarrow> string" where
  "appendLog content today description =
     (if trim_space content = [] then log_line today description
      else trim_newlines content @ [newline] @ log_line today description)"

subsection \<open>The language check\<close>

definition langMinWords :: nat where "langMinWords = 6"
definition langMinFrench :: nat where "langMinFrench = 3"
definition langExemptMarker :: string where "langExemptMarker = ''lang:fr''"

text \<open>The words with an accent are written as their bytes in UTF-8.\<close>

definition frenchFunctionWords :: "string list" where
  "frenchFunctionWords =
     [''afin'', ''ainsi'', ''alors'', ''aux'', ''avait'',
      ''avec'', ''cela'', ''celui'', ''ces'', ''cet'',
      ''cette'', ''ceux'', ''chaque'', ''dans'', ''des'',
      ''deux'', ''doit'', ''donc'', ''dont'', [CHR ''d'', CHR 195, CHR 169, CHR ''j'', CHR 195, CHR 160],
      ''elle'', ''encore'', ''entre'', ''est'', ''fait'',
      ''faut'', ''ils'', ''jamais'', ''la'', ''le'',
      ''les'', ''leur'', ''lorsque'', ''mais'', [CHR ''m'', CHR 195, CHR 170, CHR ''m'', CHR ''e''],
      ''ne'', ''nous'', ''par'', ''parce'', ''pas'',
      ''peut'', ''plus'', ''pour'', ''puis'', ''quand'',
      ''qui'', ''quoi'', ''sans'', ''ses'', ''sont'',
      ''sur'', ''tout'', ''toute'', ''une'', ''vous'',
      [CHR 195, CHR 169, CHR ''t'', CHR ''a'', CHR ''i'', CHR ''t''],
      [CHR 195, CHR 170, CHR ''t'', CHR ''r'', CHR ''e'']]"

text \<open>The characters of \<open>punctuation\<close>, each as its bytes: ASCII, guillemets, ellipsis and dashes.\<close>

definition punctuation :: "string list" where
  "punctuation =
     map (\<lambda>c. [c]) (''.,;:!?()[]{}<>'' @ [dquote, CHR 39, backquote] @ ''*_~'') @
     [[CHR 194, CHR 171], [CHR 194, CHR 187], [CHR 226, CHR 128, CHR 166],
      [CHR 226, CHR 128, CHR 148], [CHR 226, CHR 128, CHR 147], ''-'']"

text \<open>
  \<open>strings.Trim\<close> with that cutset, from both ends. The bytes of one character are never the tail of
  another's, so on text in UTF-8 taking encodings off an end takes characters off.
\<close>

function trim_chars :: "string list \<Rightarrow> string \<Rightarrow> string" where
  "trim_chars cs s =
     (case find (\<lambda>p. p \<noteq> [] \<and> has_prefix s p) cs of
        None \<Rightarrow> s
      | Some p \<Rightarrow> trim_chars cs (drop (length p) s))"
  by pat_completeness auto

termination
  by (relation "measure (\<lambda>(cs, s). length s)") (auto simp: find_Some_iff has_prefix_iff)

declare trim_chars.simps [simp del]

definition trim_punctuation :: "string \<Rightarrow> string" where
  "trim_punctuation s = rev (trim_chars (map rev punctuation) (rev (trim_chars punctuation s)))"

definition isOpaqueToken :: "string \<Rightarrow> bool" where
  "isOpaqueToken token \<longleftrightarrow>
     (\<exists>r\<in>set token. r \<in> set (''/'' @ [CHR 92] @ '':@=#$%+|'')) \<or>
     (\<exists>r\<in>set (trim_punctuation token). r \<in> set ''_.-'')"

fun Fields :: "string \<Rightarrow> string \<Rightarrow> string list" where
  "Fields word [] = (if word = [] then [] else [word])"
| "Fields word (c # cs) =
     (if is_space_byte c then (if word = [] then [] else [word]) @ Fields [] cs
      else Fields (word @ [c]) cs)"

definition countFrench :: "string \<Rightarrow> nat \<times> nat" where
  "countFrench line =
     (let words = filter (\<lambda>w. w \<noteq> [])
            (map (\<lambda>t. to_lower (trim_punctuation t)) (filter (\<lambda>t. \<not> isOpaqueToken t) (Fields [] line)))
      in (length words, length (filter (\<lambda>w. w \<in> set frenchFunctionWords) words)))"

text \<open>
  The ratio is compared in whole numbers: the quotient of two counts, rounded to a float, is at least
  the float nearest to 0.12 exactly when the quotient is at least 3/25.
\<close>

definition lineIsFrench :: "string \<Rightarrow> bool" where
  "lineIsFrench line \<longleftrightarrow>
     \<not> str_contains line langExemptMarker \<and>
     (case countFrench line of (words, hits) \<Rightarrow>
        langMinWords \<le> words \<and> langMinFrench \<le> hits \<and> 12 * words \<le> 100 * hits)"

definition FrenchLines :: "string \<Rightarrow> nat list" where
  "FrenchLines content =
     map (\<lambda>(i, l). i + 1) (filter (\<lambda>(i, l). lineIsFrench l) (enumerate 0 (lines_of content)))"

definition refuseFrench :: "string \<Rightarrow> wiki_error option" where
  "refuseFrench text =
     (case FrenchLines text of
        [] \<Rightarrow> None
      | n # _ \<Rightarrow> Some (ReadsAsFrench (lines_of text ! (n - 1))))"

subsection \<open>Effects\<close>

type_synonym 'a wiki_io = "(wiki_error, 'a, wiki) io"

definition next_op :: "wiki \<Rightarrow> outcome \<times> wiki" where
  "next_op w = (case wk_ops w of [] \<Rightarrow> (Done, w) | o' # os \<Rightarrow> (o', w\<lparr>wk_ops := os\<rparr>))"

text \<open>
  \<open>os.ReadFile\<close>: the bytes read and whether it failed. A read that breaks off leaves what it had.
\<close>

definition read_page :: "string \<Rightarrow> wiki \<Rightarrow> (string \<times> bool) \<times> wiki" where
  "read_page key w =
     (case next_op w of (o', w) \<Rightarrow>
        (case lookup (wk_files w) key of
           None \<Rightarrow> (([], False), w)
         | Some d \<Rightarrow>
             (case o' of
                Done \<Rightarrow> ((d, True), w)
              | Broken t \<Rightarrow> ((t, False), w)
              | _ \<Rightarrow> (([], False), w))))"

definition ReadFile :: "string \<Rightarrow> wiki_error \<Rightarrow> string wiki_io" where
  "ReadFile key e w = (case read_page key w of ((d, ok), w) \<Rightarrow> (if ok then Inr d else Inl e, w))"

definition readOrEmpty :: "string \<Rightarrow> string wiki_io" where
  "readOrEmpty key w = (case read_page key w of ((d, _), w) \<Rightarrow> (Inr d, w))"

subsection \<open>Staging and renaming\<close>

record edit =
  ed_path :: string
  ed_data :: string
  ed_tmp :: nat

definition edit_of :: "string \<Rightarrow> string \<Rightarrow> edit" where
  "edit_of path data = \<lparr>ed_path = path, ed_data = data, ed_tmp = 0\<rparr>"

definition remove_temp :: "nat \<Rightarrow> wiki \<Rightarrow> wiki" where
  "remove_temp t w =
     (case next_op w of (o', w) \<Rightarrow>
        if o' = Done then w\<lparr>wk_temps := AList.delete t (wk_temps w)\<rparr> else w)"

definition create_temp :: "string \<Rightarrow> wiki \<Rightarrow> nat \<times> wiki" where
  "create_temp d w =
     (wk_next w, w\<lparr>wk_temps := AList.update (wk_next w) d (wk_temps w), wk_next := wk_next w + 1\<rparr>)"

text \<open>
  \<open>stage\<close>: the file cannot be created, or one of the steps after that fails and it is removed again.
\<close>

definition stage :: "edit \<Rightarrow> edit wiki_io" where
  "stage f w =
     (case next_op w of (o', w) \<Rightarrow>
        (case o' of
           Done \<Rightarrow> (case create_temp (ed_data f) w of (t, w) \<Rightarrow> (Inr (f\<lparr>ed_tmp := t\<rparr>), w))
         | Refused \<Rightarrow> (Inl (StageError (ed_path f)), w)
         | Broken d \<Rightarrow>
             (case create_temp d w of (t, w) \<Rightarrow> (Inl (StageError (ed_path f)), remove_temp t w))
         | Lost \<Rightarrow>
             (case create_temp (ed_data f) w of (t, w) \<Rightarrow>
                (Inl (StageError (ed_path f)), remove_temp t w))))"

fun stage_all :: "edit list \<Rightarrow> edit list \<Rightarrow> wiki \<Rightarrow> (wiki_error option \<times> edit list) \<times> wiki" where
  "stage_all [] ready w = ((None, ready), w)"
| "stage_all (f # fs) ready w =
     (case stage f w of
        (Inl e, w) \<Rightarrow> ((Some e, ready), w)
      | (Inr staged, w) \<Rightarrow> stage_all fs (ready @ [staged]) w)"

definition rename_edit :: "edit \<Rightarrow> unit wiki_io" where
  "rename_edit e w =
     (case next_op w of (o', w) \<Rightarrow>
        (case lookup (wk_temps w) (ed_tmp e) of
           None \<Rightarrow> (Inl (WriteError (ed_path e)), w)
         | Some d \<Rightarrow>
             (if o' = Done
              then (Inr (), w\<lparr>wk_files := AList.update (ed_path e) d (wk_files w),
                              wk_temps := AList.delete (ed_tmp e) (wk_temps w)\<rparr>)
              else (Inl (WriteError (ed_path e)), w))))"

definition remove_all :: "edit list \<Rightarrow> wiki \<Rightarrow> wiki" where
  "remove_all ready w = fold (\<lambda>e. remove_temp (ed_tmp e)) ready w"

definition writeAll :: "edit list \<Rightarrow> unit wiki_io" where
  "writeAll files w =
     (case stage_all files [] w of
        ((Some e, ready), w) \<Rightarrow> (Inl e, remove_all ready w)
      | ((None, ready), w) \<Rightarrow>
          (case io_each rename_edit ready w of (r, w) \<Rightarrow> (r, remove_all ready w)))"

subsection \<open>Filing a finding\<close>

definition indexFile :: string where "indexFile = ''index.md''"
definition logFile :: string where "logFile = ''log.md''"

record Finding =
  fi_Page :: string
  fi_Title :: string
  fi_Source :: string
  fi_Body :: string
  fi_Log :: string

record AddResult =
  ar_Page :: string
  ar_Indexed :: bool
  ar_SyncErr :: "string option"

definition findingBlock :: "Finding \<Rightarrow> string \<Rightarrow> string" where
  "findingBlock f today =
     ''### '' @ trim_space (fi_Title f) @ [newline] @ ''**Date**: '' @ today @ [newline] @
     ''**Source**: '' @ trim_space (fi_Source f) @ [newline] @ trim_space (fi_Body f) @ [newline]"

definition validate_finding :: "Finding \<Rightarrow> wiki_error option" where
  "validate_finding f =
     first_error (\<lambda>(v, what). if trim_space v = [] then Some (NeedsField what) else None)
       [(fi_Page f, ''a page''), (fi_Title f, ''--title''), (fi_Source f, ''--source''),
        (fi_Body f, ''--body or --body-stdin''), (fi_Log f, ''--log'')]"

definition pageKey :: "string \<Rightarrow> wiki_error + string" where
  "pageKey path =
     (let key = path_Clean path in
      if has_prefix path ''/'' \<or> key = ''..'' \<or> has_prefix key ''../'' then Inl (NotInWiki path)
      else Inr key)"

definition pagePath :: "string \<Rightarrow> wiki_error + string" where
  "pagePath page =
     (case pageKey page of
        Inl e \<Rightarrow> Inl e
      | Inr key \<Rightarrow> Inr (if has_suffix key ''.md'' then key else key @ ''.md''))"

definition io_sum :: "('e + 'a) \<Rightarrow> ('e, 'a, 'w) io" where
  "io_sum x w = (x, w)"

definition lockWiki :: "unit wiki_io" where
  "lockWiki w = (case next_op w of (o', w) \<Rightarrow> (if o' = Done then Inr () else Inl WikiBusy, w))"

definition fileFinding :: "Finding \<Rightarrow> string \<Rightarrow> string \<Rightarrow> AddResult wiki_io" where
  "fileFinding f today block =
     io_bind (io_sum (pagePath (fi_Page f))) (\<lambda>key.
     io_then lockWiki
     (io_bind (ReadFile key (CannotFile key)) (\<lambda>page.
      io_bind (io_sum (bumpUpdated key page today)) (\<lambda>stamped.
      io_bind (readOrEmpty indexFile) (\<lambda>index.
      let (nextIndex, pointed) = indexPointer index key (pf_title (fst (frontmatter page))) (fi_Title f) in
      io_bind (readOrEmpty logFile) (\<lambda>history.
      io_then (writeAll
        [edit_of key (trim_newlines stamped @ [newline, newline] @ block),
         edit_of indexFile nextIndex,
         edit_of logFile (appendLog history today (fi_Log f))])
      (io_return \<lparr>ar_Page = key, ar_Indexed = pointed, ar_SyncErr = None\<rparr>)))))))"

text \<open>\<open>push\<close> is the follow-up sync, if one was passed, and the error it ends with.\<close>

definition Add :: "Finding \<Rightarrow> instant \<Rightarrow> (wiki \<Rightarrow> string option \<times> wiki) option \<Rightarrow> AddResult wiki_io" where
  "Add f now push =
     (case validate_finding f of
        Some e \<Rightarrow> io_fail e
      | None \<Rightarrow>
          (let today = format_day now; block = findingBlock f today in
           case refuseFrench (block @ [newline] @ fi_Log f) of
             Some e \<Rightarrow> io_fail e
           | None \<Rightarrow>
               io_bind (fileFinding f today block) (\<lambda>res w.
                 case push of
                   None \<Rightarrow> (Inr res, w)
                 | Some p \<Rightarrow> (case p w of (err, w) \<Rightarrow> (Inr (res\<lparr>ar_SyncErr := err\<rparr>), w)))))"

end
