(* ===== verification/WikiPageFacts.thy ===== *)
theory WikiPageFacts
  imports WikiPage
begin

text \<open>
  What the chunks of a page are: where they point, and what is left of the page in them.
\<close>

subsection \<open>Lines\<close>

lemma length_split_on: "length (split_on c s) = count_byte c s + 1"
  by (induction s) (auto simp: count_byte_def split: list.splits)

lemma count_byte_append [simp]: "count_byte c (a @ b) = count_byte c a + count_byte c b"
  by (simp add: count_byte_def)

lemma count_byte_Nil [simp]: "count_byte c [] = 0"
  by (simp add: count_byte_def)

lemma count_byte_zero: "c \<notin> set s \<Longrightarrow> count_byte c s = 0"
  by (auto simp: count_byte_def filter_empty_conv)

lemma count_byte_join:
  "ls \<noteq> [] \<Longrightarrow> list_all (\<lambda>l. c \<notin> set l) ls \<Longrightarrow> count_byte c (str_join [c] ls) = length ls - 1"
  by (induction "[c]" ls rule: str_join.induct) (auto simp: count_byte_zero, simp add: count_byte_def)

lemma trim_right_append: "\<exists>t. s = trim_right P s @ t \<and> list_all P t"
proof (intro exI conjI)
  show "s = trim_right P s @ rev (takeWhile P (rev s))"
    unfolding trim_right_def by (metis rev_append rev_rev_ident takeWhile_dropWhile_id)
  show "list_all P (rev (takeWhile P (rev s)))"
    by (auto simp: list_all_iff dest: set_takeWhileD)
qed

lemma trim_left_append: "\<exists>t. s = t @ trim_left P s \<and> list_all P t"
  by (rule exI [where x = "takeWhile P s"]) (auto simp: trim_left_def list_all_iff dest: set_takeWhileD)

lemma count_byte_trim: "count_byte c (trim_space s) \<le> count_byte c s"
proof -
  obtain t u where "s = t @ trim_left is_space_byte s"
    "trim_left is_space_byte s = trim_space s @ u"
    using trim_left_append trim_right_append unfolding trim_space_def by metis
  then have "s = t @ trim_space s @ u" by simp
  then have "count_byte c s = count_byte c (t @ trim_space s @ u)" by simp
  then show ?thesis by simp
qed

lemma set_trim_space: "set (trim_space s) \<subseteq> set s"
  by (auto simp: trim_space_def trim_right_def trim_left_def dest!: set_dropWhileD)

definition clean_lines :: "string list \<Rightarrow> bool" where
  "clean_lines ls \<longleftrightarrow> list_all (\<lambda>l. newline \<notin> set l) ls"

lemma clean_lines_simps [simp]:
  "clean_lines []" "clean_lines (l # ls) \<longleftrightarrow> newline \<notin> set l \<and> clean_lines ls"
  "clean_lines (ls @ ls') \<longleftrightarrow> clean_lines ls \<and> clean_lines ls'"
  by (auto simp: clean_lines_def)

lemma clean_lines_of [simp]: "clean_lines (lines_of s)"
  using split_on_no_sep by (force simp: clean_lines_def list_all_iff)

lemma clean_lines_drop: "clean_lines ls \<Longrightarrow> clean_lines (drop n ls)"
  by (auto simp: clean_lines_def list_all_iff dest: in_set_dropD)

lemma lines_join [simp]: "ls \<noteq> [] \<Longrightarrow> clean_lines ls \<Longrightarrow> lines_of (join_lines ls) = ls"
  by (rule split_join) (auto simp: clean_lines_def list_all_iff)

subsection \<open>The metadata comment\<close>

lemma meta_lines_length:
  "meta_lines first inner ls = Some (m, rest) \<Longrightarrow> length rest \<le> length ls \<and> (clean_lines ls \<longrightarrow> clean_lines rest)"
proof (induction first inner ls rule: meta_lines.induct)
  case (2 first inner raw rest')
  define line where "line = (if first then trim_space (trim_prefix (trim_space raw) ''<!--'') else trim_space raw)"
  have sub: "set line \<subseteq> set raw"
    unfolding line_def trim_prefix_def using set_trim_space
    by (auto split: if_splits) (meson in_set_dropD set_trim_space subsetD)+
  show ?case
  proof (cases "str_index line ''-->''")
    case None
    then show ?thesis using 2 by (fastforce simp: Let_def line_def split: if_splits)
  next
    case (Some k)
    then have "rest = withTail (trim_space (drop (k + 3) line)) rest'"
      using 2 by (auto simp: Let_def line_def split: if_splits)
    moreover have "set (trim_space (drop (k + 3) line)) \<subseteq> set raw"
      using set_trim_space set_drop_subset sub by (meson order_trans)
    ultimately show ?thesis by (auto simp: withTail_def)
  qed
qed simp

lemma takeMeta_length:
  assumes "takeMeta body = (m, rest)"
  shows "length rest \<le> length body" "clean_lines body \<Longrightarrow> clean_lines rest"
proof -
  have "length rest \<le> length body \<and> (clean_lines body \<longrightarrow> clean_lines rest)"
  proof (cases "rest = body")
    case False
    then obtain inner start where "metaBlock body start = Some (inner, rest)"
      using assms by (auto simp: takeMeta_def Let_def split: if_splits option.splits)
    then show ?thesis
      by (auto simp: metaBlock_def dest!: meta_lines_length intro: clean_lines_drop)
  qed simp
  then show "length rest \<le> length body" "clean_lines body \<Longrightarrow> clean_lines rest" by auto
qed

subsection \<open>The parts of a block\<close>

definition same_block :: "Chunk \<Rightarrow> Chunk \<Rightarrow> bool" where
  "same_block c d \<longleftrightarrow> c\<lparr>ck_Body := [], ck_Line := 0\<rparr> = d\<lparr>ck_Body := [], ck_Line := 0\<rparr>"

lemma split_loop_lines:
  assumes "buf \<noteq> [] \<Longrightarrow> lineAt < ck_Line c + i" and "buf = [] \<Longrightarrow> lineAt = ck_Line c + i"
  shows "sorted_wrt (<) (map ck_Line (split_loop c i ls buf sz lineAt)) \<and>
    set (map ck_Line (split_loop c i ls buf sz lineAt)) \<subseteq> {lineAt..<ck_Line c + i + length ls}"
  using assms
proof (induction c i ls buf sz lineAt rule: split_loop.induct)
  case (2 c i line rest buf sz lineAt)
  show ?case
  proof (cases "MaxChunkChars < sz + length line \<and> buf \<noteq> []")
    case True
    then show ?thesis using 2 by fastforce
  next
    case False
    then have "lineAt < ck_Line c + (i + 1)" using 2(3,4) by (cases "buf = []") auto
    then show ?thesis using False 2(2) by fastforce
  qed
qed auto

lemma split_lines:
  "sorted_wrt (<) (map ck_Line (split c))"
  "set (map ck_Line (split c)) \<subseteq> {ck_Line c..<ck_Line c + length (lines_of (ck_Body c))}"
  using split_loop_lines [of "[]" "ck_Line c" c 0 "lines_of (ck_Body c)" 0]
  by (auto simp: split_def length_split_on)

lemma split_loop_keep:
  "\<not> (MaxChunkChars < sz + length line \<and> buf \<noteq> []) \<Longrightarrow> split_loop c i (line # rest) buf sz lineAt =
   split_loop c (i + 1) rest (buf @ [line]) (sz + length line + 1) lineAt"
  by (simp only: split_loop.simps if_False)

lemma split_loop_bodies:
  assumes "ls \<noteq> [] \<or> buf \<noteq> []"
  shows "join_lines (map ck_Body (split_loop c i ls buf sz lineAt)) = join_lines (buf @ ls) \<and>
    split_loop c i ls buf sz lineAt \<noteq> []"
  using assms
proof (induction c i ls buf sz lineAt rule: split_loop.induct)
  case (2 c i line rest buf sz lineAt)
  have join: "join_lines (a @ b) = join_lines a @ [newline] @ join_lines b" if "a \<noteq> []" "b \<noteq> []" for a b
    using that by (induction "[newline]" a rule: str_join.induct) (auto simp: neq_Nil_conv)
  show ?case
  proof (cases "MaxChunkChars < sz + length line \<and> buf \<noteq> []")
    case True
    let ?r = "split_loop c (i + 1) rest [line] (length line + 1) (ck_Line c + i)"
    have r: "join_lines (map ck_Body ?r) = join_lines (line # rest)" "?r \<noteq> []" using 2(1) [OF True] by auto
    have "join_lines (join_lines buf # map ck_Body ?r) = join_lines buf @ [newline] @ join_lines (map ck_Body ?r)"
      using join [of "[join_lines buf]" "map ck_Body ?r"] r(2) by simp
    then show ?thesis using True r join [of buf "line # rest"] by simp
  next
    case False
    show ?thesis using 2(2) [OF False] by (simp add: split_loop_keep [OF False] del: split_loop.simps)
  qed
qed simp

lemma split_loop_same: "\<forall>p\<in>set (split_loop c i ls buf sz lineAt). same_block p c"
  by (induction c i ls buf sz lineAt rule: split_loop.induct) (auto simp: same_block_def)

lemma length_join_lines_snoc:
  "length (join_lines (ls @ [l])) = (if ls = [] then length l else length (join_lines ls) + 1 + length l)"
  by (induction "[newline]" ls rule: str_join.induct) auto

lemma split_loop_bound:
  assumes "sz = (if buf = [] then 0 else length (join_lines buf) + 1)"
    and "length (join_lines buf) \<le> MaxChunkChars \<or> length buf \<le> 1" and "clean_lines (buf @ ls)"
  shows "\<forall>p\<in>set (split_loop c i ls buf sz lineAt).
    length (ck_Body p) \<le> MaxChunkChars \<or> newline \<notin> set (ck_Body p)"
  using assms
proof (induction c i ls buf sz lineAt rule: split_loop.induct)
  case (1 c i buf sz lineAt)
  then show ?case by (cases buf; cases "tl buf") auto
next
  case (2 c i line rest buf sz lineAt)
  have buf: "length (join_lines buf) \<le> MaxChunkChars \<or> newline \<notin> set (join_lines buf)" 
    using 2(4,5) by (cases buf; cases "tl buf") auto
  show ?case
  proof (cases "MaxChunkChars < sz + length line \<and> buf \<noteq> []")
    case True
    have "\<forall>p\<in>set (split_loop c (i + 1) rest [line] (length line + 1) (ck_Line c + i)).
        length (ck_Body p) \<le> MaxChunkChars \<or> newline \<notin> set (ck_Body p)"
      by (rule 2(1) [OF True]) (use 2(5) in auto)
    then show ?thesis using True buf by simp
  next
    case False
    have sz: "sz + length line + 1 = (if buf @ [line] = [] then 0 else length (join_lines (buf @ [line])) + 1)"
      using 2(3) by (simp add: length_join_lines_snoc)
    have small: "length (join_lines (buf @ [line])) \<le> MaxChunkChars \<or> length (buf @ [line]) \<le> 1"
    proof (cases "buf = []")
      case False
      then have "sz + length line \<le> MaxChunkChars"
        using \<open>\<not> (MaxChunkChars < sz + length line \<and> buf \<noteq> [])\<close> by simp
      then show ?thesis using sz by simp
    qed simp
    have clean: "clean_lines ((buf @ [line]) @ rest)" using 2(5) by simp
    show ?thesis
      unfolding split_loop_keep [OF False] by (rule 2(2) [OF False sz small clean])
  qed
qed

subsection \<open>Retracted text\<close>

lemma dropStruck_step:
  "c \<noteq> backquote \<Longrightarrow> \<not> has_prefix (c # cs) ''~~'' \<Longrightarrow> dropStruck (c # cs) = c # dropStruck cs"
  by (simp only: dropStruck.simps(2) if_False)

lemma dropStruck_length: "length (dropStruck s) \<le> length s"
proof (induction s rule: dropStruck.induct)
  case (2 c cs)
  consider (code) "c = backquote" | (struck) "c \<noteq> backquote" "has_prefix (c # cs) ''~~''"
    | (plain) "c \<noteq> backquote" "\<not> has_prefix (c # cs) ''~~''" by blast
  then show ?case
  proof cases
    case code
    show ?thesis
    proof (cases "str_index cs [backquote]")
      case (Some e)
      then have "e + 1 \<le> length cs" by (auto dest!: str_index_length)
      then show ?thesis using code Some 2(1) [OF code Some] by (simp add: dropStruck.simps(2))
    qed (use code in \<open>simp add: dropStruck.simps(2)\<close>)
  next
    case struck
    show ?thesis
    proof (cases "str_index (drop 2 (c # cs)) ''~~''")
      case (Some e)
      then have "e + 4 \<le> length (c # cs)"
        using struck(2) by (auto dest!: str_index_length simp: has_prefix_iff)
      then show ?thesis using struck Some 2(2) [OF struck Some] by (simp add: dropStruck.simps(2))
    qed (use struck in \<open>simp add: dropStruck.simps(2)\<close>)
  next
    case plain
    then show ?thesis using 2(3) by (simp add: dropStruck_step)
  qed
qed simp

lemma dropStruck_plain: "CHR ''~'' \<notin> set s \<Longrightarrow> dropStruck s = s"
proof (induction s rule: dropStruck.induct)
  case (2 c cs)
  have noprefix: "\<not> has_prefix (c # cs) ''~~''" using 2(4) by auto
  show ?case
  proof (cases "c = backquote")
    case True
    show ?thesis
    proof (cases "str_index cs [backquote]")
      case None
      then show ?thesis using True by (simp add: dropStruck.simps(2))
    next
      case (Some e)
      have "dropStruck (drop (e + 2) (c # cs)) = drop (e + 2) (c # cs)"
        by (rule 2(1) [OF True Some]) (use 2(4) in \<open>auto dest: in_set_dropD\<close>)
      then show ?thesis using True Some by (simp add: dropStruck.simps(2))
    qed
  next
    case False
    then show ?thesis using 2(3) [OF False noprefix] 2(4) by (simp add: dropStruck_step [OF False noprefix])
  qed
qed simp

subsection \<open>The chunks of a page\<close>

lemma appendChunk_acc: "appendChunk chunks c body = chunks @ appendChunk [] c body"
  by (simp add: appendChunk_def Let_def split: prod.splits)

lemma chunk_loop_acc: "chunk_loop mk n ls chunks current body = chunks @ chunk_loop mk n ls [] current body"
proof (induction ls arbitrary: n chunks current body)
  case Nil
  show ?case unfolding chunk_loop.simps by (rule appendChunk_acc)
next
  case (Cons line ls)
  show ?case
  proof (cases "has_prefix line ''### ''")
    case True
    let ?next = "mk (trim_space (trim_prefix line ''###'')) n"
    have "chunk_loop mk n (line # ls) cs current body =
        cs @ appendChunk [] current body @ chunk_loop mk (n + 1) ls [] ?next []" for cs
      using True Cons.IH [of "n + 1" "appendChunk cs current body" ?next "[]"]
      by (simp add: appendChunk_acc [of cs])
    then show ?thesis by simp
  next
    case False
    then show ?thesis using Cons.IH [of "n + 1" chunks current "body @ [line]"] by simp
  qed
qed

lemma chunk_loop_heading:
  "has_prefix line ''### '' \<Longrightarrow> chunk_loop mk n (line # ls) [] current body =
   appendChunk [] current body @
   chunk_loop mk (n + 1) ls [] (mk (trim_space (trim_prefix line ''###'')) n) []"
  using chunk_loop_acc [of mk "n + 1" ls "appendChunk [] current body"] by simp

lemma appendChunk_lines:
  assumes "clean_lines body" and "ck_Body c = []"
  shows "sorted_wrt (<) (map ck_Line (appendChunk [] c body))"
    "set (map ck_Line (appendChunk [] c body)) \<subseteq>
       {ck_Line c..<ck_Line c + (if ck_Heading c = [] then length body else max 1 (length body))}"
proof -
  obtain m rest where meta: "takeMeta body = (m, rest)" by fastforce
  let ?c = "c\<lparr>ck_Meta := m, ck_Body := trim_space (join_lines rest)\<rparr>"
  let ?d = "if ck_Heading c = [] then ?c else ?c\<lparr>ck_Header := ck_Header c @ '' / '' @ ck_Heading c\<rparr>"
  have eq: "appendChunk [] c body = (if ck_Body ?c = [] \<and> ck_Heading c = [] then [] else split ?d)"
    by (simp add: appendChunk_def meta Let_def)
  have d: "ck_Line ?d = ck_Line c" "ck_Body ?d = trim_space (join_lines rest)" by simp_all
  note sp = split_lines [of ?d, unfolded d]
  have len: "length (lines_of (trim_space (join_lines rest))) \<le> (if rest = [] then 1 else length rest)"
  proof (cases "rest = []")
    case True
    then show ?thesis by (simp add: trim_space_def trim_right_def trim_left_def)
  next
    case False
    have "clean_lines rest" using takeMeta_length(2) [OF meta assms(1)] .
    then have "count_byte newline (join_lines rest) = length rest - 1"
      using False by (simp add: count_byte_join clean_lines_def)
    then show ?thesis
      using count_byte_trim [of newline "join_lines rest"] length_greater_0_conv [of rest] False
      unfolding length_split_on if_not_P [OF False] by linarith
  qed
  have rest: "length rest \<le> length body" using takeMeta_length(1) [OF meta] .
  have nonempty: "rest \<noteq> []" if "trim_space (join_lines rest) \<noteq> []"
    using that by (auto simp: trim_space_def trim_right_def trim_left_def)
  show "sorted_wrt (<) (map ck_Line (appendChunk [] c body))"
    using sp(1) unfolding eq by simp
  have "length (lines_of (trim_space (join_lines rest))) \<le>
      (if ck_Heading c = [] then length body else max 1 (length body))"
    if "\<not> (trim_space (join_lines rest) = [] \<and> ck_Heading c = [])"
    using len rest nonempty that by (auto split: if_splits)
  then show "set (map ck_Line (appendChunk [] c body)) \<subseteq>
       {ck_Line c..<ck_Line c + (if ck_Heading c = [] then length body else max 1 (length body))}"
    using sp(2) unfolding eq by (fastforce split: if_splits)
qed

lemma appendChunk_lines_before:
  assumes "clean_lines body" and "ck_Body c = []" and "ck_Line c + length body \<le> n"
    and "ck_Heading c \<noteq> [] \<Longrightarrow> ck_Line c < n"
  shows "set (map ck_Line (appendChunk [] c body)) \<subseteq> {ck_Line c..<n}"
proof -
  have "ck_Line c + (if ck_Heading c = [] then length body else max 1 (length body)) \<le> n"
    using assms(3,4) by auto
  then show ?thesis using appendChunk_lines(2) [OF assms(1,2)] by fastforce
qed

lemma sorted_lines_append:
  "sorted_wrt (<) (a :: nat list) \<Longrightarrow> sorted_wrt (<) b \<Longrightarrow> set a \<subseteq> {l..<m} \<Longrightarrow> set b \<subseteq> {m..<n} \<Longrightarrow> l \<le> m \<Longrightarrow>
   m \<le> n \<Longrightarrow> sorted_wrt (<) (a @ b) \<and> set (a @ b) \<subseteq> {l..<n}"
  by (fastforce simp: sorted_wrt_append)

lemma chunk_loop_lines:
  assumes mk: "\<And>h l. ck_Line (mk h l) = l" "\<And>h l. ck_Body (mk h l) = []"
    and "clean_lines ls" "clean_lines body" "ck_Body current = []"
    and "ck_Line current + length body \<le> n"
    and "ck_Heading current \<noteq> [] \<Longrightarrow> ck_Line current < n"
  shows "sorted_wrt (<) (map ck_Line (chunk_loop mk n ls [] current body)) \<and>
    set (map ck_Line (chunk_loop mk n ls [] current body)) \<subseteq> {ck_Line current..<n + length ls}"
  using assms(3-)
proof (induction ls arbitrary: n current body)
  case Nil
  show ?case
    using appendChunk_lines(1) [OF Nil.prems(2,3)] appendChunk_lines_before [OF Nil.prems(2-5)] by simp
next
  case (Cons line ls)
  show ?case
  proof (cases "has_prefix line ''### ''")
    case False
    then show ?thesis
      using Cons.IH [of "body @ [line]" current "n + 1"] Cons.prems by simp
  next
    case True
    let ?mk = "mk (trim_space (trim_prefix line ''###'')) n"
    let ?new = "chunk_loop mk (n + 1) ls [] ?mk []"
    have "sorted_wrt (<) (map ck_Line ?new) \<and> set (map ck_Line ?new) \<subseteq> {n..<n + 1 + length ls}"
      using Cons.IH [of "[]" ?mk "n + 1"] Cons.prems mk by simp
    moreover have "ck_Line current \<le> n" using Cons.prems(4) by simp
    ultimately have "sorted_wrt (<) (map ck_Line (appendChunk [] current body) @ map ck_Line ?new) \<and>
        set (map ck_Line (appendChunk [] current body) @ map ck_Line ?new) \<subseteq>
          {ck_Line current..<n + 1 + length ls}"
      using appendChunk_lines(1) [OF Cons.prems(2,3)] appendChunk_lines_before [OF Cons.prems(2-5)]
      by (intro sorted_lines_append [where m = n]) auto
    then show ?thesis unfolding chunk_loop_heading [OF True] by simp
  qed
qed

subsection \<open>Front matter\<close>

lemma frontmatter_suffix:
  "\<exists>top. content = top @ rm_text (snd (frontmatter content)) \<and>
     rm_offset (snd (frontmatter content)) = count_byte newline top"
proof -
  have cut: "\<exists>t. r = t @ (case x of None \<Rightarrow> r | Some k \<Rightarrow> drop (k + 1) r)" for r :: string and x
    by (cases x) (auto, metis append_take_drop_id)
  have cut2: "\<exists>t. r = t @ (case x of None \<Rightarrow> r | Some k \<Rightarrow> if b then drop (k + 1) r else r)"
    for r :: string and x b
    by (cases x) (auto, metis append_take_drop_id)
  show ?thesis
  proof (cases "rm_text (snd (frontmatter content)) = content \<and> rm_offset (snd (frontmatter content)) = 0")
    case False
    then obtain e where e: "has_prefix content fence" "str_index (drop 4 content) closing = Some e"
      by (auto simp: frontmatter_def split: if_splits option.splits)
    let ?r0 = "drop (4 + e) content"
    let ?r1 = "case str_index ?r0 [newline] of None \<Rightarrow> ?r0 | Some k \<Rightarrow> drop (k + 1) ?r0"
    let ?r2 = "case str_index ?r1 [newline] of None \<Rightarrow> ?r1
      | Some k \<Rightarrow> if has_prefix ?r1 ''-'' then drop (k + 1) ?r1 else ?r1"
    have fm: "snd (frontmatter content) =
        \<lparr>rm_text = ?r2, rm_offset = count_byte newline (take (length content - length ?r2) content)\<rparr>"
      using e by (simp add: frontmatter_def Let_def)
    obtain t1 t2 where t: "?r0 = t1 @ ?r1" "?r1 = t2 @ ?r2" using cut cut2 by metis
    have whole: "content = (take (4 + e) content @ t1 @ t2) @ ?r2"
      using t by (metis append.assoc append_take_drop_id)
    have "take (length c - length b) c = a" if "c = a @ b" for a b c :: string
      using that by simp
    from this [OF whole]
    have "take (length content - length ?r2) content = take (4 + e) content @ t1 @ t2" .
    with whole show ?thesis unfolding fm remainder.simps by metis
  qed (intro exI [where x = "[]"], simp)
qed

lemma frontmatter_lines:
  "rm_offset (snd (frontmatter content)) + length (lines_of (rm_text (snd (frontmatter content)))) =
   length (lines_of content)"
proof -
  obtain top where "content = top @ rm_text (snd (frontmatter content))"
    "rm_offset (snd (frontmatter content)) = count_byte newline top"
    using frontmatter_suffix by blast
  then show ?thesis using count_byte_append unfolding length_split_on by (metis add.assoc)
qed

subsection \<open>Properties\<close>

lemma ChunkKey_inj: "ck_Path c = ck_Path d \<Longrightarrow> ChunkKey c = ChunkKey d \<longleftrightarrow> ck_Line c = ck_Line d"
  by (auto simp: ChunkKey_def itoa_def dest: nat_digits_inj)

lemma split_same: "p \<in> set (split c) \<Longrightarrow> same_block p c"
  using split_loop_same by (auto simp: split_def same_block_def split: if_splits)

lemma same_blockD:
  assumes "same_block p c"
  shows "ck_Path p = ck_Path c" "ck_Heading p = ck_Heading c" "ck_Header p = ck_Header c"
    "ck_Related p = ck_Related c" "ck_Meta p = ck_Meta c"
  using assms by (cases p; cases c; simp add: same_block_def)+

lemma appendChunk_path: "d \<in> set (appendChunk [] c body) \<Longrightarrow> ck_Path d = ck_Path c"
  by (auto simp: appendChunk_def Let_def split: prod.splits if_splits dest!: split_same same_blockD(1))

lemma chunk_loop_path:
  assumes "\<And>h l. ck_Path (mk h l) = path" and "ck_Path current = path"
  shows "d \<in> set (chunk_loop mk n ls [] current body) \<Longrightarrow> ck_Path d = path"
  using assms(2)
proof (induction ls arbitrary: n current body)
  case (Cons line ls)
  then show ?case
    using appendChunk_path assms(1)
    by (cases "has_prefix line ''### ''") (fastforce simp: chunk_loop_heading simp del: chunk_loop.simps(2), fastforce)
qed (use appendChunk_path in auto)

text \<open>
  The chunks of a page stand in the order of their lines, no two point at the same line, and every
  line lies in the file. So the keys of the chunks of one page are distinct, and the index, which is
  keyed by them, holds each.
\<close>

theorem chunk_keys_distinct:
  "sorted_wrt (<) (map ck_Line (Chunks path content)) \<and>
   set (map ck_Line (Chunks path content)) \<subseteq> {1..length (lines_of content)} \<and>
   distinct (map ChunkKey (Chunks path content))"
proof -
  let ?rest = "snd (frontmatter content)"
  let ?n = "rm_offset ?rest + 1"
  define front where "front = fst (frontmatter content)"
  define mk where "mk = (\<lambda>heading line. chunk_at path heading
    (chunkHeader path (pf_title front) (pf_kind front)) (pf_related front) line)"
  have mk: "\<And>h l. ck_Line (mk h l) = l" "\<And>h l. ck_Body (mk h l) = []"
    "\<And>h l. ck_Path (mk h l) = path" "\<And>h l. ck_Heading (mk h l) = h"
    by (simp_all add: mk_def chunk_at_def)
  have chunks: "Chunks path content = chunk_loop mk ?n (lines_of (rm_text ?rest)) [] (mk [] ?n) []"
    by (simp add: Chunks_def Let_def mk_def front_def case_prod_beta)
  have sorted: "sorted_wrt (<) (map ck_Line (Chunks path content))"
    and "set (map ck_Line (Chunks path content)) \<subseteq> {?n..<?n + length (lines_of (rm_text ?rest))}"
    unfolding chunks
    using chunk_loop_lines [OF mk(1,2), of "lines_of (rm_text ?rest)" "[]" "mk [] ?n" ?n] mk by auto
  then have "set (map ck_Line (Chunks path content)) \<subseteq> {1..length (lines_of content)}"
    using frontmatter_lines [of content] by fastforce
  moreover have "distinct (map ChunkKey (Chunks path content))"
  proof -
    have "distinct (map ck_Line (Chunks path content))"
      using sorted unfolding strict_sorted_iff by (rule conjunct2)
    then have lines: "inj_on ck_Line (set (Chunks path content))" "distinct (Chunks path content)"
      unfolding distinct_map by simp_all
    have path: "ck_Path c = path" if "c \<in> set (Chunks path content)" for c
      using that unfolding chunks by (rule chunk_loop_path [where mk = mk, rotated 2]) (simp_all add: mk)
    have "inj_on ChunkKey (set (Chunks path content))"
    proof (rule inj_onI)
      fix c d assume c: "c \<in> set (Chunks path content)" "d \<in> set (Chunks path content)" "ChunkKey c = ChunkKey d"
      then have "ck_Line c = ck_Line d" using path ChunkKey_inj by metis
      then show "c = d" using lines(1) c by (simp add: inj_on_eq_iff)
    qed
    with lines(2) show ?thesis unfolding distinct_map by simp
  qed
  ultimately show ?thesis using sorted by blast
qed


lemma trim_space_id:
  assumes "\<not> is_space_byte (hd s)" and "\<not> is_space_byte (last s)"
  shows "trim_space s = s"
proof (cases "s = []")
  case False
  then have "dropWhile is_space_byte s = s" using assms(1) by (cases s) auto
  moreover have "dropWhile is_space_byte (rev s) = rev s"
    using assms(2) False by (cases s rule: rev_cases) auto
  ultimately show ?thesis by (simp add: trim_space_def trim_left_def trim_right_def)
qed (simp add: trim_space_def trim_left_def trim_right_def)

lemma trim_right_keep: "\<not> P c \<Longrightarrow> trim_right P (a @ c # r) = a @ c # trim_right P r"
  by (auto simp: trim_right_def dropWhile_append)

lemma trim_right_Cons: "\<not> P c \<Longrightarrow> trim_right P (c # r) = c # trim_right P r"
  using trim_right_keep [of P c "[]"] by simp

lemma trim_space_Cons: "\<not> is_space_byte c \<Longrightarrow> trim_space (c # r) = c # trim_right is_space_byte r"
  by (simp add: trim_space_def trim_left_def trim_right_Cons)

lemma takeMeta_none:
  assumes "\<not> is_space_byte c" and "c \<noteq> CHR ''<''"
  shows "takeMeta ((c # r) # ls) = (no_meta, (c # r) # ls)"
  using assms by (simp add: takeMeta_def trim_space_Cons)

text \<open>
  The second part of a split block points one line above its text. Under a heading in line 1 two
  long lines \<open>a\<close> and \<open>b\<close> are lines 2 and 3, and the part that holds \<open>b\<close> says line 2: the lines of the
  body are counted from the heading's line.
\<close>

theorem part_points_above:
  assumes "newline \<notin> set a" "newline \<notin> set b" "length a \<le> MaxChunkChars" "MaxChunkChars < length a + length b"
    and "has_prefix a ''a''" "has_suffix b ''b''" "\<not> has_prefix b ''### ''" "CHR ''~'' \<notin> set a \<union> set b"
  shows "map (\<lambda>c. (ck_Line c, ck_Body c)) (Chunks ''p.md'' (join_lines [''### h'', a, b])) = [(1, a), (2, b)] \<and>
    lines_of (join_lines [''### h'', a, b]) ! 2 = b"
proof -
  let ?body = "join_lines [a, b]"
  obtain x where a: "a = CHR ''a'' # x"
    using assms(5) by (auto simp: has_prefix_iff)
  have b: "b \<noteq> []" "last b = CHR ''b''" using assms(6) by (auto simp: has_suffix_iff)
  then have trim: "trim_space ?body = ?body"
    using a b by (intro trim_space_id) (simp_all add: is_space_byte_def)
  have lines: "lines_of (join_lines [''### h'', a, b]) = [''### h'', a, b]" "lines_of ?body = [a, b]"
    using assms(1,2) by (intro lines_join; simp)+
  have front: "frontmatter (join_lines [''### h'', a, b]) = (no_front, \<lparr>rm_text = join_lines [''### h'', a, b], rm_offset = 0\<rparr>)"
    by (simp add: frontmatter_def fence_def)
  have struck: "dropStruck ?body = ?body"
    using assms(8) by (intro dropStruck_plain) auto
  have h: "trim_space '' h'' = ''h''" "trim_space [] = []"
    by (simp_all add: trim_space_def trim_left_def trim_right_def is_space_byte_def)
  have meta: "takeMeta [a, b] = (no_meta, [a, b])" "takeMeta [] = (no_meta, [])"
    unfolding a by (rule takeMeta_none; simp add: is_space_byte_def) (simp add: takeMeta_def)
  have nohead: "\<not> has_prefix a ''### ''" by (simp add: a)
  have mapped: "map (\<lambda>c. (ck_Line c, ck_Body c)) (split c) = [(1, a), (2, b)]"
    if "ck_Body c = ?body" "ck_Line c = 1" for c
    using that assms(3,4) struck lines(2) a by (simp add: split_def Text_def Let_def)
  have "map (\<lambda>c. (ck_Line c, ck_Body c)) (Chunks ''p.md'' (join_lines [''### h'', a, b])) = [(1, a), (2, b)]"
    using assms(7) trim h meta nohead
    by (simp add: Chunks_def front lines Let_def chunk_at_def trim_prefix_def appendChunk_def mapped
        str_join.simps(1) del: str_join.simps(2,3))
  then show ?thesis using lines(1) by simp
qed

theorem part_points_above_witness:
  "map (\<lambda>c. (ck_Line c, ck_Body c))
     (Chunks ''p.md'' (join_lines [''### h'', replicate 1000 CHR ''a'', replicate 1000 CHR ''b''])) =
   [(1, replicate 1000 CHR ''a''), (2, replicate 1000 CHR ''b'')]"
  by (rule part_points_above [THEN conjunct1])
    (simp_all add: MaxChunkChars_def has_prefix_def has_suffix_def)

end
