(* ===== verification/GoTimeFacts.thy ===== *)
theory GoTimeFacts
  imports GoTime
begin

text \<open>
  The calendar of \<open>GoTime\<close> is right: a day number is turned into a date that exists and back into the
  same number, and an instant printed by \<open>format_rfc3339\<close> is read back to the second. The server
  stores every point in time that way, so what it says about lifetimes rests on this.
\<close>

subsection \<open>Digits\<close>

lemma digit_char_digit [simp]: "is_digit (digit_char n)"
proof -
  have "n mod 10 \<in> {0, 1, 2, 3, 4, 5, 6, 7, 8, 9}"
    unfolding insert_iff empty_iff by presburger
  then show ?thesis by (elim insertE; simp add: digit_char_def is_digit_def)
qed

lemma digit_val_nat: "digit_val c = int (of_char c) - 48"
  by (simp only: digit_val_def of_nat_of_char)

lemma digit_char_val [simp]: "digit_val (digit_char n) = n mod 10"
  by (simp add: digit_val_nat digit_char_def)

lemma pad_digits_length [simp]: "length (pad_digits k n) = k"
  by (induction k arbitrary: n) auto

lemma pad_digits_all [simp]: "list_all is_digit (pad_digits k n)"
  by (induction k arbitrary: n) auto

lemma digits_val_snoc: "digits_val (ds @ [c]) = 10 * digits_val ds + digit_val c"
  by (simp add: digits_val_def)

lemma digits_val_pad: "digits_val (pad_digits k n) = n mod 10 ^ k"
proof (induction k arbitrary: n)
  case (Suc k)
  then show ?case by (simp add: digits_val_snoc zmod_zmult2_eq)
qed (simp add: digits_val_def)

lemma parse_pad: "parse_digits k (pad_digits k n @ r) = Some (n mod 10 ^ k, r)"
  by (simp add: parse_digits_def digits_val_pad)

lemma parse_pad_bound:
  "0 \<le> n \<Longrightarrow> n < 10 ^ k \<Longrightarrow> parse_digits k (pad_digits k n @ r) = Some (n, r)"
  by (simp add: parse_pad)

subsection \<open>Calendar\<close>

lemma div_bounds:
  fixes a b q :: int
  assumes "q = a div b" "0 < b"
  shows "b * q \<le> a" "a < b * q + b"
proof -
  have "b * q + a mod b = a" unfolding assms(1) by (rule mult_div_mod_eq)
  then show "b * q \<le> a" "a < b * q + b"
    using pos_mod_sign [OF assms(2), of a] pos_mod_bound [OF assms(2), of a] by linarith+
qed

lemma year_of_century:
  fixes r c q y :: int
  assumes r: "0 \<le> r" "r < 36524" and c: "0 \<le> c" "c \<le> 3" and q: "q = (r + 24 * c) div 1460"
    and y: "y = (r - q) div 365"
  shows "0 \<le> y \<and> y \<le> 99 \<and> 0 \<le> r - 365 * y - y div 4 \<and> r - 365 * y - y div 4 \<le> 365 \<and>
    (r - 365 * y - y div 4 = 365 \<longrightarrow> y mod 4 = 3 \<and> y \<noteq> 99)"
proof -
  note qb = div_bounds [OF q zero_less_numeral] and yb = div_bounds [OF y zero_less_numeral]
  obtain a where a: "a = y div 4" by blast
  note ab = div_bounds [OF a zero_less_numeral]
  have y0: "0 \<le> y" using qb yb r c by linarith
  have y99: "y \<le> 99" using qb yb r c by linarith
  have qa: "a \<le> q" "q \<le> a + 1" using qb yb ab r c by linarith+
  have lo: "0 \<le> r - 365 * y - a" and hi: "r - 365 * y - a \<le> 365" using qa yb by linarith+
  have "y = 4 * a + 3 \<and> y \<noteq> 99" if top: "r - 365 * y - a = 365"
  proof -
    have qt: "q = a + 1" using top yb qa by linarith
    have "4 * a + 3 \<le> y" using top qt qb yb ab c y99 by linarith
    then have y3: "y = 4 * a + 3" using ab by linarith
    moreover have "y \<noteq> 99" using top r y3 by linarith
    ultimately show ?thesis by blast
  qed
  then have "r - 365 * y - a = 365 \<longrightarrow> y mod 4 = 3 \<and> y \<noteq> 99"
    by (metis a add_left_cancel mult_div_mod_eq)
  then show ?thesis using y0 y99 lo hi unfolding a by blast
qed

definition year_day :: "int \<Rightarrow> int \<times> int" where
  "year_day doe =
     (let yoe = (doe - doe div 1460 + doe div 36524 - doe div 146096) div 365
      in (yoe, doe - (365 * yoe + yoe div 4 - yoe div 100)))"

lemma div_eqI:
  fixes a b q :: int
  shows "b * q \<le> a \<Longrightarrow> a < b * q + b \<Longrightarrow> a div b = q"
  by (rule int_div_pos_eq [where r = "a - b * q"]) auto

lemma year_day_century:
  fixes c r :: int
  assumes c: "0 \<le> c" "c \<le> 3" and r: "0 \<le> r" "r < 36524" and doe: "doe = 36524 * c + r"
    and q: "q = (r + 24 * c) div 1460" and y: "y = (r - q) div 365"
  shows "year_day doe = (100 * c + y, r - 365 * y - y div 4)"
proof -
  note qb = div_bounds [OF q zero_less_numeral] and cent = year_of_century [OF r c q y]
  have e: "doe div 36524 = c" by (rule div_eqI; use r doe in linarith)
  have "36500 * c + 1460 * q \<le> doe" "doe < 36500 * c + 1460 * q + 1460" using qb doe by linarith+
  then have e2: "doe div 1460 = 25 * c + q" by (intro div_eqI) simp_all
  have e0: "doe div 146096 = 0" by (rule div_eqI; use r c doe in linarith)
  have "100 * c + y = y + 25 * c * 4" by simp
  then have y4: "(100 * c + y) div 4 = 25 * c + y div 4" by simp
  have "0 \<le> y" "y \<le> 99" using cent by blast+
  then have y100: "(100 * c + y) div 100 = c" by (intro div_eqI) linarith+
  have "(doe - doe div 1460 + doe div 36524 - doe div 146096) div 365 = (365 * (100 * c) + (r - q)) div 365"
    unfolding e e2 e0 unfolding doe by (simp add: algebra_simps)
  also have "\<dots> = 100 * c + y" unfolding y by simp
  finally show ?thesis unfolding year_day_def Let_def by (simp add: y4 y100 doe)
qed

lemma year_day_last: "year_day 146096 = (399, 365)"
  by (simp add: year_day_def)

lemma year_day_bounds:
  assumes doe: "0 \<le> doe" "doe < 146097" and yd: "year_day doe = (yoe, doy)"
  shows "0 \<le> yoe \<and> yoe \<le> 399 \<and> 0 \<le> doy \<and> doy \<le> 365 \<and> (doy = 365 \<longrightarrow> leap_year (yoe + 1))"
proof (cases "doe = 146096")
  case True
  then show ?thesis using yd by (simp add: year_day_last leap_year_def)
next
  case False
  obtain c where c: "c = doe div 36524" by blast
  note cb = div_bounds [OF c zero_less_numeral]
  have c03: "0 \<le> c" "c \<le> 3" and r: "0 \<le> doe - 36524 * c" "doe - 36524 * c < 36524"
    using cb doe False by linarith+
  obtain r where rd: "r = doe - 36524 * c" by blast
  obtain q where q: "q = (r + 24 * c) div 1460" by blast
  obtain y where y: "y = (r - q) div 365" by blast
  note cent = year_of_century [OF r [folded rd] c03 q y]
  have "doe = 36524 * c + r" using rd by linarith
  from year_day_century [OF c03 r [folded rd] this q y] yd
  have e: "yoe = 100 * c + y" "doy = r - 365 * y - y div 4" by simp_all
  have "leap_year (yoe + 1)" if "doy = 365"
  proof -
    have "y mod 4 = 3" "y \<noteq> 99" "0 \<le> y" "y \<le> 99" using cent e that by blast+
    have "(yoe + 1) mod 4 = 0" using \<open>y mod 4 = 3\<close> unfolding e by presburger
    moreover have "(yoe + 1) mod 100 = y + 1"
    proof -
      have "(yoe + 1) mod 100 = (y + 1 + c * 100) mod 100" unfolding e by (simp add: ac_simps)
      also have "\<dots> = (y + 1) mod 100" by (rule mod_mult_self1)
      finally show ?thesis using \<open>y \<noteq> 99\<close> \<open>0 \<le> y\<close> \<open>y \<le> 99\<close> by simp
    qed
    ultimately show ?thesis using \<open>0 \<le> y\<close> by (simp add: leap_year_def)
  qed
  moreover have "0 \<le> yoe" "yoe \<le> 399" using cent c03 unfolding e by linarith+
  moreover have "0 \<le> doy" "doy \<le> 365" using cent unfolding e by blast+
  ultimately show ?thesis by blast
qed

lemma year_day_sum:
  "year_day doe = (yoe, doy) \<Longrightarrow> doe = 365 * yoe + yoe div 4 - yoe div 100 + doy"
proof -
  assume "year_day doe = (yoe, doy)"
  then have "doe - (365 * yoe + yoe div 4 - yoe div 100) = doy"
    unfolding year_day_def Let_def prod.inject by blast
  then show ?thesis unfolding diff_eq_eq by (rule trans) (rule add.commute)
qed

lemma month_day:
  fixes doy :: int
  assumes doy: "0 \<le> doy" "doy \<le> 365" and mp: "mp = (5 * doy + 2) div 153"
    and d: "d = doy - (153 * mp + 2) div 5 + 1"
  shows "0 \<le> mp \<and> mp \<le> 11 \<and> 1 \<le> d \<and> d \<le> 31 \<and> (mp \<in> {1, 3, 6, 8} \<longrightarrow> d \<le> 30) \<and>
    (mp = 11 \<longrightarrow> d \<le> 29) \<and> (mp = 11 \<and> doy \<noteq> 365 \<longrightarrow> d \<le> 28)"
proof -
  note mb = div_bounds [OF mp zero_less_numeral]
  have "0 \<le> mp" "mp \<le> 11" using mb doy by linarith+
  obtain k where k: "k = (153 * mp + 2) div 5" by blast
  note kb = div_bounds [OF k zero_less_numeral] and dk = d [folded k]
  have "1 \<le> d" "d \<le> 31" using kb mb dk by linarith+
  moreover have "d \<le> 30" if "mp \<in> {1, 3, 6, 8}"
    using that by (elim insertE emptyE) (use mb d in simp_all)
  moreover have "d \<le> 29" "doy \<noteq> 365 \<Longrightarrow> d \<le> 28" if "mp = 11" using that d doy by simp_all
  ultimately show ?thesis using \<open>0 \<le> mp\<close> \<open>mp \<le> 11\<close> by blast
qed

lemma leap_year_era: "leap_year (y + 400 * e) = leap_year y"
proof -
  have "(y + 400 * e) mod (400 div k) = y mod (400 div k)" if "k \<in> {1, 4, 100}" for k :: int
    using that mod_mult_self1 [of y "k * e" "400 div k"] by (auto simp: ac_simps)
  from this [of 100] this [of 4] this [of 1]
  have "(y + 400 * e) mod 4 = y mod 4" "(y + 400 * e) mod 100 = y mod 100"
    "(y + 400 * e) mod 400 = y mod 400"
    by simp_all
  then show ?thesis by (simp only: leap_year_def)
qed

theorem civil_roundtrip:
  assumes "civil_from_days n = (y, m, d)"
  shows "1 \<le> m \<and> m \<le> 12 \<and> 1 \<le> d \<and> d \<le> days_in_month y m \<and> days_from_civil y m d = n"
proof -
  obtain era where era: "era = (n + 719468) div 146097" by blast
  obtain doe where doe: "doe = n + 719468 - era * 146097" by blast
  have doeb: "0 \<le> doe" "doe < 146097"
    using div_bounds [OF era zero_less_numeral] unfolding doe by linarith+
  obtain yoe doy where yd: "year_day doe = (yoe, doy)" by fastforce
  note bounds = year_day_bounds [OF doeb yd] and sum = year_day_sum [OF yd]
  have doyb: "0 \<le> doy" "doy \<le> 365" and yoeb: "0 \<le> yoe" "yoe \<le> 399" using bounds by blast+
  obtain mp where mp: "mp = (5 * doy + 2) div 153" by blast
  obtain k where k: "k = (153 * mp + 2) div 5" by blast
  note md = month_day [OF doyb mp refl, folded k]
  have mpb: "0 \<le> mp" "mp \<le> 11" using md by blast+
  have yoe: "(doe - doe div 1460 + doe div 36524 - doe div 146096) div 365 = yoe"
    and doy: "doe - (365 * yoe + yoe div 4 - yoe div 100) = doy"
    using yd unfolding year_day_def Let_def prod.inject by blast+
  have civil: "m = (if mp < 10 then mp + 3 else mp - 9)" "d = doy - k + 1"
    "y = (if m \<le> 2 then yoe + era * 400 + 1 else yoe + era * 400)"
    using assms unfolding civil_from_days_def Let_def era [symmetric] doe [symmetric] yoe doy
      mp [symmetric] k [symmetric] prod.inject by blast+
  have mr: "1 \<le> m" "m \<le> 12" and m2: "m = 2 \<Longrightarrow> mp = 11"
    and m30: "m \<in> {4, 6, 9, 11} \<Longrightarrow> mp \<in> {1, 3, 6, 8}"
    and mb: "(if m > 2 then m - 3 else m + 9) = mp"
    using mpb unfolding civil(1) by (auto split: if_splits)
  have leap: "leap_year y" if "doy = 365" "m = 2"
    using bounds that leap_year_era [of "yoe + 1" era] unfolding civil(3) by (simp add: ac_simps)
  have dim: "d \<le> days_in_month y m"
    using md m2 m30 leap unfolding days_in_month_def civil(2) [symmetric] by auto
  have prev: "(if m \<le> 2 then y - 1 else y) = yoe + era * 400" using civil(3) by auto
  have era': "(yoe + era * 400) div 400 = era" by (rule div_eqI; use yoeb in linarith)
  have "days_from_civil y m d = era * 146097 + doe - 719468"
    unfolding days_from_civil_def prev Let_def era' mb k [symmetric]
    using sum civil(2) by simp
  then show ?thesis using mr md dim unfolding doe civil(2) by simp
qed

subsection \<open>RFC 3339\<close>

definition printable :: "instant \<Rightarrow> bool" where
  "printable t \<longleftrightarrow> (case date_of t of (y, _, _) \<Rightarrow> 0 \<le> y \<and> y \<le> 9999)"

lemma parse_char_hit [simp]: "parse_char c (c # r) = Some r"
  by (simp add: parse_char_def)

lemma parse_date_day:
  assumes "printable t"
  shows "parse_date (format_day t @ r) = Some (day_of t * day, r)"
proof -
  obtain y m d where date: "date_of t = (y, m, d)" by (metis prod_cases3)
  note civil = civil_roundtrip [OF date [unfolded date_of_def]]
  have "days_in_month y m \<le> 31" by (simp add: days_in_month_def)
  then have b: "y mod 10 ^ 4 = y" "m mod 10 ^ 2 = m" "d mod 10 ^ 2 = d"
    using civil assms date by (auto simp: printable_def)
  have "parse_date (pad_digits 4 y @ CHR ''-'' # pad_digits 2 m @ CHR ''-'' # pad_digits 2 d @ r) =
      Some (day_of t * day, r)"
    unfolding parse_date_def parse_pad b bind.bind_lunit prod.case parse_char_hit using civil by simp
  then show ?thesis unfolding format_day_def date by simp
qed

lemma clock_sum: "(x :: int) div 3600 * 3600 + x div 60 mod 60 * 60 + x mod 60 = x"
proof -
  obtain a u v w where auvw: "a = x div 60" "u = a div 60" "v = a mod 60" "w = x mod 60" by blast
  have h: "x div 3600 = u" unfolding auvw by (simp add: zdiv_zmult2_eq [symmetric])
  have "60 * u + v = a" "60 * a + w = x" unfolding auvw by (rule mult_div_mod_eq)+
  then have "u * 3600 + v * 60 + w = x" by simp
  then show ?thesis by (simp only: h auvw [symmetric])
qed

lemma parse_zone_Z [simp]: "parse_zone ''Z'' = Some 0"
  by (simp add: parse_zone_def)

lemma parse_fraction_Z [simp]: "parse_fraction ''Z'' = (0, ''Z'')"
  by (simp add: parse_fraction_def)

theorem parse_format_rfc3339:
  assumes "printable t"
  shows "parse_rfc3339 (format_rfc3339 t) = Some (t - t mod second)"
proof -
  obtain x where x: "x = (t mod day) div second" by blast
  have "0 \<le> t mod day" "t mod day < day" by simp_all
  then have xb: "0 \<le> x" "x < 86400"
    using div_bounds [OF x zero_less_numeral] by linarith+
  obtain h mi se where hms: "h = x div 3600" "mi = x div 60 mod 60" "se = x mod 60" by blast
  have b: "h \<le> 23" "mi \<le> 59" "se \<le> 59" "h mod 10 ^ 2 = h" "mi mod 10 ^ 2 = mi" "se mod 10 ^ 2 = se"
    using xb unfolding hms by auto
  have "day_of t * day + (x * second + (t mod day) mod second) = t"
    unfolding day_of_def x by (simp only: div_mult_mod_eq)
  moreover have "(t mod day) mod second = t mod second" by (simp add: mod_mod_cancel)
  ultimately have tx: "day_of t * day + x * second = t - t mod second" by simp
  have sum: "day_of t * day + h * hour + mi * minute + se * second = t - t mod second"
    unfolding tx [symmetric] hms using clock_sum [of x] by simp
  have "parse_rfc3339 (format_day t @ CHR ''T'' # pad_digits 2 h @ CHR '':'' # pad_digits 2 mi @ CHR '':'' #
      pad_digits 2 se @ ''Z'') = Some (t - t mod second)"
    unfolding parse_rfc3339_def parse_date_day [OF assms] bind.bind_lunit prod.case parse_char_hit
      parse_pad b(4-6) parse_fraction_Z parse_zone_Z Let_def
    using b sum by simp
  then show ?thesis
    unfolding format_rfc3339_def format_clock_def Let_def x [symmetric] hms [symmetric] by simp
qed

lemma format_rfc3339_nonempty [simp]: "format_rfc3339 t \<noteq> []"
  by (simp add: format_rfc3339_def)

end
