(* ===== verification/WikiStamp.thy ===== *)
theory WikiStamp
  imports WikiWrite WikiPageFacts GoTimeFacts
begin

text \<open>
  The header of a page as a list of lines, and what stamping the date does to it: nothing that
  retrieval reads.
\<close>

subsection \<open>Where the header ends\<close>

lemma has_prefix_line:
  "newline \<notin> set p \<Longrightarrow> newline \<notin> set m \<Longrightarrow> has_prefix (m @ newline # r) p \<longleftrightarrow> has_prefix m p"
proof (induction p arbitrary: m)
  case (Cons c p)
  then show ?case by (cases m) auto
qed simp

lemma index_line:
  "newline \<notin> set l \<Longrightarrow> str_index (l @ newline # r) closing =
   (if has_prefix r ''---'' then Some (length l)
    else map_option (\<lambda>i. length l + 1 + i) (str_index r closing))"
proof (induction l)
  case Nil
  show ?case by (simp add: closing_def)
next
  case (Cons c l)
  then show ?case by (auto simp: closing_def option.map_comp comp_def)
qed

lemma index_no_line: "newline \<notin> set l \<Longrightarrow> str_index l closing = None"
  by (induction l) (auto simp: closing_def)

definition head_ok :: "string list \<Rightarrow> bool" where
  "head_ok ls \<longleftrightarrow> ls \<noteq> [] \<and> clean_lines ls \<and> list_all (\<lambda>l. \<not> has_prefix l ''---'') (tl ls)"

lemma index_head: "head_ok ls \<Longrightarrow> str_index (join_lines ls @ closing @ r) closing = Some (length (join_lines ls))"
proof (induction ls rule: induct_list012)
  case 1
  then show ?case by (simp add: head_ok_def)
next
  case (2 l)
  then show ?case using index_line [of l "''---'' @ r"] by (simp add: head_ok_def closing_def)
next
  case (3 l m ms)
  have ok: "head_ok (m # ms)" and m: "newline \<notin> set l" "newline \<notin> set m" "\<not> has_prefix m ''---''"
    using 3(3) by (auto simp: head_ok_def)
  have "\<exists>y. join_lines (m # ms) @ closing @ r = m @ newline # y"
    by (cases ms) (simp_all add: closing_def)
  then have "\<not> has_prefix (join_lines (m # ms) @ closing @ r) ''---''"
    using has_prefix_line m(2,3) by fastforce
  then show ?case
    using 3(2) [OF ok] index_line [OF m(1), of "join_lines (m # ms) @ closing @ r"] by simp
qed

lemma first_line: "newline \<in> set s \<Longrightarrow> \<exists>l r. s = l @ newline # r \<and> newline \<notin> set l"
  by (meson split_list_first)

lemma hd_line: "\<exists>y. s = hd (lines_of s) @ y"
  by (induction s) (auto split: list.splits)

lemma head_found:
  "str_index s closing = Some e \<Longrightarrow> head_ok (lines_of (take e s)) \<and> (\<exists>r. s = take e s @ closing @ r)"
proof (induction "length s" arbitrary: s e rule: less_induct)
  case less
  have "newline \<in> set s" using less.prems index_no_line by force
  then obtain l r where s: "s = l @ newline # r" "newline \<notin> set l" using first_line by blast
  show ?case
  proof (cases "has_prefix r ''---''")
    case True
    then have "e = length l" using less.prems s index_line by simp
    moreover obtain r' where "r = ''---'' @ r'" using True by (auto simp: has_prefix_iff)
    ultimately show ?thesis
      using s by (auto simp: head_ok_def split_on_word closing_def)
  next
    case False
    then obtain i where i: "str_index r closing = Some i" "e = length l + 1 + i"
      using less.prems s index_line by auto
    have IH: "head_ok (lines_of (take i r))" "\<exists>r'. r = take i r @ closing @ r'"
      using less.hyps [of r i] i(1) s(1) by auto
    have take: "take e s = l @ newline # take i r" using i(2) s(1) by simp
    have "\<not> has_prefix (hd (lines_of (take i r))) ''---''"
    proof
      assume "has_prefix (hd (lines_of (take i r))) ''---''"
      moreover have "\<exists>y. take i r = hd (lines_of (take i r)) @ y" by (rule hd_line)
      ultimately have "has_prefix (take i r) ''---''" by (metis has_prefix_append_mono)
      then have "has_prefix r ''---''" by (metis append_take_drop_id has_prefix_append_mono)
      with False show False by simp
    qed
    then have "head_ok (lines_of (take e s))"
      using IH(1) s(2) unfolding take split_on_append_sep [OF s(2)]
      by (cases "lines_of (take i r)") (auto simp: head_ok_def)
    moreover have "\<exists>r'. s = take e s @ closing @ r'"
      using IH(2) s(1) unfolding take by auto
    ultimately show ?thesis by blast
  qed
qed

text \<open>A page with a header, taken apart: the lines of the header and what follows its end.\<close>

definition page_of :: "string list \<Rightarrow> string \<Rightarrow> string" where
  "page_of head rest = fence @ join_lines head @ closing @ rest"

definition front_of :: "string list \<Rightarrow> pageFront" where
  "front_of head =
     \<lparr>pf_title = scalar_lines ''title'' head, pf_kind = scalar_lines ''type'' head,
      pf_related = str_join '','' (related_lines False [] head)\<rparr>"

lemma page_of_simps:
  "has_prefix (page_of head rest) fence" "drop 4 (page_of head rest) = join_lines head @ closing @ rest"
  by (simp_all add: page_of_def fence_def)

lemma index_page_of: "head_ok head \<Longrightarrow> str_index (drop 4 (page_of head rest)) closing = Some (length (join_lines head))"
  by (simp add: page_of_simps index_head)

lemma page_ofI:
  assumes "has_prefix content fence" and "str_index (drop 4 content) closing = Some e"
  obtains head rest where "head_ok head" "content = page_of head rest"
    "take e (drop 4 content) = join_lines head" "e = length (join_lines head)"
proof -
  obtain c where c: "content = fence @ c" using assms(1) by (auto simp: has_prefix_iff)
  then have c4: "drop 4 content = c" by (simp add: fence_def)
  let ?head = "lines_of (take e c)"
  have ok: "head_ok ?head" and "\<exists>r. c = take e c @ closing @ r"
    using head_found [of c e] assms(2) c4 by auto
  then obtain r where r: "c = take e c @ closing @ r" by blast
  have "e + length closing \<le> length c" using str_index_length assms(2) c4 by blast
  then have "e = length (join_lines ?head)" using join_split_on by simp
  moreover have "content = page_of ?head r" using c r join_split_on by (simp add: page_of_def)
  ultimately show thesis using that ok c4 join_split_on by metis
qed

lemma four: "4 + length (join_lines head) = length (fence @ join_lines head)"
  by (simp add: fence_def)

lemma frontmatter_page_of:
  assumes "head_ok head"
  shows "fst (frontmatter (page_of head rest)) = front_of head"
    "rm_text (snd (frontmatter (page_of head rest))) =
       (case str_index (''---'' @ rest) [newline] of None \<Rightarrow> ''---'' @ rest | Some k \<Rightarrow> drop (k + 1) (''---'' @ rest))"
    "newline \<notin> set x \<Longrightarrow> snd (frontmatter (page_of head (x @ newline # t))) = \<lparr>rm_text = t, rm_offset = length head + 2\<rparr>"
proof -
  have head: "take (length (join_lines head)) (drop 4 (page_of head r)) = join_lines head"
    "drop (length (fence @ join_lines head)) (page_of head r) = closing @ r" for r
    by (subst page_of_simps, simp) (simp add: page_of_def)
  have take_join: "take (length (join_lines head)) (join_lines head @ y) = join_lines head" for y
    by simp
  have ls: "lines_of (join_lines head) = head"
    using assms by (simp add: head_ok_def)
  have first: "str_index (closing @ r) [newline] = Some 0" "drop (0 + 1) (closing @ r) = ''---'' @ r"
    "has_prefix (''---'' @ r) ''-''" for r
    by (simp_all add: closing_def)
  have fm: "frontmatter (page_of head r) =
      (let t = (case str_index (''---'' @ r) [newline] of None \<Rightarrow> ''---'' @ r | Some k \<Rightarrow> drop (k + 1) (''---'' @ r))
       in (front_of head, \<lparr>rm_text = t,
         rm_offset = count_byte newline (take (length (page_of head r) - length t) (page_of head r))\<rparr>))" for r
    unfolding frontmatter_def index_page_of [OF assms]
    by (simp only: page_of_simps four take_join head first Let_def option.case if_True if_False not_True_eq_False
        scalar_def relatedLinks_def ls front_of_def cong: option.case_cong)
  show "fst (frontmatter (page_of head rest)) = front_of head"
    and "rm_text (snd (frontmatter (page_of head rest))) =
       (case str_index (''---'' @ rest) [newline] of None \<Rightarrow> ''---'' @ rest | Some k \<Rightarrow> drop (k + 1) (''---'' @ rest))"
    unfolding fm by (simp_all only: Let_def fst_conv snd_conv remainder.simps)
  assume x: "newline \<notin> set x"
  have joined: "count_byte newline (join_lines head) = length head - 1"
    using assms by (simp add: head_ok_def count_byte_join clean_lines_def)
  have ends: "count_byte newline fence = 1" "count_byte newline closing = 1" "count_byte newline [newline] = 1"
    by (simp_all add: count_byte_def fence_def closing_def)
  have "str_index (''---'' @ x @ newline # t) [newline] = Some (3 + length x)"
    using str_index_sep [of newline "''---'' @ x" t] x by simp
  moreover have "page_of head (x @ newline # t) = (fence @ join_lines head @ closing @ x @ [newline]) @ t"
    by (simp add: page_of_def)
  moreover have "count_byte newline (fence @ join_lines head @ closing @ x @ [newline]) = length head + 2"
    using joined ends count_byte_zero [OF x] length_greater_0_conv [of head] assms by (simp add: head_ok_def)
  ultimately show "snd (frontmatter (page_of head (x @ newline # t))) = \<lparr>rm_text = t, rm_offset = length head + 2\<rparr>"
    unfolding fm by (simp add: Let_def)
qed

subsection \<open>Stamping\<close>

definition stamp_head :: "string \<Rightarrow> string list \<Rightarrow> string list" where
  "stamp_head today head =
     (case stamp_lines today head of Some head' \<Rightarrow> head' | None \<Rightarrow> head @ [stamp_line today])"

lemma bumpUpdated_page_of:
  assumes "head_ok head"
  shows "bumpUpdated key (page_of head rest) today = Inr (page_of (stamp_head today head) rest)"
proof -
  have ls: "lines_of (join_lines head) = head" using assms by (simp add: head_ok_def)
  have parts: "take (length (join_lines head)) (drop 4 (page_of head rest)) = join_lines head"
    "drop (4 + length (join_lines head)) (page_of head rest) = closing @ rest"
    by (subst page_of_simps, simp) (simp add: four page_of_def)
  show ?thesis
    by (simp only: bumpUpdated_def page_of_simps(1) index_page_of [OF assms] parts ls Let_def option.case
        if_False not_True_eq_False) (simp add: stamp_head_def page_of_def)
qed

lemma bumpUpdatedE:
  assumes "bumpUpdated key content today = Inr stamped"
  obtains head rest where "head_ok head" "content = page_of head rest"
    "stamped = page_of (stamp_head today head) rest"
proof -
  obtain e where "has_prefix content fence" "str_index (drop 4 content) closing = Some e"
    using assms by (auto simp: bumpUpdated_def split: if_splits option.splits)
  then obtain head rest where "head_ok head" "content = page_of head rest"
    by (elim page_ofI) blast
  with assms show thesis using that bumpUpdated_page_of by simp
qed

lemma stamp_lines_None: "stamp_lines today head = None \<longleftrightarrow> list_all (\<lambda>l. \<not> has_prefix l ''updated:'') head"
  by (induction head) auto

lemma stamp_lines_Some:
  "stamp_lines today head = Some head' \<Longrightarrow> \<exists>a l r. head = a @ l # r \<and> has_prefix l ''updated:'' \<and>
     head' = a @ stamp_line today # r \<and> list_all (\<lambda>l. \<not> has_prefix l ''updated:'') a"
proof (induction head arbitrary: head')
  case (Cons x head)
  show ?case
  proof (cases "has_prefix x ''updated:''")
    case True
    then show ?thesis
      using Cons.prems by (intro exI [where x = "[]"] exI [where x = x] exI [where x = head]) auto
  next
    case False
    then obtain h where h: "stamp_lines today head = Some h" "head' = x # h" using Cons.prems by auto
    then obtain a l r where "head = a @ l # r" "has_prefix l ''updated:''" "h = a @ stamp_line today # r"
      "list_all (\<lambda>l. \<not> has_prefix l ''updated:'') a"
      using Cons.IH by blast
    then have "x # head = (x # a) @ l # r \<and> has_prefix l ''updated:'' \<and>
        head' = (x # a) @ stamp_line today # r \<and> list_all (\<lambda>l. \<not> has_prefix l ''updated:'') (x # a)"
      using False h(2) by simp
    then show ?thesis by blast
  qed
qed simp

text \<open>Stamping replaces one line that begins with \<open>updated:\<close>, or adds one at the end.\<close>

lemma stamp_head_cases:
  obtains (replaced) a l r where "head = a @ l # r" "has_prefix l ''updated:''"
      "stamp_head today head = a @ stamp_line today # r" "list_all (\<lambda>l. \<not> has_prefix l ''updated:'') a"
    | (added) "stamp_head today head = head @ [stamp_line today]" "list_all (\<lambda>l. \<not> has_prefix l ''updated:'') head"
proof (cases "stamp_lines today head")
  case None
  then have "stamp_head today head = head @ [stamp_line today]" by (simp add: stamp_head_def)
  then show thesis using None unfolding stamp_lines_None by (rule added)
next
  case (Some head')
  then show thesis using replaced stamp_lines_Some [OF Some] by (auto simp: stamp_head_def)
qed

lemma stamp_head_length: "length (stamp_head today head) - length head \<le> 1" "length head \<le> length (stamp_head today head)"
  by (cases rule: stamp_head_cases [of head today]; simp)+

lemma stamp_line_simps:
  "has_prefix (stamp_line today) ''updated:''" "\<not> has_prefix (stamp_line today) ''---''"
  "newline \<notin> set today \<Longrightarrow> newline \<notin> set (stamp_line today)"
  by (simp_all add: stamp_line_def)

lemma stamp_head_ok:
  assumes "head_ok head" and "newline \<notin> set today"
  shows "head_ok (stamp_head today head)"
proof (cases rule: stamp_head_cases [of head today])
  case (replaced a l r)
  then show ?thesis
    using assms stamp_line_simps by (cases a) (auto simp: head_ok_def)
next
  case added
  then show ?thesis
    using assms stamp_line_simps by (cases head) (auto simp: head_ok_def)
qed

lemma scalar_lines_append:
  "scalar_lines key (a @ b) =
   (if list_all (\<lambda>l. \<not> has_prefix l (key @ '':'')) a then scalar_lines key b else scalar_lines key a)"
  by (induction a) auto

lemma scalar_stamp:
  assumes "\<not> has_prefix ''updated:'' (key @ '':'')" and "\<And>x. \<not> has_prefix (''updated:'' @ x) (key @ '':'')"
  shows "scalar_lines key (stamp_head today head) = scalar_lines key head"
proof -
  have skip: "scalar_lines key (l # r) = scalar_lines key r" if "has_prefix l ''updated:''" for l r
    using that assms(2) by (auto simp: has_prefix_iff)
  show ?thesis
  proof (cases rule: stamp_head_cases [of head today])
    case (replaced a l r)
    then show ?thesis using skip stamp_line_simps(1) by (simp add: scalar_lines_append del: scalar_lines.simps(2))
  next
    case added
    have "scalar_lines key [] = []" "list_all (\<lambda>l. \<not> has_prefix l (key @ '':'')) head \<Longrightarrow> scalar_lines key head = []"
      by simp (induction head; simp)
    then show ?thesis
      using added skip [OF stamp_line_simps(1)] by (simp add: scalar_lines_append del: scalar_lines.simps(2))
  qed
qed

lemma related_lines_state:
  obtains b' links' where "\<And>ys. related_lines b links (xs @ ys) = related_lines b' links' ys"
proof -
  have "\<exists>b' links'. \<forall>ys. related_lines b links (xs @ ys) = related_lines b' links' ys"
  proof (induction xs arbitrary: b links)
    case (Cons x xs)
    have "\<exists>b' links'. \<forall>ys. related_lines b links ((x # xs) @ ys) = related_lines b' links' (xs @ ys)"
    proof (cases "b \<and> has_prefix (trim_space x) ''- ''")
      case True
      then show ?thesis by (auto simp: Let_def)
    next
      case False
      then show ?thesis
        by (cases "cut_prefix (trim_space x) ''related:''"; cases "trim_space (the (cut_prefix (trim_space x) ''related:'')) = []")
          (auto simp: Let_def)
    qed
    then show ?case using Cons.IH by metis
  qed auto
  then show thesis using that by blast
qed

lemma related_updated:
  assumes "has_prefix l ''updated:''"
  shows "related_lines b links (l # r) = related_lines False links r"
proof -
  obtain x where "l = CHR ''u'' # x" using assms by (auto simp: has_prefix_iff)
  then obtain y where y: "trim_space l = CHR ''u'' # y"
    by (simp add: trim_space_Cons is_space_byte_def)
  then show ?thesis by (simp add: Let_def cut_prefix_def)
qed

lemma related_stamp: "related_lines b links (stamp_head today head) = related_lines b links head"
proof (cases rule: stamp_head_cases [of head today])
  case (replaced a l r)
  obtain b' links' where "\<And>ys. related_lines b links (a @ ys) = related_lines b' links' ys"
    using related_lines_state [of b links a] by metis
  then show ?thesis
    using replaced related_updated stamp_line_simps(1) by (simp del: related_lines.simps(2))
next
  case added
  obtain b' links' where state: "\<And>ys. related_lines b links (head @ ys) = related_lines b' links' ys"
    using related_lines_state [of b links head] by metis
  then have "related_lines b links head = related_lines b' links' []" by (metis append_Nil2)
  then show ?thesis
    using added state related_updated [OF stamp_line_simps(1)] by (simp del: related_lines.simps(2))
qed

lemma front_stamp: "front_of (stamp_head today head) = front_of head"
  by (simp add: front_of_def related_stamp scalar_stamp)

lemma trim_space_today: "list_all (\<lambda>c. is_digit c \<or> c = CHR ''-'') s \<Longrightarrow> trim_space ('' '' @ s) = s"
proof -
  assume s: "list_all (\<lambda>c. is_digit c \<or> c = CHR ''-'') s"
  have nospace: "\<not> is_space_byte c" if "c \<in> set s" for c
    using s that by (auto simp: list_all_iff is_space_byte_def is_digit_def)
  then have "dropWhile is_space_byte s = s" "dropWhile is_space_byte (rev s) = rev s"
    using hd_in_set [of s] hd_in_set [of "rev s"] by (auto simp: dropWhile_eq_self_iff)
  then show ?thesis by (simp add: trim_space_def trim_left_def trim_right_def is_space_byte_def)
qed

lemma format_day_chars: "list_all (\<lambda>c. is_digit c \<or> c = CHR ''-'') (format_day t)"
  using pad_digits_all by (fastforce simp: format_day_def list_all_iff split: prod.splits)

lemma format_day_no_newline: "newline \<notin> set (format_day t)"
  using format_day_chars [of t] by (auto simp: list_all_iff is_digit_def)

lemma scalar_stamped:
  "list_all (\<lambda>c. is_digit c \<or> c = CHR ''-'') today \<Longrightarrow> scalar_lines ''updated'' (stamp_head today head) = today"
proof -
  assume today: "list_all (\<lambda>c. is_digit c \<or> c = CHR ''-'') today"
  have plain: "dropWhile (\<lambda>c. c \<in> set [dquote, CHR 39]) s = s" if "list_all (\<lambda>c. is_digit c \<or> c = CHR ''-'') s" for s
    using that by (cases s) (auto simp: is_digit_def)
  have "trim_set [dquote, CHR 39] today = today"
    using plain [OF today] plain [of "rev today"] today
    by (simp add: trim_set_def trim_left_def trim_right_def)
  then have stamp: "scalar_lines ''updated'' (stamp_line today # r) = today" for r
    using trim_space_today [OF today] by (simp add: stamp_line_def trim_prefix_def)
  show ?thesis
    by (cases rule: stamp_head_cases [of head today])
      (simp_all add: scalar_lines_append stamp del: scalar_lines.simps(2))
qed

text \<open>
  Stamping a page with the day of a finding sets its \<open>updated\<close> field to that day and changes
  nothing else retrieval reads: the title, the type, the related pages and the text are what they were.
\<close>

theorem stamp_keeps_page:
  assumes "bumpUpdated key content (format_day now) = Inr stamped"
  shows "fst (frontmatter stamped) = fst (frontmatter content) \<and>
    rm_text (snd (frontmatter stamped)) = rm_text (snd (frontmatter content)) \<and>
    (\<exists>head rest. stamped = page_of head rest \<and> scalar (join_lines head) ''updated'' = format_day now)"
proof -
  obtain head rest where page: "head_ok head" "content = page_of head rest"
    "stamped = page_of (stamp_head (format_day now) head) rest"
    by (rule bumpUpdatedE [OF assms])
  have ok: "head_ok (stamp_head (format_day now) head)"
    by (rule stamp_head_ok [OF page(1) format_day_no_newline])
  then have "scalar (join_lines (stamp_head (format_day now) head)) ''updated'' = format_day now"
    using scalar_stamped [OF format_day_chars] by (simp add: scalar_def head_ok_def)
  then show ?thesis
    unfolding page(2,3) frontmatter_page_of [OF page(1)] frontmatter_page_of [OF ok] front_stamp by blast
qed

lemma demo_stamp:
  "bumpUpdated ''a.md'' (page_of [''title: A''] (newline # ''Text'')) (format_day 0) =
     Inr (page_of [''title: A'', ''updated: 1970-01-01''] (newline # ''Text''))"
  by code_simp

theorem stamp_keeps_page_witness:
  "rm_text (snd (frontmatter (page_of [''title: A'', ''updated: 1970-01-01''] (newline # ''Text'')))) =
   rm_text (snd (frontmatter (page_of [''title: A''] (newline # ''Text''))))"
  using stamp_keeps_page [OF demo_stamp] by blast

end
