(* ===== verification/WikiFiling.thy ===== *)
theory WikiFiling
  imports WikiStamp
begin

text \<open>
  Filing a finding, seen from retrieval: the chunks of the page before are its chunks afterwards, a
  line further down at most, followed by those of the finding.
\<close>

subsection \<open>Blank lines at the end of a block\<close>

lemma trim_right_all: "list_all P t \<Longrightarrow> trim_right P (s @ t) = trim_right P s"
  by (simp add: trim_right_def dropWhile_append list_all_iff)

lemma trim_space_blank: "list_all is_space_byte t \<Longrightarrow> trim_space (s @ t) = trim_space s"
proof -
  assume t: "list_all is_space_byte t"
  show ?thesis
  proof (cases "\<forall>x\<in>set s. is_space_byte x")
    case True
    then have "dropWhile is_space_byte s = []" "dropWhile is_space_byte (s @ t) = []"
      using t by (simp_all add: list_all_iff)
    then show ?thesis by (simp only: trim_space_def trim_left_def)
  next
    case False
    then show ?thesis using trim_right_all [OF t] by (auto simp: trim_space_def trim_left_def dropWhile_append)
  qed
qed

lemma join_lines_blank:
  "ls \<noteq> [] \<Longrightarrow> join_lines (ls @ replicate j []) = join_lines ls @ replicate j newline"
proof (induction j)
  case (Suc j)
  have snoc: "ls' \<noteq> [] \<Longrightarrow> join_lines (ls' @ [[]]) = join_lines ls' @ [newline]" for ls'
    by (induction "[newline]" ls' rule: str_join.induct) auto
  show ?case
    using Suc snoc [of "ls @ replicate j []"]
    unfolding replicate_Suc replicate_append_same [symmetric] by simp
qed simp

lemma trim_space_Nil [simp]: "trim_space [] = []"
  by (simp add: trim_space_def trim_left_def trim_right_def)

lemma trim_join_blank: "trim_space (join_lines (ls @ replicate j [])) = trim_space (join_lines ls)"
proof (cases "ls = []")
  case True
  have "list_all is_space_byte (join_lines (replicate j []))"
  proof (cases j)
    case (Suc k)
    then show ?thesis
      using join_lines_blank [of "[[]]" k] by (simp add: list_all_iff is_space_byte_def)
  qed simp
  then show ?thesis using trim_space_blank [of _ "[]"] True by simp
next
  case False
  then show ?thesis
    by (simp add: join_lines_blank trim_space_blank list_all_iff is_space_byte_def)
qed

lemma meta_lines_blank:
  "(first \<Longrightarrow> ls \<noteq> []) \<Longrightarrow> meta_lines first inner (ls @ replicate j []) =
   map_option (\<lambda>(m, r). (m, r @ replicate j [])) (meta_lines first inner ls)"
proof (induction first inner ls rule: meta_lines.induct)
  case (1 first inner)
  then have "\<not> first" by blast
  then show ?case by (cases j) (simp_all add: Let_def)
next
  case (2 first inner raw rest)
  then show ?case by (auto simp: Let_def withTail_def split: option.splits)
qed

lemma takeMeta_blank:
  "takeMeta (body @ replicate j []) = (fst (takeMeta body), snd (takeMeta body) @ replicate j [])"
proof (cases "\<forall>l\<in>set body. trim_space l = []")
  case True
  then have "takeWhile (\<lambda>l. trim_space l = []) (body @ replicate j []) = body @ replicate j []"
    "takeWhile (\<lambda>l. trim_space l = []) body = body"
    by auto
  then show ?thesis by (simp add: takeMeta_def Let_def del: takeWhile_eq_all_conv)
next
  case False
  then obtain a x b where body: "body = a @ x # b" "\<forall>l\<in>set a. trim_space l = []" "trim_space x \<noteq> []"
    by (auto dest!: split_list_first_prop [of _ "\<lambda>l. trim_space l \<noteq> []", simplified])
  have start: "takeWhile (\<lambda>l. trim_space l = []) (a @ x # c) = a" for c
    using body(2,3) by simp
  have meta: "metaBlock (a @ x # b @ replicate j []) (length a) =
      map_option (\<lambda>(m, r). (m, r @ replicate j [])) (metaBlock (a @ x # b) (length a))"
    using meta_lines_blank [of True "x # b" "[]" j] by (simp add: metaBlock_def)
  show ?thesis
    unfolding body(1) append.assoc append_Cons takeMeta_def start meta
    by (cases "has_prefix (trim_space x) ''<!--''"; cases "metaBlock (a @ x # b) (length a)")
      (simp_all add: Let_def nth_append case_prod_beta meta)
qed

lemma appendChunk_blank: "appendChunk [] c (body @ replicate j []) = appendChunk [] c body"
  by (simp add: appendChunk_def takeMeta_blank trim_join_blank case_prod_beta)

subsection \<open>More lines at the end of a page\<close>

lemma chunk_loop_more:
  "has_prefix h ''### '' \<Longrightarrow>
   chunk_loop mk n (ls @ [] # h # new) [] current body =
   chunk_loop mk n (ls @ replicate j []) [] current body @
   chunk_loop mk (n + length ls + 2) new [] (mk (trim_space (trim_prefix h ''###'')) (n + length ls + 1)) []"
proof (induction ls arbitrary: n current body)
  case Nil
  have blank: "chunk_loop mk m (replicate k []) [] current b = appendChunk [] current (b @ replicate k [])" for m k b
  proof (induction k arbitrary: m b)
    case (Suc k)
    have "(b @ [[]]) @ replicate k [] = b @ replicate (Suc k) []" by simp
    with Suc.IH [of "m + 1" "b @ [[]]"] show ?case
      unfolding replicate_Suc chunk_loop.simps by simp
  qed simp
  have "chunk_loop mk n ([] # h # new) [] current body = chunk_loop mk (n + 1) (h # new) [] current (body @ [[]])"
    by simp
  also have "\<dots> = appendChunk [] current (body @ replicate 1 []) @
      chunk_loop mk (n + 2) new [] (mk (trim_space (trim_prefix h ''###'')) (n + 1)) []"
    unfolding chunk_loop_heading [OF Nil.prems] by simp
  finally show ?case unfolding append_Nil blank appendChunk_blank by simp
next
  case (Cons line ls)
  show ?case
  proof (cases "has_prefix line ''### ''")
    case True
    then show ?thesis
      using Cons.IH [OF Cons.prems, of "n + 1"] unfolding append_Cons chunk_loop_heading [OF True] by simp
  next
    case False
    then show ?thesis using Cons.IH [OF Cons.prems, of "n + 1" current "body @ [line]"] by simp
  qed
qed

lemma chunk_loop_body:
  "list_all (\<lambda>l. \<not> has_prefix l ''### '') ls \<Longrightarrow>
   chunk_loop mk n ls [] current body = appendChunk [] current (body @ ls)"
  by (induction ls arbitrary: n body) auto

subsection \<open>Moving a page down\<close>

definition move_down :: "nat \<Rightarrow> Chunk \<Rightarrow> Chunk" where
  "move_down k c = c\<lparr>ck_Line := ck_Line c + k\<rparr>"

lemma move_down_simps [simp]:
  "ck_Body (move_down k c) = ck_Body c" "ck_Heading (move_down k c) = ck_Heading c"
  "ck_Header (move_down k c) = ck_Header c" "ck_Line (move_down k c) = ck_Line c + k"
  by (simp_all add: move_down_def)

lemma Text_move [simp]: "Text (move_down k c) = Text c"
  by (simp only: Text_def move_down_simps)

lemma split_loop_move:
  "split_loop (move_down k c) i ls buf sz (lineAt + k) = map (move_down k) (split_loop c i ls buf sz lineAt)"
proof (induction c i ls buf sz lineAt rule: split_loop.induct)
  case (1 c i buf sz lineAt)
  show ?case by (simp add: move_down_def)
next
  case (2 c i line rest buf sz lineAt)
  show ?case
  proof (cases "MaxChunkChars < sz + length line \<and> buf \<noteq> []")
    case True
    then show ?thesis using 2(1) [OF True] by (simp add: move_down_def ac_simps)
  next
    case False
    then show ?thesis using 2(2) [OF False] unfolding split_loop_keep [OF False] by simp
  qed
qed

lemma split_move: "split (move_down k c) = map (move_down k) (split c)"
  by (simp add: split_def split_loop_move)

lemma appendChunk_move: "appendChunk [] (move_down k c) body = map (move_down k) (appendChunk [] c body)"
proof -
  obtain m rest where meta: "takeMeta body = (m, rest)" by fastforce
  have "(move_down k c)\<lparr>ck_Meta := m, ck_Body := b\<rparr> = move_down k (c\<lparr>ck_Meta := m, ck_Body := b\<rparr>)"
    "(move_down k c)\<lparr>ck_Header := h\<rparr> = move_down k (c\<lparr>ck_Header := h\<rparr>)" for b h c
    by (simp_all add: move_down_def)
  then show ?thesis
    by (simp add: appendChunk_def meta Let_def split_move)
qed

lemma chunk_loop_move:
  assumes "\<And>h l. mk h (l + k) = move_down k (mk h l)"
  shows "chunk_loop mk (n + k) ls [] (move_down k current) body = map (move_down k) (chunk_loop mk n ls [] current body)"
proof (induction ls arbitrary: n current body)
  case Nil
  show ?case by (simp add: appendChunk_move)
next
  case (Cons line ls)
  show ?case
  proof (cases "has_prefix line ''### ''")
    case True
    show ?thesis
      unfolding chunk_loop_heading [OF True]
      using Cons.IH [of "n + 1" "mk (trim_space (trim_prefix line ''###'')) n" "[]"] assms
      by (simp add: appendChunk_move)
  next
    case False
    then show ?thesis using Cons.IH [of "n + 1" current "body @ [line]"] by simp
  qed
qed

subsection \<open>A page and a block below it\<close>

lemma lines_blank: "lines_of (u @ replicate j newline) = lines_of u @ replicate j []"
proof (induction j)
  case (Suc j)
  have "lines_of ((u @ replicate j newline) @ newline # []) = lines_of (u @ replicate j newline) @ [[]]"
    unfolding split_on_append by simp
  then show ?case using Suc unfolding replicate_Suc replicate_append_same [symmetric] by simp
qed simp

lemma trim_newlines_split: "\<exists>j. s = trim_newlines s @ replicate j newline"
proof -
  obtain t where t: "s = trim_newlines s @ t" "list_all (\<lambda>c. c = newline) t"
    using trim_right_append unfolding trim_newlines_def by metis
  then have "replicate (length t) newline = t"
    by (intro replicate_length_same) (simp add: list_all_iff)
  with t(1) show ?thesis by metis
qed

lemma trim_newlines_last: "trim_newlines s = [] \<or> last (trim_newlines s) \<noteq> newline"
proof -
  have "dropWhile (\<lambda>c. c = newline) (rev s) = [] \<or> hd (dropWhile (\<lambda>c. c = newline) (rev s)) \<noteq> newline"
    using hd_dropWhile by blast
  then show ?thesis by (auto simp: trim_newlines_def trim_right_def last_rev)
qed

lemma trim_newlines_keep: "c \<noteq> newline \<Longrightarrow> trim_newlines (a @ c # r) = a @ c # trim_newlines r"
  by (simp add: trim_newlines_def trim_right_keep)

text \<open>
  Below the end of the header, cutting the newlines off and adding a blank line and a block is adding
  a blank line and the block to the lines of the text.
\<close>

lemma block_below:
  assumes "newline \<notin> set x"
  obtains t' ls j where "trim_newlines (page_of head (x @ newline # t)) @ [newline, newline] @ block = page_of head (x @ newline # t')"
    "lines_of t' = ls @ [] # lines_of block" "lines_of t = ls @ replicate j []"
proof -
  let ?p = "fence @ join_lines head @ [newline] @ ''--''"
  have page: "page_of head r = ?p @ CHR ''-'' # r" for r
    by (simp add: page_of_def closing_def)
  have keep: "trim_newlines (?p @ CHR ''-'' # r) = ?p @ CHR ''-'' # trim_newlines r" for r
    by (rule trim_newlines_keep) simp
  obtain j where t: "t = trim_newlines t @ replicate j newline"
    using trim_newlines_split by blast
  show thesis
  proof (cases "trim_newlines t = []")
    case True
    have "trim_newlines (x @ newline # t) = x"
    proof -
      have "x @ newline # t = x @ replicate (Suc j) newline" using t True by simp
      moreover have "trim_newlines (x @ replicate (Suc j) newline) = trim_newlines x"
        by (simp add: trim_newlines_def trim_right_all list_all_iff del: replicate_Suc)
      moreover have "dropWhile (\<lambda>c. c = newline) (rev x) = rev x"
        unfolding dropWhile_eq_self_iff using assms hd_in_set [of "rev x"] by auto
      then have "trim_newlines x = x"
        by (simp add: trim_newlines_def trim_right_def)
      ultimately show ?thesis by simp
    qed
    then have "trim_newlines (page_of head (x @ newline # t)) @ [newline, newline] @ block =
        page_of head (x @ newline # (newline # block))"
      unfolding page keep by simp
    moreover have "lines_of (newline # block) = [] @ [] # lines_of block" by simp
    moreover have "lines_of t = [] @ replicate (Suc j) []"
      using t True lines_blank [of "[]" j] by simp
    ultimately show thesis using that by blast
  next
    case False
    let ?u = "trim_newlines t"
    have "trim_newlines (x @ newline # t) = x @ newline # ?u"
    proof -
      obtain v c where v: "?u = v @ [c]" "c \<noteq> newline"
        using False trim_newlines_last [of t] by (metis append_butlast_last_id)
      then have "x @ newline # t = (x @ newline # v) @ c # replicate j newline"
        using t by simp
      then have "trim_newlines (x @ newline # t) = (x @ newline # v) @ c # trim_newlines (replicate j newline)"
        using trim_newlines_keep [OF v(2)] by metis
      moreover have "trim_newlines (replicate j newline) = []"
        by (simp add: trim_newlines_def trim_right_def)
      ultimately show ?thesis using v(1) by simp
    qed
    then have "trim_newlines (page_of head (x @ newline # t)) @ [newline, newline] @ block =
        page_of head (x @ newline # (?u @ newline # newline # block))"
      unfolding page keep by simp
    moreover have "lines_of (?u @ newline # newline # block) = lines_of ?u @ [] # lines_of block"
      by (simp add: split_on_append)
    moreover have "lines_of t = lines_of ?u @ replicate j []"
      using lines_blank [of ?u j] t by simp
    ultimately show thesis using that by blast
  qed
qed

definition block_at :: "string \<Rightarrow> pageFront \<Rightarrow> string \<Rightarrow> nat \<Rightarrow> Chunk" where
  "block_at path front heading line =
     chunk_at path heading (chunkHeader path (pf_title front) (pf_kind front)) (pf_related front) line"

lemma block_at_move: "block_at path front h (l + k) = move_down k (block_at path front h l)"
  by (simp add: block_at_def chunk_at_def move_down_def)

lemma Chunks_page:
  assumes "head_ok head" and "newline \<notin> set x"
  shows "Chunks path (page_of head (x @ newline # t)) =
    chunk_loop (block_at path (front_of head)) (length head + 3) (lines_of t) []
      (block_at path (front_of head) [] (length head + 3)) []"
proof -
  have "frontmatter (page_of head (x @ newline # t)) = (front_of head, \<lparr>rm_text = t, rm_offset = length head + 2\<rparr>)"
    using frontmatter_page_of(1) [OF assms(1)] frontmatter_page_of(3) [OF assms] by (metis prod.collapse)
  then show ?thesis
    by (simp add: Chunks_def Let_def block_at_def [abs_def] numeral_3_eq_3)
qed

lemma filed_chunks:
  assumes "head_ok head" "newline \<notin> set x" "newline \<notin> set today"
    and block: "lines_of block = h # body" "has_prefix h ''### ''" "list_all (\<lambda>l. \<not> has_prefix l ''### '') body"
  obtains k n where "k \<le> 1"
    "Chunks path (trim_newlines (page_of (stamp_head today head) (x @ newline # t)) @ [newline, newline] @ block) =
     map (move_down k) (Chunks path (page_of head (x @ newline # t))) @
     appendChunk [] (block_at path (front_of head) (trim_space (trim_prefix h ''###'')) n) body"
proof -
  let ?head = "stamp_head today head" and ?mk = "block_at path (front_of head)"
  let ?k = "length ?head - length head"
  have ok: "head_ok ?head" by (rule stamp_head_ok [OF assms(1,3)])
  obtain t' ls j where below: "trim_newlines (page_of ?head (x @ newline # t)) @ [newline, newline] @ block = page_of ?head (x @ newline # t')"
    "lines_of t' = ls @ [] # lines_of block" "lines_of t = ls @ replicate j []"
    by (rule block_below [OF assms(2)])
  let ?n = "length ?head + 3"
  have n: "?n = length head + 3 + ?k" using stamp_head_length(2) [of head today] by simp
  have "Chunks path (page_of ?head (x @ newline # t')) = chunk_loop ?mk ?n (ls @ [] # h # body) [] (?mk [] ?n) []"
    unfolding Chunks_page [OF ok assms(2)] front_stamp below(2) block(1) ..
  also have "\<dots> = chunk_loop ?mk ?n (ls @ replicate j []) [] (?mk [] ?n) [] @
      chunk_loop ?mk (?n + length ls + 2) body [] (?mk (trim_space (trim_prefix h ''###'')) (?n + length ls + 1)) []"
    by (rule chunk_loop_more [OF block(2)])
  also have "chunk_loop ?mk ?n (ls @ replicate j []) [] (?mk [] ?n) [] =
      map (move_down ?k) (Chunks path (page_of head (x @ newline # t)))"
    unfolding Chunks_page [OF assms(1,2)] below(3) n block_at_move
    by (rule chunk_loop_move [where mk = ?mk and k = ?k]) (rule block_at_move)
  finally show thesis
    using that [of ?k "?n + length ls + 1"] stamp_head_length(1) below(1) chunk_loop_body [OF block(3)] by simp
qed

end
