(* ===== verification/WikiFacts.thy ===== *)
theory WikiFacts
  imports WikiFiling
begin

text \<open>
  The properties of filing a finding, for every script of outcomes: what reaches the disk, what stays
  of the index and the log, and that the finding is there to be found.
\<close>

subsection \<open>Writing several files\<close>

definition land :: "(string \<times> string) list \<Rightarrow> (string, string) gomap \<Rightarrow> (string, string) gomap" where
  "land es files = fold (\<lambda>(p, d). AList.update p d) es files"

abbreviation contents :: "edit list \<Rightarrow> (string \<times> string) list" where
  "contents es \<equiv> map (\<lambda>e. (ed_path e, ed_data e)) es"

lemma land_simps [simp]: "land [] files = files" "land ((p, d) # es) files = land es (AList.update p d files)"
  by (simp_all add: land_def)

lemma next_op_keeps [simp]:
  "next_op w = (o', w') \<Longrightarrow> wk_files w' = wk_files w \<and> wk_temps w' = wk_temps w \<and> wk_next w' = wk_next w"
  by (auto simp: next_op_def split: list.splits)

lemma remove_temp_files [simp]: "wk_files (remove_temp t w) = wk_files w"
  using next_op_keeps by (auto simp: remove_temp_def split: prod.splits)

lemma remove_all_files [simp]: "wk_files (remove_all es w) = wk_files w"
  unfolding remove_all_def by (induction es arbitrary: w) simp_all

lemma stage_files: "stage f w = (r, w') \<Longrightarrow> wk_files w' = wk_files w"
  by (auto simp: stage_def create_temp_def split: prod.splits outcome.splits dest: next_op_keeps)

lemma stage_Inr:
  "stage f w = (Inr s, w') \<Longrightarrow> s = f\<lparr>ed_tmp := wk_next w\<rparr> \<and>
   wk_temps w' = AList.update (wk_next w) (ed_data f) (wk_temps w) \<and> wk_next w' = wk_next w + 1"
  by (auto simp: stage_def create_temp_def split: prod.splits outcome.splits dest: next_op_keeps)

lemma stage_Inl: "stage f w = (Inl e, w') \<Longrightarrow> e = StageError (ed_path f)"
  by (auto simp: stage_def split: prod.splits outcome.splits)

definition staged :: "edit list \<Rightarrow> wiki \<Rightarrow> bool" where
  "staged ready w \<longleftrightarrow> distinct (map ed_tmp ready) \<and>
     (\<forall>e\<in>set ready. ed_tmp e < wk_next w \<and> lookup (wk_temps w) (ed_tmp e) = Some (ed_data e))"

lemma stage_all_spec:
  "stage_all fs ready w = ((r, ready'), w') \<Longrightarrow> staged ready w \<Longrightarrow>
   wk_files w' = wk_files w \<and> staged ready' w' \<and>
   (case r of None \<Rightarrow> contents ready' = contents ready @ contents fs | Some e \<Rightarrow> \<exists>p. e = StageError p)"
proof (induction fs arbitrary: ready w)
  case (Cons f fs)
  show ?case
  proof (cases "stage f w")
    case (Pair x w1)
    note files = stage_files [OF Pair]
    show ?thesis
    proof (cases x)
      case (Inl e)
      then have eqs: "r = Some e" "ready' = ready" "w' = w1" using Cons.prems(1) Pair by simp_all
      have "wk_next w \<le> wk_next w1 \<and> (\<forall>t<wk_next w. lookup (wk_temps w1) t = lookup (wk_temps w) t)"
        using Pair Inl
        by (auto simp: stage_def create_temp_def remove_temp_def split: prod.splits outcome.splits if_splits
            dest!: next_op_keeps)
      then have "staged ready w1"
        using Cons.prems(2) by (auto simp: staged_def intro: less_le_trans)
      then show ?thesis
        using files stage_Inl [OF Pair [unfolded Inl]] by (simp add: eqs)
    next
      case (Inr s)
      note s = stage_Inr [OF Pair [unfolded Inr]]
      have "staged (ready @ [s]) w1"
        unfolding staged_def
      proof (intro conjI ballI)
        have tmp: "ed_tmp s = wk_next w" "ed_data s = ed_data f" using s by simp_all
        show "distinct (map ed_tmp (ready @ [s]))"
          using Cons.prems(2) tmp(1) by (fastforce simp: staged_def)
        fix e assume e: "e \<in> set (ready @ [s])"
        then have "ed_tmp e \<le> wk_next w" using Cons.prems(2) tmp(1) by (fastforce simp: staged_def)
        then show "ed_tmp e < wk_next w1" using conjunct2 [OF conjunct2 [OF s]] by simp
        show "lookup (wk_temps w1) (ed_tmp e) = Some (ed_data e)"
        proof (cases "e = s")
          case True
          then show ?thesis by (simp add: conjunct1 [OF conjunct2 [OF s]] tmp)
        next
          case False
          then have "ed_tmp e < wk_next w" "lookup (wk_temps w) (ed_tmp e) = Some (ed_data e)"
            using e Cons.prems(2) by (auto simp: staged_def)
          then show ?thesis by (simp add: conjunct1 [OF conjunct2 [OF s]])
        qed
      qed
      have run: "stage_all fs (ready @ [s]) w1 = ((r, ready'), w')"
        using Cons.prems(1) Pair Inr by simp
      show ?thesis
        using Cons.IH [OF run \<open>staged (ready @ [s]) w1\<close>] unfolding files conjunct1 [OF s]
        by (cases r) auto
    qed
  qed
qed auto

lemma rename_all_spec:
  "io_each rename_edit ready w = (r, w') \<Longrightarrow> staged ready w \<Longrightarrow>
   \<exists>k \<le> length ready. wk_files w' = land (take k (contents ready)) (wk_files w) \<and>
     (case r of Inr _ \<Rightarrow> k = length ready | Inl e \<Rightarrow> \<exists>p. e = WriteError p)"
proof (induction ready arbitrary: w)
  case Nil
  then show ?case by (auto simp: io_return_def)
next
  case (Cons e ready)
  obtain x w0 where op: "next_op w = (x, w0)" by fastforce
  note keep = next_op_keeps [OF op]
  have tmp: "lookup (wk_temps w) (ed_tmp e) = Some (ed_data e)" using Cons.prems(2) by (simp add: staged_def)
  show ?case
  proof (cases "x = Done")
    case False
    then have "rename_edit e w = (Inl (WriteError (ed_path e)), w0)"
      using op keep tmp by (simp add: rename_edit_def)
    then have "r = Inl (WriteError (ed_path e))" "w' = w0"
      using Cons.prems(1) by (auto simp: io_then_def io_bind_def)
    then show ?thesis using keep by (intro exI [where x = 0]) simp
  next
    case True
    let ?w1 = "w0\<lparr>wk_files := AList.update (ed_path e) (ed_data e) (wk_files w),
      wk_temps := AList.delete (ed_tmp e) (wk_temps w)\<rparr>"
    have "rename_edit e w = (Inr (), ?w1)"
      using op keep tmp True by (simp add: rename_edit_def)
    then have "io_each rename_edit ready ?w1 = (r, w')"
      using Cons.prems(1) by (simp add: io_then_def io_bind_def)
    moreover have "staged ready ?w1"
      using Cons.prems(2) keep by (auto simp: staged_def) (metis imageI)
    ultimately obtain k where "k \<le> length ready" "wk_files w' = land (take k (contents ready)) (wk_files ?w1)"
      "case r of Inr _ \<Rightarrow> k = length ready | Inl e \<Rightarrow> \<exists>p. e = WriteError p"
      using Cons.IH by blast
    then show ?thesis by (intro exI [where x = "Suc k"]) (auto split: sum.splits)
  qed
qed

lemma writeAll_spec:
  assumes "writeAll es w = (r, w')"
  shows "\<exists>k \<le> length es. wk_files w' = land (take k (contents es)) (wk_files w) \<and>
    (case r of Inr _ \<Rightarrow> k = length es | Inl e \<Rightarrow> (\<exists>p. e = StageError p) \<and> k = 0 \<or> (\<exists>p. e = WriteError p))"
proof -
  obtain x ready w1 where st: "stage_all es [] w = ((x, ready), w1)" by (metis surj_pair)
  have spec: "wk_files w1 = wk_files w" "staged ready w1"
    "case x of None \<Rightarrow> contents ready = contents es | Some e \<Rightarrow> \<exists>p. e = StageError p"
    using stage_all_spec [OF st] by (auto simp: staged_def split: option.splits)
  show ?thesis
  proof (cases x)
    case (Some e)
    then show ?thesis using assms st spec by (intro exI [where x = 0]) (auto simp: writeAll_def)
  next
    case None
    obtain r2 w2 where rn: "io_each rename_edit ready w1 = (r2, w2)" by fastforce
    then have "r = r2" "wk_files w' = wk_files w2" using assms st None by (auto simp: writeAll_def)
    moreover have "contents ready = contents es" "length ready = length es"
      using spec(3) None by (auto dest: map_eq_imp_length_eq)
    ultimately show ?thesis
      using rename_all_spec [OF rn spec(2)] spec(1) by (auto split: sum.splits)
  qed
qed

subsection \<open>What one call writes\<close>

text \<open>What a read of a file comes to when it ends in some way.\<close>

definition read_as :: "(string, string) gomap \<Rightarrow> string \<Rightarrow> outcome \<Rightarrow> string" where
  "read_as files key o' =
     (case lookup files key of
        None \<Rightarrow> []
      | Some d \<Rightarrow> (case o' of Done \<Rightarrow> d | Broken t \<Rightarrow> t | _ \<Rightarrow> []))"

lemma read_as_Done: "lookup files key = Some d \<Longrightarrow> read_as files key Done = d"
  by (simp add: read_as_def)

lemma readOrEmpty_reads:
  "wk_ops w = o' # os \<Longrightarrow> readOrEmpty key w = (Inr (read_as (wk_files w) key o'), w\<lparr>wk_ops := os\<rparr>)"
  by (auto simp: readOrEmpty_def read_page_def next_op_def read_as_def split: option.splits outcome.splits)

text \<open>The three files of a finding, from what was read.\<close>

definition filed_edits ::
  "Finding \<Rightarrow> string \<Rightarrow> string \<Rightarrow> string \<Rightarrow> string \<Rightarrow> string \<Rightarrow> string \<Rightarrow> (string \<times> string) list" where
  "filed_edits f today key page stamped index history =
     [(key, trim_newlines stamped @ [newline, newline] @ findingBlock f today),
      (indexFile, fst (indexPointer index key (pf_title (fst (frontmatter page))) (fi_Title f))),
      (logFile, appendLog history today (fi_Log f))]"

lemma read_page_files: "read_page key w = (x, w') \<Longrightarrow> wk_files w' = wk_files w"
  using next_op_keeps by (fastforce simp: read_page_def split: prod.splits option.splits outcome.splits)

lemma ReadFile_Inr: "ReadFile key e w = (Inr d, w') \<Longrightarrow> lookup (wk_files w) key = Some d"
  using next_op_keeps
  by (fastforce simp: ReadFile_def read_page_def split: prod.splits option.splits outcome.splits if_splits)

lemma ReadFile_Inl: "ReadFile key e w = (Inl x, w') \<Longrightarrow> x = e"
  by (auto simp: ReadFile_def split: prod.splits if_splits)

lemma ReadFile_files: "ReadFile key e w = (x, w') \<Longrightarrow> wk_files w' = wk_files w"
  by (auto simp: ReadFile_def split: prod.splits dest: read_page_files)

lemma readOrEmpty_files: "readOrEmpty key w = (x, w') \<Longrightarrow> wk_files w' = wk_files w"
  by (auto simp: readOrEmpty_def split: prod.splits dest: read_page_files)

lemma readOrEmpty_Inr: "\<exists>d w'. readOrEmpty key w = (Inr d, w')"
  by (auto simp: readOrEmpty_def split: prod.splits)

lemma next_op_tl: "wk_ops (snd (next_op w)) = tl (wk_ops w)"
  by (cases "wk_ops w") (simp_all add: next_op_def)

lemma read_page_tl: "wk_ops (snd (read_page key w)) = tl (wk_ops w)"
proof -
  obtain o' v where "next_op w = (o', v)" by fastforce
  then show ?thesis
    using next_op_tl [of w] by (simp add: read_page_def split: option.splits outcome.splits)
qed

lemma ReadFile_ops: "ReadFile key e w = (x, w') \<Longrightarrow> wk_ops w' = tl (wk_ops w)"
  using read_page_tl [of key w] by (auto simp: ReadFile_def split: prod.splits)

lemma lockWiki_ops: "lockWiki w = (x, w') \<Longrightarrow> wk_ops w' = tl (wk_ops w)"
  using next_op_tl [of w] by (auto simp: lockWiki_def split: prod.splits)

lemma lockWiki_files: "lockWiki w = (x, w') \<Longrightarrow> wk_files w' = wk_files w"
  using next_op_keeps by (fastforce simp: lockWiki_def split: prod.splits)

lemma io_sumE: "io_sum x w = (r, w') \<Longrightarrow> r = x \<and> w' = w"
  by (simp add: io_sum_def)

lemma fileFinding_cases:
  assumes "fileFinding f today (findingBlock f today) w = (r, w')"
  obtains (refused) e where "r = Inl e" "wk_files w' = wk_files w" "\<And>p. e \<noteq> WriteError p"
  | (written) key page stamped index history k
    where "pagePath (fi_Page f) = Inr key" "lookup (wk_files w) key = Some page"
      "bumpUpdated key page today = Inr stamped" "k \<le> 3"
      "wk_files w' = land (take k (filed_edits f today key page stamped index history)) (wk_files w)"
      "case r of Inr res \<Rightarrow> k = 3 \<and> ar_Page res = key | Inl e \<Rightarrow> \<exists>p. e = WriteError p"
      "\<And>o1 o2 o3 o4 os. wk_ops w = o1 # o2 # o3 # o4 # os \<Longrightarrow>
         index = read_as (wk_files w) indexFile o3 \<and> history = read_as (wk_files w) logFile o4"
proof -
  show thesis
    using assms unfolding fileFinding_def
  proof (cases rule: io_bindE)
    case (fail e)
    then have "pagePath (fi_Page f) = Inl e" "w' = w" by (simp_all add: io_sum_def)
    moreover have "\<And>p. e \<noteq> WriteError p"
      using calculation(1) by (auto simp: pagePath_def pageKey_def Let_def split: sum.splits if_splits)
    ultimately show thesis using refused fail by blast
  next
    case (run key w1)
    then have key: "pagePath (fi_Page f) = Inr key" "w1 = w" by (simp_all add: io_sum_def)
    from run(2) [unfolded key(2)] show thesis
    proof (cases rule: io_thenE)
      case (fail e)
      then have "e = WikiBusy" by (auto simp: lockWiki_def split: prod.splits if_splits)
      then show thesis using refused [of e] fail lockWiki_files [OF fail(1)] by blast
    next
      case (run w2)
      note f2 = lockWiki_files [OF run(1)]
      from run(2) show thesis
      proof (cases rule: io_bindE)
        case (fail e)
        then show thesis using refused [of e] f2 ReadFile_files [OF fail(1)] ReadFile_Inl [OF fail(1)] by simp
      next
        case (run page w3)
        have page: "lookup (wk_files w) key = Some page" using ReadFile_Inr [OF run(1)] f2 by simp
        have f3: "wk_files w3 = wk_files w" using ReadFile_files [OF run(1)] f2 by simp
        from run(2) show thesis
        proof (cases rule: io_bindE)
          case (fail e)
          then have "bumpUpdated key page today = Inl e" "w' = w3" by (simp_all add: io_sum_def)
          moreover have "\<And>p. e \<noteq> WriteError p"
            using calculation(1) by (auto simp: bumpUpdated_def Let_def split: option.splits if_splits)
          ultimately show thesis using refused [of e] fail f3 by simp
        next
          case (run stamped w4)
          then have stamped: "bumpUpdated key page today = Inr stamped" "w4 = w3" by (simp_all add: io_sum_def)
          obtain index w5 where index: "readOrEmpty indexFile w3 = (Inr index, w5)" using readOrEmpty_Inr by blast
          obtain history w6 where history: "readOrEmpty logFile w5 = (Inr history, w6)" using readOrEmpty_Inr by blast
          have f6: "wk_files w6 = wk_files w"
            using readOrEmpty_files [OF index] readOrEmpty_files [OF history] f3 by simp
          have reads: "index = read_as (wk_files w) indexFile o3 \<and> history = read_as (wk_files w) logFile o4"
            if ops: "wk_ops w = o1 # o2 # o3 # o4 # os" for o1 o2 o3 o4 os
          proof -
            have "wk_ops w3 = o3 # o4 # os"
              using ops ReadFile_ops [OF \<open>ReadFile key (CannotFile key) w2 = (Inr page, w3)\<close>]
                lockWiki_ops [OF \<open>lockWiki w = (Inr (), w2)\<close>] by simp
            then have i: "index = read_as (wk_files w3) indexFile o3" "w5 = w3\<lparr>wk_ops := o4 # os\<rparr>"
              using index readOrEmpty_reads [of w3] by auto
            then have "history = read_as (wk_files w5) logFile o4"
              using history readOrEmpty_reads [of w5] by auto
            with i show ?thesis using f3 by simp
          qed
          define es where "es =
            [edit_of key (trim_newlines stamped @ [newline, newline] @ findingBlock f today),
             edit_of indexFile (fst (indexPointer index key (pf_title (fst (frontmatter page))) (fi_Title f))),
             edit_of logFile (appendLog history today (fi_Log f))]"
          have es: "contents es = filed_edits f today key page stamped index history" "length es = 3"
            by (simp_all add: es_def edit_of_def filed_edits_def)
          define pointed where "pointed = snd (indexPointer index key (pf_title (fst (frontmatter page))) (fi_Title f))"
          have rest: "io_then (writeAll es) (io_return \<lparr>ar_Page = key, ar_Indexed = pointed, ar_SyncErr = None\<rparr>) w6 = (r, w')"
            using run(2) index history stamped(2)
            by (simp add: io_bind_def [of "readOrEmpty _"] case_prod_beta es_def pointed_def)
          obtain r2 w7 where wr: "writeAll es w6 = (r2, w7)" by fastforce
          then have w7: "w' = w7" "case r2 of Inl e \<Rightarrow> r = Inl e | Inr _ \<Rightarrow> \<exists>res. r = Inr res \<and> ar_Page res = key"
            using rest by (auto simp: io_then_def io_bind_def io_return_def split: sum.splits)
          obtain k where k: "k \<le> 3" "wk_files w' = land (take k (filed_edits f today key page stamped index history)) (wk_files w)"
            "case r2 of Inr _ \<Rightarrow> k = 3 | Inl e \<Rightarrow> (\<exists>p. e = StageError p) \<and> k = 0 \<or> (\<exists>p. e = WriteError p)"
            using writeAll_spec [OF wr] unfolding es f6 w7(1) by blast
          show thesis
          proof (cases r2)
            case (Inl e)
            show thesis
            proof (cases "\<exists>p. e = WriteError p")
              case True
              then show thesis using written [OF key(1) page stamped(1) k(1,2) _ reads] Inl w7(2) by simp
            next
              case False
              then show thesis using refused [of e] k(2,3) Inl w7(2) by auto
            qed
          next
            case (Inr u)
            then show thesis using written [OF key(1) page stamped(1) k(1,2) _ reads] k(3) w7(2) by auto
          qed
        qed
      qed
    qed
  qed
qed

lemma Add_cases:
  assumes "Add f now None w = (r, w')"
  obtains (refused) e where "r = Inl e" "wk_files w' = wk_files w" "\<And>p. e \<noteq> WriteError p"
  | (written) key page stamped index history k
    where "validate_finding f = None" "pagePath (fi_Page f) = Inr key" "lookup (wk_files w) key = Some page"
      "bumpUpdated key page (format_day now) = Inr stamped" "k \<le> 3"
      "wk_files w' = land (take k (filed_edits f (format_day now) key page stamped index history)) (wk_files w)"
      "case r of Inr res \<Rightarrow> k = 3 \<and> ar_Page res = key | Inl e \<Rightarrow> \<exists>p. e = WriteError p"
      "\<And>o1 o2 o3 o4 os. wk_ops w = o1 # o2 # o3 # o4 # os \<Longrightarrow>
         index = read_as (wk_files w) indexFile o3 \<and> history = read_as (wk_files w) logFile o4"
proof (cases "validate_finding f")
  case (Some e)
  then have "r = Inl e" "w' = w" using assms by (simp_all add: Add_def io_fail_def)
  moreover have "e \<noteq> WriteError p" for p
    using Some by (auto simp: validate_finding_def split: if_splits)
  ultimately show thesis using refused by blast
next
  case None
  let ?today = "format_day now"
  show thesis
  proof (cases "refuseFrench (findingBlock f ?today @ [newline] @ fi_Log f)")
    case (Some e)
    then have "r = Inl e" "w' = w" using assms None by (simp_all add: Add_def io_fail_def)
    moreover have "e \<noteq> WriteError p" for p
      using Some by (auto simp: refuseFrench_def split: list.splits)
    ultimately show thesis using refused by blast
  next
    case ok: None
    have "fileFinding f ?today (findingBlock f ?today) w = (r, w')"
      using assms None ok by (cases "fileFinding f ?today (findingBlock f ?today) w")
        (auto simp: Add_def io_bind_def Let_def split: sum.splits)
    then show thesis
      by (cases rule: fileFinding_cases) (use refused written None in blast)+
  qed
qed

subsection \<open>Properties\<close>

text \<open>
  C20: filing a finding makes all three edits, page, index and log, when it reports success, and none
  when it reports anything but a failed rename; after a failed rename the first of them are made, each
  as a whole. This holds for every way the file operations can end.
\<close>

theorem finding_lands_together:
  "case Add f now None w of (r, w') \<Rightarrow>
     (\<exists>key page stamped index history k.
        wk_files w' = land (take k (filed_edits f (format_day now) key page stamped index history)) (wk_files w) \<and>
        (k = 0 \<or> lookup (wk_files w) key = Some page \<and> bumpUpdated key page (format_day now) = Inr stamped) \<and>
        (case r of
           Inr res \<Rightarrow> k = 3 \<and> ar_Page res = key
         | Inl (WriteError p) \<Rightarrow> k \<le> 3
         | Inl e \<Rightarrow> k = 0))"
proof -
  obtain r w' where run: "Add f now None w = (r, w')" by fastforce
  from run show ?thesis
  proof (cases rule: Add_cases)
    case (refused e)
    then have "case r of Inr res \<Rightarrow> (0 :: nat) = 3 \<and> ar_Page res = [] | Inl (WriteError p) \<Rightarrow> 0 \<le> (3 :: nat) | Inl e \<Rightarrow> 0 = (0 :: nat)"
      by (simp split: wiki_error.split)
    then show ?thesis
      unfolding run prod.case using refused(2)
      by (intro exI [where x = "[]"] exI [where x = 0]) simp
  next
    case (written key page stamped index history k)
    then have "case r of Inr res \<Rightarrow> k = 3 \<and> ar_Page res = key | Inl (WriteError p) \<Rightarrow> k \<le> 3 | Inl e \<Rightarrow> k = 0"
      by (auto split: sum.splits)
    then show ?thesis
      unfolding run prod.case using written by blast
  qed
qed

lemma land_three:
  "wk_files w' = land (take 3 (filed_edits f today key page stamped index history)) files \<Longrightarrow>
   lookup (wk_files w') logFile = Some (appendLog history today (fi_Log f)) \<and>
   lookup (wk_files w') indexFile = Some (fst (indexPointer index key (pf_title (fst (frontmatter page))) (fi_Title f))) \<and>
   (key \<noteq> indexFile \<longrightarrow> key \<noteq> logFile \<longrightarrow>
    lookup (wk_files w') key = Some (trim_newlines stamped @ [newline, newline] @ findingBlock f today))"
  by (simp add: filed_edits_def indexFile_def logFile_def)

subsection \<open>A wiki the witnesses run on\<close>

definition demo_head :: "string list" where "demo_head = [''title: A'']"

definition demo_finding :: "string \<Rightarrow> Finding" where
  "demo_finding page =
     \<lparr>fi_Page = page, fi_Title = ''T'', fi_Source = ''S'', fi_Body = ''B'', fi_Log = ''L''\<rparr>"

definition demo_wiki :: "outcome \<Rightarrow> wiki" where
  "demo_wiki log_read =
     \<lparr>wk_files = [(''a.md'', page_of demo_head (newline # ''Text'')),
        (''index.md'', page_of demo_head (newline # ''Text'')), (''log.md'', ''# Log'')],
      wk_temps = [], wk_next = 0, wk_ops = [Done, Done, Done, log_read]\<rparr>"

lemma demo_runs:
  "fst (Add (demo_finding ''a'') 0 None (demo_wiki Done)) = Inr \<lparr>ar_Page = ''a.md'', ar_Indexed = True, ar_SyncErr = None\<rparr>"
  "fst (Add (demo_finding ''a'') 0 None (demo_wiki Refused)) = Inr \<lparr>ar_Page = ''a.md'', ar_Indexed = True, ar_SyncErr = None\<rparr>"
  "fst (Add (demo_finding ''index'') 0 None (demo_wiki Done)) = Inr \<lparr>ar_Page = ''index.md'', ar_Indexed = True, ar_SyncErr = None\<rparr>"
  by code_simp+

lemma demo_add_run:
  "Add (demo_finding ''a'') 0 None (demo_wiki Done) =
     (Inr \<lparr>ar_Page = ''a.md'', ar_Indexed = True, ar_SyncErr = None\<rparr>, snd (Add (demo_finding ''a'') 0 None (demo_wiki Done)))"
  "Add (demo_finding ''a'') 0 None (demo_wiki Refused) =
     (Inr \<lparr>ar_Page = ''a.md'', ar_Indexed = True, ar_SyncErr = None\<rparr>, snd (Add (demo_finding ''a'') 0 None (demo_wiki Refused)))"
  "Add (demo_finding ''index'') 0 None (demo_wiki Done) =
     (Inr \<lparr>ar_Page = ''index.md'', ar_Indexed = True, ar_SyncErr = None\<rparr>, snd (Add (demo_finding ''index'') 0 None (demo_wiki Done)))"
  using demo_runs by (metis surjective_pairing)+

lemma demo_wiki_simps:
  "wk_ops (demo_wiki o4) = Done # Done # Done # o4 # []"
  "lookup (wk_files (demo_wiki o4)) ''a.md'' = Some (page_of demo_head ([] @ newline # ''Text''))"
  "lookup (wk_files (demo_wiki o4)) indexFile = Some (page_of demo_head ([] @ newline # ''Text''))"
  "lookup (wk_files (demo_wiki o4)) logFile = Some ''# Log''"
  by (simp_all add: demo_wiki_def indexFile_def logFile_def)

subsection \<open>The log and the index\<close>



text \<open>
  A log that could not be read is overwritten. \<open>readOrEmpty\<close> takes every failure for a file that is
  not there, so after one failed read the whole history is the entry just made.
\<close>

theorem unreadable_log_overwritten:
  assumes "Add f now None w = (Inr res, w')" and "wk_ops w = o1 # o2 # o3 # Refused # os"
  shows "lookup (wk_files w') logFile = Some (log_line (format_day now) (fi_Log f))"
  using assms(1)
proof (cases rule: Add_cases)
  case (written key page stamped index history k)
  then have k: "k = 3" by simp
  have "history = []"
    using written(8) [OF assms(2)] by (auto simp: read_as_def split: option.splits)
  then show ?thesis
    using land_three [OF written(6) [unfolded k]] by (simp add: appendLog_def)
qed simp

theorem unreadable_log_overwritten_witness:
  "lookup (wk_files (snd (Add (demo_finding ''a'') 0 None (demo_wiki Refused)))) logFile =
     Some (log_line ''1970-01-01'' ''L'')"
proof -
  have "format_day 0 = ''1970-01-01''" by code_simp
  then show ?thesis
    using unreadable_log_overwritten [OF demo_add_run(2) demo_wiki_simps(1)] by (simp add: demo_finding_def)
qed

lemma str_contains_trans: "str_contains a b \<Longrightarrow> str_contains b c \<Longrightarrow> str_contains a c"
  unfolding str_contains_iff by (metis append.assoc)

lemma join_contains: "l \<in> set ls \<Longrightarrow> str_contains (join_lines ls) l"
proof (induction "[newline]" ls rule: str_join.induct)
  case (3 w v ws)
  show ?case
  proof (cases "l = w")
    case True
    then have "join_lines (w # v # ws) = [] @ l @ newline # join_lines (v # ws)" by simp
    then show ?thesis unfolding str_contains_iff by blast
  next
    case False
    then obtain a b where "join_lines (v # ws) = a @ l @ b" using 3 by (auto simp: str_contains_iff)
    then have "join_lines (w # v # ws) = (w @ newline # a) @ l @ b" by simp
    then show ?thesis unfolding str_contains_iff by blast
  qed
qed (auto simp: str_contains_iff, metis append_Nil append_Nil2)

text \<open>The lines of the index after an insertion: those before, and the new one among them.\<close>

lemma insertInSection_lines:
  assumes "trim_space index \<noteq> []"
  obtains a b c where "insertInSection index sec line = join_lines (a @ c @ [line] @ b) @ [newline]"
    "lines_of (trim_newlines index) = a @ b" "c = [] \<or> c = [[], ''## '' @ sec, []]"
proof (cases "section_start (''## '' @ sec) (lines_of (trim_newlines index))")
  case None
  then show thesis
    using assms that [of "lines_of (trim_newlines index)" "[[], ''## '' @ sec, []]" "[]"]
    by (simp add: insertInSection_def Let_def)
next
  case (Some start)
  let ?ls = "lines_of (trim_newlines index)"
  show thesis
    using assms Some that [of "take (section_end start ?ls) ?ls" "[]" "drop (section_end start ?ls) ?ls"]
    by (simp add: insertInSection_def Let_def)
qed

lemma insertInSection_contains: "str_contains (insertInSection index sec line) line"
proof (cases "trim_space index = []")
  case True
  then show ?thesis
    using join_contains [of line "[''## '' @ sec, [], line]"] str_contains_append_mono
    by (simp add: insertInSection_def Let_def del: str_join.simps)
next
  case False
  then obtain a b c where "insertInSection index sec line = join_lines (a @ c @ [line] @ b) @ [newline]"
    by (rule insertInSection_lines)
  then show ?thesis using join_contains [of line "a @ c @ [line] @ b"] str_contains_append_mono by simp
qed

lemma pointer_line_contains: "str_contains (pointer_line page title finding) (''('' @ page @ '')'')"
proof -
  obtain name where "pointer_line page title finding = (''- ['' @ name @ '']'') @ (''('' @ page @ '')'') @ '': '' @ trim_space finding"
    by (auto simp: pointer_line_def Let_def)
  then show ?thesis unfolding str_contains_iff by blast
qed

lemma lines_join_concat: "ls \<noteq> [] \<Longrightarrow> lines_of (join_lines ls) = concat (map lines_of ls)"
  by (induction "[newline]" ls rule: str_join.induct) (simp_all add: split_on_append)

lemma concat_clean: "clean_lines ls \<Longrightarrow> concat (map lines_of ls) = ls"
  by (induction ls) (simp_all add: split_on_word)

text \<open>
  The index has one line per page. Adding a pointer keeps every line of the index in its order,
  and after it, or after any further pointers, the page is found there and no line is added for it.
\<close>

theorem index_one_line_per_page:
  assumes "trim_space index \<noteq> []"
  shows "subseq (lines_of (trim_newlines index)) (lines_of (fst (indexPointer index page title finding))) \<and>
    indexPointer (fst (indexPointer index page title finding)) page title' finding' =
      (fst (indexPointer index page title finding), False)"
proof (cases "str_contains index (''('' @ page @ '')'')")
  case True
  obtain j where "index = trim_newlines index @ replicate j newline" using trim_newlines_split by blast
  then have "lines_of index = lines_of (trim_newlines index) @ replicate j []" by (metis lines_blank)
  then have "subseq (lines_of (trim_newlines index)) (lines_of index)"
    by (simp add: prefix_imp_subseq)
  with True show ?thesis by (simp add: indexPointer_def)
next
  case False
  let ?line = "pointer_line page title finding"
  let ?new = "insertInSection index (section_of page) ?line"
  have new: "indexPointer index page title finding = (?new, True)" using False by (simp add: indexPointer_def)
  obtain a b c where ins: "?new = join_lines (a @ c @ [?line] @ b) @ [newline]"
    "lines_of (trim_newlines index) = a @ b"
    by (rule insertInSection_lines [OF assms])
  have "lines_of (?new) = lines_of (join_lines (a @ c @ [?line] @ b)) @ [[]]"
    using lines_blank [of _ 1] unfolding ins(1) by simp
  moreover have "lines_of (join_lines (a @ c @ [?line] @ b)) = a @ (concat (map lines_of c) @ lines_of ?line) @ b"
  proof -
    have "clean_lines (a @ b)" using ins(2) clean_lines_of by metis
    then show ?thesis by (simp add: lines_join_concat concat_clean)
  qed
  moreover have "subseq (a @ b) (a @ (concat (map lines_of c) @ lines_of ?line) @ b @ [[]])"
    by (intro list_emb_append_mono subseq_order.refl) (simp add: list_emb_append_mono subseq_drop_many prefix_imp_subseq)
  ultimately have "subseq (lines_of (trim_newlines index)) (lines_of ?new)" using ins(2) by simp
  moreover have "str_contains ?new (''('' @ page @ '')'')"
    using str_contains_trans insertInSection_contains pointer_line_contains by blast
  ultimately show ?thesis unfolding new by (simp add: indexPointer_def)
qed

theorem index_one_line_per_page_witness:
  "indexPointer (fst (indexPointer ''# Index'' ''a.md'' [] ''x'')) ''a.md'' [] ''y'' =
     (fst (indexPointer ''# Index'' ''a.md'' [] ''x''), False)"
  by (rule index_one_line_per_page [THEN conjunct2])
    (simp add: trim_space_def trim_left_def trim_right_def is_space_byte_def)

subsection \<open>The finding on its page\<close>

text \<open>The block of a finding as the search is to return it, before it is split.\<close>

definition finding_chunk :: "Finding \<Rightarrow> string \<Rightarrow> string \<Rightarrow> pageFront \<Rightarrow> nat \<Rightarrow> Chunk" where
  "finding_chunk f today key front line =
     (block_at key front (trim_space (fi_Title f)) line)
       \<lparr>ck_Header := chunkHeader key (pf_title front) (pf_kind front) @ '' / '' @ trim_space (fi_Title f),
        ck_Body := join_lines [''**Date**: '' @ today, ''**Source**: '' @ trim_space (fi_Source f), trim_space (fi_Body f)]\<rparr>"

lemma last_trim_right: "trim_right P s \<noteq> [] \<Longrightarrow> \<not> P (last (trim_right P s))"
  unfolding trim_right_def by (metis hd_dropWhile last_rev rev_is_Nil_conv)

lemma last_trim_space: "trim_space s \<noteq> [] \<Longrightarrow> \<not> is_space_byte (last (trim_space s))"
  unfolding trim_space_def by (rule last_trim_right)

lemma hd_trim_left: "trim_left P s \<noteq> [] \<Longrightarrow> \<not> P (hd (trim_left P s))"
  unfolding trim_left_def by (rule hd_dropWhile)

lemma trim_space_idem [simp]: "trim_space (trim_space s) = trim_space s"
proof (cases "trim_space s = []")
  case False
  obtain t where t: "trim_left is_space_byte s = trim_space s @ t"
    using trim_right_append unfolding trim_space_def by metis
  then have "trim_left is_space_byte s \<noteq> []" "hd (trim_left is_space_byte s) = hd (trim_space s)"
    using False by simp_all
  then show ?thesis
    using hd_trim_left last_trim_space [OF False] by (metis trim_space_id)
qed simp

lemma finding_block_lines:
  assumes "newline \<notin> set (trim_space (fi_Title f))" "newline \<notin> set (trim_space (fi_Source f))" "newline \<notin> set today"
  shows "lines_of (findingBlock f today) = (''### '' @ trim_space (fi_Title f)) #
    (''**Date**: '' @ today) # (''**Source**: '' @ trim_space (fi_Source f)) # lines_of (trim_space (fi_Body f)) @ [[]]"
proof -
  have block: "findingBlock f today = (''### '' @ trim_space (fi_Title f)) @ newline # (''**Date**: '' @ today) @ newline #
      (''**Source**: '' @ trim_space (fi_Source f)) @ newline # (trim_space (fi_Body f) @ newline # [])"
    by (simp add: findingBlock_def)
  show ?thesis
    unfolding block split_on_append using assms by (simp add: split_on_word)
qed

lemma finding_chunks:
  assumes "trim_space (fi_Body f) \<noteq> []" "trim_space (fi_Title f) \<noteq> []"
  shows "appendChunk [] (block_at key front (trim_space (fi_Title f)) n)
      ((''**Date**: '' @ today) # (''**Source**: '' @ trim_space (fi_Source f)) # lines_of (trim_space (fi_Body f)) @ [[]]) =
    split (finding_chunk f today key front n)"
proof -
  let ?ls = "(''**Date**: '' @ today) # (''**Source**: '' @ trim_space (fi_Source f)) # lines_of (trim_space (fi_Body f))"
  let ?body = "join_lines [''**Date**: '' @ today, ''**Source**: '' @ trim_space (fi_Source f), trim_space (fi_Body f)]"
  have meta: "takeMeta ?ls = (no_meta, ?ls)"
    using takeMeta_none [of "CHR ''*''"] by (simp add: is_space_byte_def)
  have "join_lines ?ls = ?body"
    using join_split_on [of newline "trim_space (fi_Body f)"] split_on_nonempty [of newline "trim_space (fi_Body f)"]
    by (cases "lines_of (trim_space (fi_Body f))") simp_all
  moreover have "trim_space ?body = ?body"
  proof (rule trim_space_id)
    show "\<not> is_space_byte (hd ?body)" by (simp add: is_space_byte_def)
    show "\<not> is_space_byte (last ?body)" using last_trim_space [OF assms(1)] assms(1) by simp
  qed
  ultimately have body: "trim_space (join_lines ?ls) = ?body" by simp
  have "appendChunk [] c (?ls @ replicate 1 []) = appendChunk [] c ?ls" for c by (rule appendChunk_blank)
  then have blank: "appendChunk [] c (?ls @ [[]]) = appendChunk [] c ?ls" for c by simp
  have "appendChunk [] (block_at key front (trim_space (fi_Title f)) n) ?ls = split (finding_chunk f today key front n)"
    using assms(2) unfolding appendChunk_def meta prod.case Let_def body
    by (simp add: block_at_def chunk_at_def finding_chunk_def)
  then show ?thesis using blank by simp
qed

subsection \<open>Its date\<close>

lemma split_loop_first:
  "buf \<noteq> [] \<Longrightarrow> clean_lines (buf @ ls) \<Longrightarrow>
   split_loop c i ls buf sz lineAt \<noteq> [] \<and> hd (lines_of (ck_Body (hd (split_loop c i ls buf sz lineAt)))) = hd buf"
proof (induction c i ls buf sz lineAt rule: split_loop.induct)
  case (2 c i line rest buf sz lineAt)
  show ?case
  proof (cases "MaxChunkChars < sz + length line \<and> buf \<noteq> []")
    case True
    then show ?thesis using 2(4) by simp
  next
    case False
    have "clean_lines ((buf @ [line]) @ rest)" using 2(4) by simp
    then show ?thesis using 2(2) [OF False] 2(3) unfolding split_loop_keep [OF False] by simp
  qed
qed simp

lemma split_first: "split c \<noteq> [] \<and> hd (lines_of (ck_Body (hd (split c)))) = hd (lines_of (ck_Body c))"
proof (cases "length (Text c) \<le> MaxChunkChars")
  case False
  obtain l ls where l: "lines_of (ck_Body c) = l # ls" by (cases "lines_of (ck_Body c)") simp_all
  have "clean_lines ([l] @ ls)" using clean_lines_of [of "ck_Body c"] l by simp
  then show ?thesis
    using split_loop_first [of "[l]" ls c 1] False l by (simp add: split_def)
qed (simp add: split_def)

lemma latest_from_skip:
  "\<forall>i\<in>set is. \<not> looksLikeDay (take 10 (drop i line)) \<Longrightarrow> latest_from line is best = best"
  by (induction "is" arbitrary: best) auto

lemma latest_from_append: "latest_from line (a @ b) best = latest_from line b (latest_from line a best)"
  by (induction a arbitrary: best) (auto simp: Let_def)

lemma format_day_length: "length (format_day t) = 10"
  by (simp add: format_day_def split: prod.split)

lemma format_day_ends: "\<not> is_space_byte (hd (format_day t))" "\<not> is_space_byte (last (format_day t))"
proof -
  have nospace: "\<not> is_space_byte c" if "c \<in> set (format_day t)" for c
    using that format_day_chars [of t] by (auto simp: list_all_iff is_space_byte_def is_digit_def)
  have "format_day t \<noteq> []" using format_day_length [of t] by auto
  then show "\<not> is_space_byte (hd (format_day t))" "\<not> is_space_byte (last (format_day t))"
    by (intro nospace; simp)+
qed

lemma latestDay_date_line:
  assumes "printable now" "zero_time < start_of_day now"
  shows "latestDay (''**Date**: '' @ format_day now) = Some (start_of_day now)"
proof -
  let ?day = "format_day now" and ?line = "''**Date**: '' @ format_day now"
  obtain y m d where date: "date_of now = (y, m, d)" by (metis prod_cases3)
  have day: "?day = pad_digits 4 y @ ''-'' @ pad_digits 2 m @ ''-'' @ pad_digits 2 d"
    by (simp add: format_day_def date)
  have len: "length ?day = 10" unfolding day by simp
  have digits: "\<forall>i<k. is_digit (pad_digits k n ! i)" for k n
    using pad_digits_all [of k n] by (simp add: list_all_length)
  have looks: "looksLikeDay ?day"
    unfolding looksLikeDay_def day using digits [of 4 y] digits [of 2 m] digits [of 2 d]
    by (simp add: nth_append)
  have early: "\<not> looksLikeDay (take 10 (drop i ?line))" if "i < 10" for i
  proof -
    have "take 10 (drop i l) ! 0 = l ! i" if "i < length l" for l :: string
      using that by simp
    then have "take 10 (drop i ?line) ! 0 = ?line ! i" using that by simp
    also have "?line ! i = ''**Date**: '' ! i"
      unfolding nth_append using that by simp
    finally have "take 10 (drop i ?line) ! 0 = ''**Date**: '' ! i" .
    moreover have "\<not> is_digit (''**Date**: '' ! i)"
      using that by (auto simp: less_Suc_eq numeral_eq_Suc is_digit_def)
    ultimately show ?thesis by (simp add: looksLikeDay_def)
  qed
  have range: "[0..<length ?line - 9] = [0..<10] @ [10]"
    using len by (simp add: upt_rec)
  have parse: "parseDay ?day = Some (start_of_day now)"
  proof -
    have "trim_space ?day = ?day"
      by (intro trim_space_id format_day_ends)
    then show ?thesis
      using parse_date_day [OF assms(1), of "[]"]
      by (simp add: parseDay_def parse_day_layout_def start_of_day_def)
  qed
  have "latest_from ?line [0..<length ?line - 9] zero_time = start_of_day now"
    unfolding range latest_from_append
    using latest_from_skip [of "[0..<10]" ?line zero_time] early looks parse assms(2) len
    by (simp add: Let_def)
  then show ?thesis using assms(2) by (simp add: latestDay_def Let_def)
qed

lemma finding_chunk_date:
  assumes "printable now" "zero_time < start_of_day now" "newline \<notin> set (trim_space (fi_Source f))"
  shows "chunk_Date (hd (split (finding_chunk f (format_day now) key front n))) = start_of_day now"
proof -
  let ?c = "finding_chunk f (format_day now) key front n"
  let ?p = "hd (split ?c)"
  have "lines_of (ck_Body ?c) = (''**Date**: '' @ format_day now) # (''**Source**: '' @ trim_space (fi_Source f)) #
      lines_of (trim_space (fi_Body f))"
  proof -
    have "ck_Body ?c = (''**Date**: '' @ format_day now) @ newline # (''**Source**: '' @ trim_space (fi_Source f)) @
        newline # trim_space (fi_Body f)"
      by (simp add: finding_chunk_def)
    then show ?thesis
      using assms(3) format_day_no_newline [of now] by (simp only: split_on_append) (simp add: split_on_word)
  qed
  then have "hd (lines_of (ck_Body ?p)) = ''**Date**: '' @ format_day now"
    using split_first [of ?c] by simp
  then obtain ls where "lines_of (ck_Body ?p) = (''**Date**: '' @ format_day now) # ls"
    using split_on_nonempty [of newline "ck_Body ?p"] by (cases "lines_of (ck_Body ?p)") simp_all
  moreover have "has_prefix (trim_space (''**Date**: '' @ format_day now)) ''**Date**''"
  proof -
    have "trim_space (''**Date**: '' @ format_day now) = ''**Date**: '' @ format_day now"
      using format_day_ends(2) [of now] format_day_length [of now]
      by (intro trim_space_id) (auto simp: is_space_byte_def)
    then show ?thesis by simp
  qed
  ultimately have "proseDate (ck_Body ?p) = start_of_day now"
    using latestDay_date_line [OF assms(1,2)] by (simp add: proseDate_def)
  moreover have "ck_Meta ?p = no_meta"
    using same_blockD(5) [OF split_same [of ?p ?c]] split_first [of ?c]
    by (simp add: finding_chunk_def block_at_def chunk_at_def)
  moreover have "parseDay [] = None" by code_simp
  ultimately show ?thesis by (simp add: chunk_Date_def no_meta_def)
qed



text \<open>
  C31: a finding filed on \<open>index.md\<close> is lost. The page is written with the finding on it, and then the
  index, composed from what it held before, is renamed over it; the call reports success.
\<close>

theorem finding_on_index_lost:
  assumes "Add f now None w = (Inr res, w')" and "ar_Page res = indexFile"
    and "wk_ops w = o1 # o2 # Done # o4 # os" and "lookup (wk_files w) indexFile = Some old"
  shows "lookup (wk_files w') indexFile =
    Some (fst (indexPointer old indexFile (pf_title (fst (frontmatter old))) (fi_Title f)))"
  using assms(1)
proof (cases rule: Add_cases)
  case (written key page stamped index history k)
  have k: "k = 3" "key = indexFile" "page = old" using written(3,7) assms(2,4) by simp_all
  have "index = old" using written(8) [OF assms(3)] assms(4) by (simp add: read_as_Done)
  then show ?thesis using land_three [OF written(6) [unfolded k(1)]] unfolding k(2,3) by simp
qed simp

theorem finding_on_index_lost_witness:
  "lookup (wk_files (snd (Add (demo_finding ''index'') 0 None (demo_wiki Done)))) indexFile =
     Some (fst (indexPointer (page_of demo_head (newline # ''Text'')) indexFile ''A'' ''T''))"
proof -
  have "pf_title (fst (frontmatter (page_of demo_head (newline # ''Text'')))) = ''A''" by code_simp
  then show ?thesis
    using finding_on_index_lost [OF demo_add_run(3) _ demo_wiki_simps(1,3)]
    by (simp add: demo_finding_def indexFile_def)
qed

end
