(* ===== verification/WikiRatify.thy ===== *)
theory WikiRatify
  imports WikiWrite SyncPaths
begin

text \<open>
  Normative pages, \<open>ratify.go\<close>: a page with \<open>type: standard\<close> is governed, and this machine keeps the
  checksum of the version a human accepted. The pin store \<open>.memory-ratified.json\<close> is absent, does not
  parse, or holds the pins. Reads and writes end as the script says; the store is replaced by a
  rename, so a failed write leaves it as it was.
\<close>

record Ratification =
  ra_Checksum :: string
  ra_Machine :: string
  ra_Date :: string

datatype Standing = Ratified | Unratified | Changed | Missing

record NormativePage =
  np_Path :: string
  np_Standing :: Standing
  np_On :: string
  np_Machine :: string

record governed =
  gv_files :: "(string, string) gomap"
  gv_pins :: "(string, Ratification) gomap json_file"
  gv_ops :: "outcome list"

datatype ratify_error =
  PinsUnreadable | PinsCorrupt | BadPage wiki_error | CannotRatify string | PinsNotWritten

type_synonym 'a governed_io = "(ratify_error, 'a, governed) io"

definition normativeType :: string where "normativeType = ''standard''"

definition page_OK :: "NormativePage \<Rightarrow> bool" where
  "page_OK p \<longleftrightarrow> np_Standing p = Ratified \<or> np_Standing p = Unratified"

definition page_Checksum :: "string \<Rightarrow> string" where
  "page_Checksum data = ''sha256:'' @ sha256_hex data"

definition no_pin :: Ratification where
  "no_pin = \<lparr>ra_Checksum = [], ra_Machine = [], ra_Date = []\<rparr>"

definition describe :: "string \<Rightarrow> Ratification \<Rightarrow> Standing \<Rightarrow> NormativePage" where
  "describe key pin s = \<lparr>np_Path = key, np_Standing = s, np_On = ra_Date pin, np_Machine = ra_Machine pin\<rparr>"

definition standing :: "string \<Rightarrow> string \<Rightarrow> Standing" where
  "standing pinned actual =
     (if pinned = [] then Unratified else if pinned = actual then Ratified else Changed)"

text \<open>The next entry of the script: whether the effect is carried out.\<close>

definition effect :: "governed \<Rightarrow> bool \<times> governed" where
  "effect g = (case gv_ops g of [] \<Rightarrow> (True, g) | o' # os \<Rightarrow> (o' = Done, g\<lparr>gv_ops := os\<rparr>))"

definition page_read :: "string \<Rightarrow> governed \<Rightarrow> string option \<times> governed" where
  "page_read key g = (case effect g of (ok, g) \<Rightarrow> (if ok then lookup (gv_files g) key else None, g))"

definition readPins :: "(string, Ratification) gomap governed_io" where
  "readPins g =
     (case effect g of (ok, g) \<Rightarrow>
        (if \<not> ok then Inl PinsUnreadable
         else case gv_pins g of
           Absent \<Rightarrow> Inr []
         | Corrupt \<Rightarrow> Inl PinsCorrupt
         | Stored pins \<Rightarrow> Inr pins, g))"

definition writePins :: "(string, Ratification) gomap \<Rightarrow> unit governed_io" where
  "writePins pins g =
     (case effect g of (ok, g) \<Rightarrow>
        if ok then (Inr (), g\<lparr>gv_pins := Stored pins\<rparr>) else (Inl PinsNotWritten, g))"

definition page_key :: "string \<Rightarrow> ratify_error + string" where
  "page_key path = (case pageKey path of Inl e \<Rightarrow> Inl (BadPage e) | Inr key \<Rightarrow> Inr key)"

fun pin_pages ::
  "string \<Rightarrow> instant \<Rightarrow> string list \<Rightarrow> (string, Ratification) gomap \<Rightarrow> (string, Ratification) gomap governed_io"
where
  "pin_pages machine now [] pins = io_return pins"
| "pin_pages machine now (path # paths) pins =
     io_bind (io_sum (page_key path)) (\<lambda>key g.
       case page_read key g of
         (None, g) \<Rightarrow> (Inl (CannotRatify key), g)
       | (Some d, g) \<Rightarrow>
           pin_pages machine now paths
             (AList.update key \<lparr>ra_Checksum = page_Checksum d, ra_Machine = machine, ra_Date = format_day now\<rparr> pins) g)"

definition Ratify :: "string \<Rightarrow> instant \<Rightarrow> string list \<Rightarrow> unit governed_io" where
  "Ratify machine now paths =
     io_bind readPins (\<lambda>pins. io_bind (pin_pages machine now paths pins) writePins)"

fun drop_pins :: "string list \<Rightarrow> (string, Ratification) gomap \<Rightarrow> (string, Ratification) gomap governed_io" where
  "drop_pins [] pins = io_return pins"
| "drop_pins (path # paths) pins =
     io_bind (io_sum (page_key path)) (\<lambda>key. drop_pins paths (AList.delete key pins))"

definition Forget :: "string list \<Rightarrow> unit governed_io" where
  "Forget paths = io_bind readPins (\<lambda>pins. io_bind (drop_pins paths pins) writePins)"

text \<open>The walk over the wiki: a page that cannot be read is passed over.\<close>

fun walk_pages ::
  "(string, Ratification) gomap \<Rightarrow> string list \<Rightarrow> NormativePage list \<Rightarrow> governed \<Rightarrow> NormativePage list \<times> governed"
where
  "walk_pages pins [] pages g = (pages, g)"
| "walk_pages pins (key # keys) pages g =
     (if \<not> has_suffix key ''.md'' then walk_pages pins keys pages g
      else case page_read key g of
        (None, g) \<Rightarrow> walk_pages pins keys pages g
      | (Some d, g) \<Rightarrow>
          if pf_kind (fst (frontmatter d)) \<noteq> normativeType then walk_pages pins keys pages g
          else let pin = get_or no_pin pins key in
            walk_pages pins keys
              (pages @ [describe key pin (standing (ra_Checksum pin) (page_Checksum d))]) g)"

definition NormativePages :: "NormativePage list governed_io" where
  "NormativePages =
     io_bind readPins (\<lambda>pins g.
       case walk_pages pins (walk_order (remdups (map_keys (gv_files g)))) [] g of (pages, g) \<Rightarrow>
         let seen = map np_Path pages;
             missing = filter (\<lambda>key. key \<notin> set seen) (remdups (map_keys pins))
         in (Inr (sort_key np_Path
               (pages @ map (\<lambda>key. describe key (get_or no_pin pins key) Missing) missing)), g))"

fun changed_keys :: "(string, Ratification) gomap \<Rightarrow> string list \<Rightarrow> governed \<Rightarrow> string list \<times> governed" where
  "changed_keys pins [] g = ([], g)"
| "changed_keys pins (key # keys) g =
     (case page_read key g of (d, g) \<Rightarrow>
        (case changed_keys pins keys g of (rest, g) \<Rightarrow>
           (if d = None \<or> page_Checksum (the d) \<noteq> ra_Checksum (get_or no_pin pins key) then key # rest else rest, g)))"

definition ChangedPages :: "string list governed_io" where
  "ChangedPages =
     io_bind readPins (\<lambda>pins g.
       if pins = [] then (Inr [], g)
       else case changed_keys pins (remdups (map_keys pins)) g of (keys, g) \<Rightarrow> (Inr keys, g))"

subsection \<open>What is pinned\<close>

definition pins_of :: "governed \<Rightarrow> (string, Ratification) gomap" where
  "pins_of g = stored_or_empty (gv_pins g)"

lemma effect_keeps [simp]:
  "effect g = (ok, g') \<Longrightarrow> gv_files g' = gv_files g \<and> gv_pins g' = gv_pins g"
  by (auto simp: effect_def split: list.splits)

lemma page_read_keeps:
  "page_read key g = (d, g') \<Longrightarrow> gv_files g' = gv_files g \<and> gv_pins g' = gv_pins g"
  by (auto simp: page_read_def split: prod.splits dest: effect_keeps)

lemma page_read_Some: "page_read key g = (Some d, g') \<Longrightarrow> lookup (gv_files g) key = Some d"
  by (auto simp: page_read_def split: prod.splits if_splits dest: effect_keeps)

lemma readPins_keeps: "readPins g = (r, g') \<Longrightarrow> gv_files g' = gv_files g \<and> gv_pins g' = gv_pins g"
  by (auto simp: readPins_def split: prod.splits dest: effect_keeps)

lemma readPins_Inr: "readPins g = (Inr pins, g') \<Longrightarrow> pins = pins_of g"
  by (auto simp: readPins_def pins_of_def stored_or_empty_def split: prod.splits if_splits json_file.splits
      dest: effect_keeps)

definition pinned_keys :: "string list \<Rightarrow> string set" where
  "pinned_keys paths = {key. \<exists>p\<in>set paths. pageKey p = Inr key}"

lemma pin_pages_keeps: "pin_pages machine now paths pins g = (r, g') \<Longrightarrow> gv_files g' = gv_files g \<and> gv_pins g' = gv_pins g"
proof (induction paths arbitrary: pins g)
  case (Cons path paths)
  then show ?case
    by (auto simp: io_bind_def io_sum_def split: sum.splits prod.splits option.splits dest: page_read_keeps)
qed (simp add: io_return_def)

lemma pin_pages_Inr:
  "pin_pages machine now paths pins g = (Inr pins', g') \<Longrightarrow>
   lookup pins' key =
     (if key \<in> pinned_keys paths
      then map_option (\<lambda>d. \<lparr>ra_Checksum = page_Checksum d, ra_Machine = machine, ra_Date = format_day now\<rparr>)
             (lookup (gv_files g) key)
      else lookup pins key) \<and>
   pinned_keys paths \<subseteq> dom (lookup (gv_files g))"
proof (induction paths arbitrary: pins g)
  case Nil
  then show ?case by (simp add: io_return_def pinned_keys_def)
next
  case (Cons path paths)
  then obtain k d g1 where k: "page_key path = Inr k" "page_read k g = (Some d, g1)"
    and rest: "pin_pages machine now paths
      (AList.update k \<lparr>ra_Checksum = page_Checksum d, ra_Machine = machine, ra_Date = format_day now\<rparr> pins) g1 = (Inr pins', g')"
    by (auto simp: io_bind_def io_sum_def split: sum.splits prod.splits option.splits)
  have pk: "pageKey path = Inr k" using k(1) by (auto simp: page_key_def split: sum.splits)
  then have "pinned_keys (path # paths) = insert k (pinned_keys paths)" by (auto simp: pinned_keys_def)
  moreover have "lookup (gv_files g) k = Some d" "gv_files g1 = gv_files g"
    using page_read_Some [OF k(2)] page_read_keeps [OF k(2)] by simp_all
  ultimately show ?case using Cons.IH [OF rest] by auto
qed

lemma Ratify_cases:
  assumes "Ratify machine now paths g = (r, g')"
  obtains (failed) e where "r = Inl e" "gv_files g' = gv_files g" "gv_pins g' = gv_pins g"
  | (pinned) pins g1 where "r = Inr ()" "gv_files g' = gv_files g" "gv_pins g' = Stored pins"
      "gv_files g1 = gv_files g" "pin_pages machine now paths (pins_of g) g1 = (Inr pins, snd (pin_pages machine now paths (pins_of g) g1))"
proof -
  from assms show thesis
    unfolding Ratify_def
  proof (cases rule: io_bindE)
    case (fail e)
    then show thesis using failed readPins_keeps by blast
  next
    case (run pins0 g1)
    note keep = readPins_keeps [OF run(1)] and pins0 = readPins_Inr [OF run(1)]
    from run(2) show thesis
    proof (cases rule: io_bindE)
      case (fail e)
      then show thesis using failed [of e] pin_pages_keeps [OF fail(1)] keep by simp
    next
      case (run pins g2)
      note keep2 = pin_pages_keeps [OF run(1)]
      obtain ok g3 where ef: "effect g2 = (ok, g3)" by fastforce
      show thesis
      proof (cases ok)
        case True
        then show thesis
          using pinned [of pins g1] run ef effect_keeps [OF ef] keep keep2 pins0 by (auto simp: writePins_def)
      next
        case False
        then show thesis
          using failed run ef effect_keeps [OF ef] keep keep2 by (auto simp: writePins_def)
      qed
    qed
  qed
qed

text \<open>
  C29: ratifying pins each named page at the bytes it holds and leaves every other pin alone; when any
  of the pages cannot be pinned, or a read or the write fails, no pin changes. No page is written.
\<close>

theorem ratify_pins_pages:
  "case Ratify machine now paths g of (r, g') \<Rightarrow>
     gv_files g' = gv_files g \<and>
     (case r of
        Inl e \<Rightarrow> gv_pins g' = gv_pins g
      | Inr _ \<Rightarrow> pinned_keys paths \<subseteq> dom (lookup (gv_files g)) \<and>
          lookup (pins_of g') = (\<lambda>key. if key \<in> pinned_keys paths
            then map_option (\<lambda>d. \<lparr>ra_Checksum = page_Checksum d, ra_Machine = machine, ra_Date = format_day now\<rparr>)
                   (lookup (gv_files g) key)
            else lookup (pins_of g) key))"
proof -
  obtain r g' where run: "Ratify machine now paths g = (r, g')" by fastforce
  from run show ?thesis
  proof (cases rule: Ratify_cases)
    case (failed e)
    then show ?thesis unfolding run by simp
  next
    case (pinned pins g1)
    have "pins_of g' = pins" using pinned(3) by (simp add: pins_of_def stored_or_empty_def)
    then show ?thesis
      unfolding run using pinned pin_pages_Inr [OF pinned(5)] by (simp add: fun_eq_iff)
  qed
qed

subsection \<open>What is reported\<close>

definition governs :: "governed \<Rightarrow> string \<Rightarrow> string \<Rightarrow> bool" where
  "governs g key d \<longleftrightarrow>
     lookup (gv_files g) key = Some d \<and> has_suffix key ''.md'' \<and> pf_kind (fst (frontmatter d)) = normativeType"

lemma page_read_done: "gv_ops g = [] \<Longrightarrow> page_read key g = (lookup (gv_files g) key, g)"
  by (simp add: page_read_def effect_def)

definition present :: "(string, Ratification) gomap \<Rightarrow> string \<Rightarrow> string \<Rightarrow> NormativePage" where
  "present pins key d =
     describe key (get_or no_pin pins key) (standing (ra_Checksum (get_or no_pin pins key)) (page_Checksum d))"

lemma walk_pages_done:
  assumes "gv_ops g = []"
  shows "walk_pages pins keys pages g =
    (pages @ map (\<lambda>key. present pins key (the (lookup (gv_files g) key)))
       (filter (\<lambda>key. \<exists>d. governs g key d) keys), g)"
  using assms
proof (induction keys arbitrary: pages)
  case (Cons key keys)
  show ?case
  proof (cases "\<exists>d. governs g key d")
    case True
    then obtain d where "governs g key d" by blast
    then show ?thesis
      using Cons page_read_done [OF Cons.prems, of key] by (simp add: governs_def present_def Let_def)
  next
    case False
    then have "walk_pages pins (key # keys) pages g = walk_pages pins keys pages g"
      using page_read_done [OF Cons.prems, of key] by (auto simp: governs_def split: option.splits)
    then show ?thesis using Cons False by simp
  qed
qed simp

lemma set_wiki_walk: "set (walk_order (remdups (map_keys m))) = dom (lookup m)" "distinct (walk_order (remdups (map_keys m)))"
  by (simp_all add: walk_order_def set_map_keys)

lemma np_Path_simps [simp]: "np_Path (describe key pin s) = key" "np_Path (present pins key d) = key"
  by (simp_all add: describe_def present_def)

text \<open>
  The list, when everything can be read: one entry per governed page with what its bytes say against
  its pin, and one per pin without a governed page, in the order of their paths.
\<close>

lemma NormativePages_done:
  assumes "gv_ops g = []" and "gv_pins g \<noteq> Corrupt"
  obtains pages where "NormativePages g = (Inr pages, g)" "sorted (map np_Path pages)" "distinct (map np_Path pages)"
    "set pages = {present (pins_of g) key d |key d. governs g key d} \<union>
       {describe key pin Missing |key pin. lookup (pins_of g) key = Some pin \<and> (\<forall>d. \<not> governs g key d)}"
proof -
  let ?keys = "filter (\<lambda>key. \<exists>d. governs g key d) (walk_order (remdups (map_keys (gv_files g))))"
  let ?seen = "map (\<lambda>key. present (pins_of g) key (the (lookup (gv_files g) key))) ?keys"
  let ?gone = "filter (\<lambda>key. key \<notin> set ?keys) (remdups (map_keys (pins_of g)))"
  let ?all = "?seen @ map (\<lambda>key. describe key (get_or no_pin (pins_of g) key) Missing) ?gone"
  have pins: "readPins g = (Inr (pins_of g), g)"
    using assms by (cases "gv_pins g") (simp_all add: readPins_def effect_def pins_of_def stored_or_empty_def)
  have keys: "set ?keys = {key. \<exists>d. governs g key d}"
    by (auto simp: walk_order_def set_map_keys governs_def)
  have paths: "map np_Path ?seen = ?keys" by (simp add: comp_def)
  have run: "NormativePages g = (Inr (sort_key np_Path ?all), g)"
    unfolding NormativePages_def io_bind_simp pins sum.case prod.case walk_pages_done [OF assms(1)] append_Nil Let_def paths ..
  have "distinct (map np_Path ?all)"
    using set_wiki_walk(2) by (auto simp: comp_def)
  then have dist: "distinct (map np_Path (sort_key np_Path ?all))"
    unfolding distinct_map [of np_Path] set_sort distinct_sort .
  have seen: "set ?seen = {present (pins_of g) key d |key d. governs g key d}"
    unfolding set_map keys by (force simp: governs_def)
  have unseen: "set ?gone = {key \<in> dom (lookup (pins_of g)). \<forall>d. \<not> governs g key d}"
    unfolding keys by (auto simp: set_map_keys)
  have gone: "set (map (\<lambda>key. describe key (get_or no_pin (pins_of g) key) Missing) ?gone) =
      {describe key pin Missing |key pin. lookup (pins_of g) key = Some pin \<and> (\<forall>d. \<not> governs g key d)}"
    (is "?l = ?r")
  proof (intro equalityI subsetI)
    fix p assume "p \<in> ?l"
    then obtain key where key: "key \<in> dom (lookup (pins_of g))" "\<forall>d. \<not> governs g key d"
      "p = describe key (get_or no_pin (pins_of g) key) Missing"
      unfolding set_map unseen by blast
    then obtain pin where "lookup (pins_of g) key = Some pin" by blast
    then have "p = describe key pin Missing" using key(3) by (simp add: get_or_Some)
    then show "p \<in> ?r" using key(2) \<open>lookup (pins_of g) key = Some pin\<close> by blast
  next
    fix p assume "p \<in> ?r"
    then obtain key pin where key: "lookup (pins_of g) key = Some pin" "\<forall>d. \<not> governs g key d"
      "p = describe key pin Missing" by blast
    then have "p = describe key (get_or no_pin (pins_of g) key) Missing" by (simp add: get_or_Some)
    then show "p \<in> ?l"
      unfolding set_map unseen using key by blast
  qed
  show thesis
    by (rule that [OF run sorted_sort_key dist]) (simp only: set_sort set_append seen gone)
qed


text \<open>
  A page that was ratified but does not say \<open>type: standard\<close> is reported as missing from the tree
  while it lies there unchanged, and \<open>ChangedPages\<close> at the same time reports nothing about it.
\<close>

lemma changed_keys_done:
  "gv_ops g = [] \<Longrightarrow> fst (changed_keys pins keys g) =
   filter (\<lambda>key. map_option page_Checksum (lookup (gv_files g) key) \<noteq> Some (ra_Checksum (get_or no_pin pins key))) keys \<and>
   snd (changed_keys pins keys g) = g"
  by (induction keys) (auto simp: page_read_done case_prod_beta)

theorem untyped_page_reported_missing:
  assumes "Ratify machine now paths g = (Inr (), g')" and "gv_ops g' = []"
    and "key \<in> pinned_keys paths" and "lookup (gv_files g) key = Some d"
    and "pf_kind (fst (frontmatter d)) \<noteq> normativeType"
  shows "lookup (gv_files g') key = Some d \<and>
    (\<exists>pages. NormativePages g' = (Inr pages, g') \<and>
       \<lparr>np_Path = key, np_Standing = Missing, np_On = format_day now, np_Machine = machine\<rparr> \<in> set pages) \<and>
    (\<exists>keys. ChangedPages g' = (Inr keys, g') \<and> key \<notin> set keys)"
  using assms(1)
proof (cases rule: Ratify_cases)
  case (pinned pins g1)
  have pin: "lookup pins key = Some \<lparr>ra_Checksum = page_Checksum d, ra_Machine = machine, ra_Date = format_day now\<rparr>"
    using pin_pages_Inr [OF pinned(5), of key] assms(3,4) pinned(4) by simp
  have pins: "pins_of g' = pins" "pins \<noteq> []" "readPins g' = (Inr pins, g')"
    using pinned(3) pin assms(2) by (auto simp: pins_of_def stored_or_empty_def readPins_def effect_def)
  have here: "lookup (gv_files g') key = Some d" using pinned(2) assms(4) by simp
  obtain pages where pages: "NormativePages g' = (Inr pages, g')"
    "set pages = {present (pins_of g') key d |key d. governs g' key d} \<union>
       {describe key pin Missing |key pin. lookup (pins_of g') key = Some pin \<and> (\<forall>d. \<not> governs g' key d)}"
    by (rule NormativePages_done [OF assms(2)]) (use pinned(3) in simp)
  have "\<not> governs g' key e" for e using here assms(5) by (auto simp: governs_def)
  then have "describe key \<lparr>ra_Checksum = page_Checksum d, ra_Machine = machine, ra_Date = format_day now\<rparr> Missing \<in> set pages"
    unfolding pages(2) pins(1) using pin by blast
  moreover have "ChangedPages g' = (Inr (fst (changed_keys pins (remdups (map_keys pins)) g')), g')"
    using pins(2) changed_keys_done [OF assms(2)]
    by (simp add: ChangedPages_def io_bind_simp pins(3) case_prod_beta)
  moreover have "key \<notin> set (fst (changed_keys pins (remdups (map_keys pins)) g'))"
    using changed_keys_done [OF assms(2)] here pin by (simp add: get_or_def)
  ultimately show ?thesis using here pages(1) by (auto simp: describe_def)
qed simp

subsection \<open>A wiki with a standard and a note\<close>

definition demo_standard :: string where
  "demo_standard = join_lines [''---'', ''type: standard'', ''---'', ''Do.'']"

definition demo_governed :: governed where
  "demo_governed = \<lparr>gv_files = [(''s.md'', demo_standard), (''n.md'', ''Note'')], gv_pins = Absent, gv_ops = []\<rparr>"

definition demo_ratified :: governed where
  "demo_ratified = snd (Ratify ''lucy'' 0 [''s.md'', ''n.md''] demo_governed)"

lemma demo_keys: "pageKey ''s.md'' = Inr ''s.md''" "pageKey ''n.md'' = Inr ''n.md''"
  by code_simp+

lemma demo_ratify:
  "Ratify ''lucy'' 0 [''s.md'', ''n.md''] demo_governed = (Inr (), demo_ratified)"
  "gv_ops demo_ratified = []" "gv_files demo_ratified = gv_files demo_governed"
proof -
  have page: "page_read k demo_governed = (lookup (gv_files demo_governed) k, demo_governed)" for k
    by (rule page_read_done) (simp add: demo_governed_def)
  have "\<exists>pins. Ratify ''lucy'' 0 [''s.md'', ''n.md''] demo_governed = (Inr (), demo_governed\<lparr>gv_pins := Stored pins\<rparr>)"
    using page [of "''s.md''"] page [of "''n.md''"]
    by (simp add: Ratify_def io_bind_simp readPins_def effect_def io_sum_def page_key_def demo_keys
        writePins_def io_return_def demo_governed_def)
  then show "Ratify ''lucy'' 0 [''s.md'', ''n.md''] demo_governed = (Inr (), demo_ratified)"
    "gv_ops demo_ratified = []" "gv_files demo_ratified = gv_files demo_governed"
    by (auto simp: demo_ratified_def demo_governed_def)
qed


theorem untyped_page_reported_missing_witness:
  "\<exists>pages. NormativePages demo_ratified = (Inr pages, demo_ratified) \<and>
    \<lparr>np_Path = ''n.md'', np_Standing = Missing, np_On = format_day 0, np_Machine = ''lucy''\<rparr> \<in> set pages"
proof -
  have "pf_kind (fst (frontmatter ''Note'')) \<noteq> normativeType" by code_simp
  moreover have "''n.md'' \<in> pinned_keys [''s.md'', ''n.md'']" using demo_keys by (auto simp: pinned_keys_def)
  moreover have "lookup (gv_files demo_governed) ''n.md'' = Some ''Note''" by (simp add: demo_governed_def)
  ultimately show ?thesis
    using untyped_page_reported_missing [OF demo_ratify(1,2), of "''n.md''" "''Note''"] by blast
qed

end
