(* ===== verification/ServerState.thy ===== *)
theory ServerState
  imports Effects GoTime Sha256
begin

text \<open>
  The state behind the server's accounts: package \<open>server\<close>, type \<open>Server\<close>, as far as authentication,
  users, spaces and device logins go.

  \<^item> Tokens are held in memory and mirrored in \<open>tokens.json\<close>; users and spaces are read from
    \<open>.users.json\<close> and \<open>.spaces.json\<close> by every request. A store file is absent, unreadable or holds a
    value: the coding as JSON is the standard library's.
  \<^item> \<open>time.Now()\<close> is the state's clock, which stands still while one handler runs. \<open>rand.Read\<close> takes its
    bytes from the list \<open>s_entropy\<close>, whose entries may be failures; the write of a store file ends as
    the list \<open>s_writes\<close> says.
  \<^item> A handler takes the decoded request and ends with an error reply or a reply. Where the code takes
    the lock anew after a check, the part behind the lock is a definition of its own, so what is
    proved of it holds whatever another request did in between.
\<close>

subsection \<open>Records\<close>

record Identity =
  id_Email :: string
  id_Scope :: string
  id_TokenHash :: string

record TokenInfo =
  ti_Hash :: string
  ti_Name :: string
  ti_Scope :: string
  ti_UserEmail :: string
  ti_CreatedAt :: string
  ti_ExpiresAt :: string
  ti_LastSeen :: string

record User =
  u_Email :: string
  u_Name :: string
  u_Admin :: bool
  u_CreatedAt :: string

record Space =
  sp_ID :: string
  sp_Name :: string
  sp_Description :: string
  sp_Members :: "(string, string) gomap"
  sp_CreatedAt :: string
  sp_UpdatedAt :: string

record SpaceResponse =
  sr_ID :: string
  sr_Name :: string
  sr_Description :: string
  sr_Role :: string
  sr_CreatedAt :: string
  sr_UpdatedAt :: string

record MemberResponse =
  mr_Email :: string
  mr_Name :: string
  mr_Role :: string
  mr_JoinedAt :: string

record loginCode =
  lc_Email :: string
  lc_Scope :: string
  lc_Expires :: instant

type_synonym loginCodeStore = "(string, loginCode) gomap"

datatype deviceStatus = devicePending | deviceApproved | deviceDenied

record deviceRequest =
  dr_DeviceCode :: string
  dr_UserCode :: string
  dr_Machine :: string
  dr_IP :: string
  dr_Status :: deviceStatus
  dr_Token :: string
  dr_Expires :: instant

text \<open>
  Both maps of the device store hold pointers to the same requests, and an approval found through one
  is seen through the other: a pointer is an index into the list of allocated requests.
\<close>

record deviceStore =
  ds_heap :: "deviceRequest list"
  byDevice :: "(string, nat) gomap"
  byUser :: "(string, nat) gomap"

record rateLimiter =
  attempts :: "(string, instant list) gomap"
  rl_max :: nat
  rl_window :: duration

record srv =
  s_DataDir :: string
  s_Password :: string
  s_SSOOnly :: bool
  s_OIDC :: "string option"
  s_JournalBrowserURL :: string
  s_JournalBrowserKey :: string
  s_tokens :: "(string, TokenInfo) gomap"
  s_devices :: deviceStore
  s_loginCodes :: loginCodeStore
  s_logins :: rateLimiter
  s_devStarts :: rateLimiter
  s_devPolls :: rateLimiter
  tokens_file :: "(string, TokenInfo) gomap json_file"
  users_file :: "(string, User) gomap json_file"
  spaces_file :: "(string, Space) gomap json_file"
  s_dirs :: "string list"
  s_now :: instant
  s_entropy :: "int list option list"
  s_writes :: "outcome list"

text \<open>
  \<open>s_OIDC\<close> is the success URL of the identity provider's configuration, \<open>None\<close> without one;
  \<open>s_dirs\<close> are the directories of the spaces' trees.
\<close>

subsection \<open>Replies\<close>

datatype api_error =
  Unauthorized string | Forbidden string | Invalid string | NotFound string | Conflict string
  | RateLimited string | Internal string | Unavailable string

type_synonym 'a handler = "(api_error, 'a, srv) io"

subsection \<open>Store files\<close>

definition next_write :: "srv \<Rightarrow> outcome" where
  "next_write s = (case s_writes s of [] \<Rightarrow> Done | x # _ \<Rightarrow> x)"

definition saveTokens :: "srv \<Rightarrow> srv" where
  "saveTokens s =
     s\<lparr>tokens_file := snd (write_json (s_tokens s) (next_write s) (tokens_file s)),
       s_writes := tl (s_writes s)\<rparr>"

definition loadUsers :: "srv \<Rightarrow> (string, User) gomap" where
  "loadUsers s = stored_or_empty (users_file s)"

definition saveUsers :: "(string, User) gomap \<Rightarrow> srv \<Rightarrow> bool \<times> srv" where
  "saveUsers users s =
     (case write_json users (next_write s) (users_file s) of
        (good, f) \<Rightarrow> (good, s\<lparr>users_file := f, s_writes := tl (s_writes s)\<rparr>))"

definition loadSpaces :: "srv \<Rightarrow> (string, Space) gomap" where
  "loadSpaces s = stored_or_empty (spaces_file s)"

definition saveSpaces :: "(string, Space) gomap \<Rightarrow> srv \<Rightarrow> bool \<times> srv" where
  "saveSpaces spaces s =
     (case write_json spaces (next_write s) (spaces_file s) of
        (good, f) \<Rightarrow> (good, s\<lparr>spaces_file := f, s_writes := tl (s_writes s)\<rparr>))"

text \<open>A store read by \<open>load\<close> and replaced by \<open>save\<close>, which reports whether the write went through.\<close>

locale json_store =
  fixes load :: "'s \<Rightarrow> 'a" and save :: "'a \<Rightarrow> 's \<Rightarrow> bool \<times> 's" and rest :: "'s \<Rightarrow> 'r"
  assumes saved: "save x s = (True, s') \<Longrightarrow> load s' = x"
    and frame: "rest (snd (save x s)) = rest s"
begin

definition change :: "('a \<Rightarrow> 'a) \<Rightarrow> 's \<Rightarrow> bool \<times> 's" where
  "change f s = save (f (load s)) s"

lemma change_saved: "change f s = (True, s') \<Longrightarrow> load s' = f (load s)"
  by (auto simp: change_def dest: saved)

lemma change_frame: "rest (snd (change f s)) = rest s"
  by (simp add: change_def frame)

lemma changes_saved: "change f s = (True, s1) \<Longrightarrow> change g s1 = (True, s2) \<Longrightarrow> load s2 = g (f (load s))"
  by (simp add: change_saved)

end

definition but_users :: "srv \<Rightarrow> srv" where
  "but_users s = s\<lparr>users_file := Absent, s_writes := []\<rparr>"

definition but_spaces :: "srv \<Rightarrow> srv" where
  "but_spaces s = s\<lparr>spaces_file := Absent, s_writes := []\<rparr>"

interpretation users_store: json_store loadUsers saveUsers but_users
  by unfold_locales
    (auto simp: loadUsers_def saveUsers_def stored_or_empty_def write_json_def but_users_def
      split: outcome.splits)

interpretation spaces_store: json_store loadSpaces saveSpaces but_spaces
  by unfold_locales
    (auto simp: loadSpaces_def saveSpaces_def stored_or_empty_def write_json_def but_spaces_def
      split: outcome.splits)

subsection \<open>Random bytes\<close>

definition rand_read :: "nat \<Rightarrow> ('e, int list option, srv) io" where
  "rand_read n s =
     (case s_entropy s of
        Some bs # r \<Rightarrow> (Inr (Some (take n (map (\<lambda>b. b mod 256) bs @ replicate n 0))), s\<lparr>s_entropy := r\<rparr>)
      | _ \<Rightarrow> (Inr None, s\<lparr>s_entropy := tl (s_entropy s)\<rparr>))"

definition hex_byte :: "int \<Rightarrow> string" where
  "hex_byte b = [hex_digit ((b div 16) mod 16), hex_digit (b mod 16)]"

definition hex_string :: "int list \<Rightarrow> string" where
  "hex_string bs = concat (map hex_byte bs)"

definition generateToken :: "string handler" where
  "generateToken =
     io_bind (rand_read 32)
       (\<lambda>b. case b of None \<Rightarrow> io_fail (Internal ''internal error'') | Some bs \<Rightarrow> io_return (hex_string bs))"

definition hashToken :: "string \<Rightarrow> string" where
  "hashToken token = sha256_hex token"

lemma hex_string_length [simp]: "length (hex_string bs) = 2 * length bs"
  by (induction bs) (auto simp: hex_string_def hex_byte_def)

lemma hex_digits_all: "list_all (\<lambda>n. is_digit (hex_digit n) \<or> is_lower (hex_digit n)) [0..15]"
  by code_simp

lemma hex_digit_range: "is_digit (hex_digit (n mod 16)) \<or> is_lower (hex_digit (n mod 16))"
  using hex_digits_all unfolding list_all_iff by (simp add: pos_mod_bound [of 16 n, simplified zle_diff1_eq [symmetric]] )

lemma hex_string_chars: "c \<in> set (hex_string bs) \<Longrightarrow> is_digit c \<or> is_lower c"
  using hex_digit_range by (auto simp: hex_string_def hex_byte_def)

lemma generateToken_Inr:
  "generateToken s = (Inr t, s') \<Longrightarrow> length t = 64 \<and> s' = s\<lparr>s_entropy := tl (s_entropy s)\<rparr>"
  by (auto simp: generateToken_def rand_read_def io_bind_def io_return_def io_fail_def
      split: list.splits option.splits)

lemma generateToken_Inl: "generateToken s = (Inl e, s') \<Longrightarrow> s' = s\<lparr>s_entropy := tl (s_entropy s)\<rparr>"
  by (auto simp: generateToken_def rand_read_def io_bind_def io_return_def io_fail_def
      split: list.splits option.splits)

lemma generateToken_state: "snd (generateToken s) = s\<lparr>s_entropy := tl (s_entropy s)\<rparr>"
  by (cases "generateToken s"; cases "fst (generateToken s)")
    (auto dest: generateToken_Inr generateToken_Inl)

subsection \<open>Requests\<close>

record request =
  rq_Authorization :: string
  rq_ForwardedFor :: string
  rq_RemoteAddr :: string
  rq_TLS :: bool
  rq_ForwardedProto :: string
  rq_Host :: string

text \<open>\<open>net.SplitHostPort\<close>, the host only.\<close>

definition SplitHost :: "string \<Rightarrow> string option" where
  "SplitHost a =
     (case last_index_byte a (\<lambda>c. c = CHR '':'') of
        None \<Rightarrow> None
      | Some i \<Rightarrow>
          (case a of
             CHR ''['' # _ \<Rightarrow>
               (case str_index a '']'' of
                  None \<Rightarrow> None
                | Some e \<Rightarrow>
                    if e + 1 \<noteq> i \<or> CHR ''['' \<in> set (drop 1 a) \<or> CHR '']'' \<in> set (drop (e + 1) a) then None
                    else Some (drop 1 (take e a)))
           | _ \<Rightarrow>
               if CHR '':'' \<in> set (take i a) \<or> CHR ''['' \<in> set a \<or> CHR '']'' \<in> set a then None
               else Some (take i a)))"

definition clientIP :: "request \<Rightarrow> string" where
  "clientIP r =
     (if rq_ForwardedFor r \<noteq> [] then
        (case str_index (rq_ForwardedFor r) '','' of
           Some i \<Rightarrow> trim_space (take i (rq_ForwardedFor r))
         | None \<Rightarrow> trim_space (rq_ForwardedFor r))
      else (case SplitHost (rq_RemoteAddr r) of None \<Rightarrow> rq_RemoteAddr r | Some h \<Rightarrow> h))"

definition baseURL :: "request \<Rightarrow> string" where
  "baseURL r =
     (let scheme = (if rq_ForwardedProto r \<noteq> [] then rq_ForwardedProto r
                    else if rq_TLS r then ''https'' else ''http'')
      in scheme @ ''://'' @ rq_Host r)"

subsection \<open>The rate limiter\<close>

definition newRateLimiter :: "nat \<Rightarrow> duration \<Rightarrow> rateLimiter" where
  "newRateLimiter m w = \<lparr>attempts = [], rl_max = m, rl_window = w\<rparr>"

definition allow :: "string \<Rightarrow> instant \<Rightarrow> rateLimiter \<Rightarrow> bool \<times> rateLimiter" where
  "allow key t rl =
     (let recent = filter (\<lambda>x. t - rl_window rl < x) (get_or [] (attempts rl) key)
      in if rl_max rl \<le> length recent then (False, rl\<lparr>attempts := AList.update key recent (attempts rl)\<rparr>)
         else (True, rl\<lparr>attempts := AList.update key (recent @ [t]) (attempts rl)\<rparr>))"

text \<open>A run of attempts, with what became of each.\<close>

fun allow_run :: "(string \<times> instant) list \<Rightarrow> rateLimiter \<Rightarrow> (string \<times> instant \<times> bool) list \<times> rateLimiter" where
  "allow_run [] rl = ([], rl)"
| "allow_run ((k, t) # calls) rl =
     (let (good, rl1) = allow k t rl; (log, rl2) = allow_run calls rl1 in ((k, t, good) # log, rl2))"

definition admitted :: "string \<Rightarrow> (string \<times> instant \<times> bool) list \<Rightarrow> instant list" where
  "admitted k log = map (\<lambda>(k', t, g). t) (filter (\<lambda>(k', t, g). k' = k \<and> g) log)"

lemma allow_config [simp]:
  "rl_max (snd (allow k t rl)) = rl_max rl" "rl_window (snd (allow k t rl)) = rl_window rl"
  by (simp_all add: allow_def Let_def)

end
