(* ===== verification/ServerAuth.thy ===== *)
theory ServerAuth
  imports ServerState
begin

text \<open>
  Tokens, sessions and accounts: \<open>auth.go\<close>, \<open>tokens.go\<close>, \<open>users.go\<close> and the session half of
  \<open>oidc_handlers.go\<close>. A token is known by its hash; what it may do is settled at every request from
  the live user record. The bodies of the handlers are the decoded request, \<open>None\<close> where it does not
  decode; an absent field is Go's zero value, and for a pointer field \<open>None\<close>.
\<close>

definition scopeAdmin :: string where "scopeAdmin = ''admin''"
definition scopeSync :: string where "scopeSync = ''sync''"
definition scopeUser :: string where "scopeUser = ''user''"
definition loginMaxAttempts :: nat where "loginMaxAttempts = 10"
definition loginWindow :: duration where "loginWindow = minute"
definition passwordSessionName :: string where "passwordSessionName = ''session''"
definition sessionTTL :: duration where "sessionTTL = 30 * 24 * hour"

lemma scopes_distinct [simp]:
  "scopeSync \<noteq> scopeAdmin" "scopeUser \<noteq> scopeAdmin" "scopeAdmin \<noteq> scopeSync" "scopeAdmin \<noteq> scopeUser"
  "scopeSync \<noteq> scopeUser" "scopeUser \<noteq> scopeSync"
  by (simp_all add: scopeAdmin_def scopeSync_def scopeUser_def)

lemma scopes_nonempty [simp]: "scopeAdmin \<noteq> []" "scopeSync \<noteq> []" "scopeUser \<noteq> []"
  by (simp_all add: scopeAdmin_def scopeSync_def scopeUser_def)

subsection \<open>The token table\<close>

definition blank_token :: TokenInfo where
  "blank_token = \<lparr>ti_Hash = [], ti_Name = [], ti_Scope = [], ti_UserEmail = [], ti_CreatedAt = [],
     ti_ExpiresAt = [], ti_LastSeen = []\<rparr>"

text \<open>What \<open>loadTokens\<close> makes of one entry of the file: an entry from before scopes is keyed by its token.\<close>

definition migrate_token :: "string \<times> TokenInfo \<Rightarrow> string \<times> TokenInfo" where
  "migrate_token e =
     (case e of (key, info) \<Rightarrow>
        if ti_Scope info = [] then
          let hash = hashToken key
          in (hash, info\<lparr>ti_Scope := (if ti_Name info = passwordSessionName then scopeAdmin else scopeSync),
                         ti_Hash := hash\<rparr>)
        else (key, info\<lparr>ti_Hash := key\<rparr>))"

definition loadTokens :: "srv \<Rightarrow> srv" where
  "loadTokens s =
     (case tokens_file s of
        Stored raw \<Rightarrow>
          let s' = s\<lparr>s_tokens := map migrate_token raw\<rparr>
          in if \<exists>e\<in>set raw. ti_Scope (snd e) = [] then saveTokens s' else s'
      | _ \<Rightarrow> s)"

definition without_name :: "string \<Rightarrow> (string, TokenInfo) gomap \<Rightarrow> (string, TokenInfo) gomap" where
  "without_name name m = filter (\<lambda>(k, v). ti_Name v \<noteq> name) m"

definition store_token :: "string \<Rightarrow> TokenInfo \<Rightarrow> srv \<Rightarrow> srv" where
  "store_token hash info s = saveTokens (s\<lparr>s_tokens := AList.update hash info (s_tokens s)\<rparr>)"

definition mintToken :: "string \<Rightarrow> string \<Rightarrow> string \<Rightarrow> string handler" where
  "mintToken name scope email =
     io_bind generateToken (\<lambda>token.
     io_then (io_modify (\<lambda>s. s\<lparr>s_tokens := without_name name (s_tokens s)\<rparr>))
     (io_then (io_modify (\<lambda>s. store_token (hashToken token)
        (blank_token\<lparr>ti_Hash := hashToken token, ti_Name := name, ti_Scope := scope,
           ti_UserEmail := email, ti_CreatedAt := format_rfc3339 (s_now s)\<rparr>) s))
     (io_return token)))"

definition mintNamedSession :: "string \<Rightarrow> string \<Rightarrow> string \<Rightarrow> string handler" where
  "mintNamedSession name email scope =
     io_bind generateToken (\<lambda>token.
     io_then (io_modify (\<lambda>s. s\<lparr>s_tokens := without_name name (s_tokens s)\<rparr>))
     (io_then (io_modify (\<lambda>s. store_token (hashToken token)
        (blank_token\<lparr>ti_Hash := hashToken token, ti_Name := name, ti_Scope := scope,
           ti_UserEmail := email, ti_CreatedAt := format_rfc3339 (s_now s),
           ti_ExpiresAt := format_rfc3339 (s_now s + sessionTTL)\<rparr>) s))
     (io_return token)))"

definition mintSessionToken :: "string \<Rightarrow> string \<Rightarrow> string handler" where
  "mintSessionToken email scope = mintNamedSession (''session:'' @ email) email scope"

definition mintLogin :: "string \<Rightarrow> string handler" where
  "mintLogin machine =
     (if machine \<noteq> [] then mintToken machine scopeSync []
      else mintNamedSession passwordSessionName [] scopeAdmin)"

definition isLoginSession :: "TokenInfo \<Rightarrow> bool" where
  "isLoginSession t \<longleftrightarrow> ti_ExpiresAt t \<noteq> []"

definition tokensList :: "TokenInfo list handler" where
  "tokensList =
     io_get (\<lambda>s. sort_key ti_Name
       (map (\<lambda>t. blank_token\<lparr>ti_Name := ti_Name t, ti_Scope := ti_Scope t, ti_CreatedAt := ti_CreatedAt t,
                  ti_LastSeen := ti_LastSeen t\<rparr>)
         (filter (\<lambda>t. \<not> isLoginSession t) (map snd (s_tokens s)))))"

record token_created =
  tc_token :: string
  tc_name :: string
  tc_scope :: string
  tc_created_at :: string

definition tokensCreate :: "(string \<times> string) option \<Rightarrow> Identity \<Rightarrow> token_created handler" where
  "tokensCreate body ident =
     (case body of
        None \<Rightarrow> io_fail (Invalid ''name required'')
      | Some (rname, remail) \<Rightarrow>
          let name = trim_space rname in
          io_then (require (name \<noteq> []) (Invalid ''name required''))
          (let email = (if trim_space remail = [] then id_Email ident else trim_space remail) in
           io_bind generateToken (\<lambda>token.
           io_bind (io_get (\<lambda>s. format_rfc3339 (s_now s))) (\<lambda>created.
           io_then (io_modify (store_token (hashToken token)
              (blank_token\<lparr>ti_Hash := hashToken token, ti_Name := name, ti_Scope := scopeSync,
                 ti_UserEmail := email, ti_CreatedAt := created\<rparr>)))
           (io_return \<lparr>tc_token = token, tc_name = name, tc_scope = scopeSync,
              tc_created_at = created\<rparr>)))))"

text \<open>\<open>raw\<close> is the path parameter as the router hands it over, \<open>name\<close> what \<open>pathParam\<close> makes of it.\<close>

definition tokensDelete :: "string \<Rightarrow> unit handler" where
  "tokensDelete name =
     io_modify (\<lambda>s. saveTokens (s\<lparr>s_tokens := without_name name (s_tokens s)\<rparr>))"

definition logout :: "Identity \<Rightarrow> unit handler" where
  "logout ident =
     (if id_TokenHash ident \<noteq> [] then
        io_modify (\<lambda>s. saveTokens (s\<lparr>s_tokens := AList.delete (id_TokenHash ident) (s_tokens s)\<rparr>))
      else io_return ())"

subsection \<open>Authentication\<close>

definition expired :: "instant \<Rightarrow> TokenInfo \<Rightarrow> bool" where
  "expired t info \<longleftrightarrow>
     ti_ExpiresAt info \<noteq> [] \<and>
     (case parse_rfc3339 (ti_ExpiresAt info) of None \<Rightarrow> False | Some e \<Rightarrow> e < t)"

definition touchToken :: "string \<Rightarrow> srv \<Rightarrow> TokenInfo option \<times> srv" where
  "touchToken hash s =
     (case lookup (s_tokens s) hash of
        None \<Rightarrow> (None, s)
      | Some info \<Rightarrow>
          if expired (s_now s) info then
            (None, saveTokens (s\<lparr>s_tokens := AList.delete hash (s_tokens s)\<rparr>))
          else
            let prev = (case parse_rfc3339 (ti_LastSeen info) of None \<Rightarrow> zero_time | Some t \<Rightarrow> t);
                info' = info\<lparr>ti_LastSeen := format_rfc3339 (s_now s)\<rparr>;
                s' = s\<lparr>s_tokens := AList.update hash info' (s_tokens s)\<rparr>
            in (Some info', if minute < s_now s - prev then saveTokens s' else s'))"

definition effectiveScope :: "TokenInfo \<Rightarrow> srv \<Rightarrow> string" where
  "effectiveScope info s =
     (if ti_UserEmail info = [] then ti_Scope info
      else case lookup (loadUsers s) (ti_UserEmail info) of
             Some u \<Rightarrow> if u_Admin u then scopeAdmin
                       else if ti_Scope info = scopeAdmin then scopeUser else ti_Scope info
           | None \<Rightarrow> if ti_Scope info = scopeAdmin then scopeUser else ti_Scope info)"

definition open_identity :: Identity where
  "open_identity = \<lparr>id_Email = [], id_Scope = scopeAdmin, id_TokenHash = []\<rparr>"

definition no_identity :: Identity where
  "no_identity = \<lparr>id_Email = [], id_Scope = [], id_TokenHash = []\<rparr>"

definition auth_required :: "srv \<Rightarrow> bool" where
  "auth_required s \<longleftrightarrow> s_Password s \<noteq> [] \<or> s_OIDC s \<noteq> None"

definition auth :: "bool \<Rightarrow> (Identity \<Rightarrow> 'a handler) \<Rightarrow> request \<Rightarrow> 'a handler" where
  "auth adminOnly handle r s =
     (if \<not> auth_required s then handle open_identity s
      else case cut_prefix (rq_Authorization r) ''Bearer '' of
             None \<Rightarrow> (Inl (Unauthorized ''unauthorized''), s)
           | Some token \<Rightarrow>
               (case touchToken (hashToken token) s of
                  (None, s') \<Rightarrow> (Inl (Unauthorized ''unauthorized''), s')
                | (Some info, s') \<Rightarrow>
                    let scope = effectiveScope info s' in
                    if adminOnly \<and> scope \<noteq> scopeAdmin then (Inl (Forbidden ''forbidden''), s')
                    else handle \<lparr>id_Email = ti_UserEmail info, id_Scope = scope,
                                  id_TokenHash = hashToken token\<rparr> s'))"

definition commonAllowed :: "Identity \<Rightarrow> srv \<Rightarrow> bool" where
  "commonAllowed ident s \<longleftrightarrow>
     (if id_Scope ident = scopeAdmin then True
      else if id_Scope ident = scopeSync then
        (if id_Email ident = [] then True
         else case lookup (loadUsers s) (id_Email ident) of None \<Rightarrow> False | Some u \<Rightarrow> u_Admin u)
      else False)"

subsection \<open>Password login\<close>

record auth_config =
  ac_password_auth :: bool
  ac_sso_only :: bool
  ac_oidc_enabled :: bool
  ac_device_enabled :: bool
  ac_journal :: "(string \<times> string) option"

definition authConfig :: "srv \<Rightarrow> auth_config" where
  "authConfig s =
     \<lparr>ac_password_auth = (s_Password s \<noteq> [] \<and> \<not> s_SSOOnly s), ac_sso_only = s_SSOOnly s,
      ac_oidc_enabled = (s_OIDC s \<noteq> None), ac_device_enabled = True,
      ac_journal = (if s_JournalBrowserURL s \<noteq> [] \<and> s_JournalBrowserKey s \<noteq> []
                    then Some (s_JournalBrowserURL s, s_JournalBrowserKey s) else None)\<rparr>"

definition limit_login :: "string \<Rightarrow> unit handler" where
  "limit_login ip s =
     (let (good, rl) = allow ip (s_now s) (s_logins s)
      in (if good then Inr () else Inl (RateLimited ''too many attempts''), s\<lparr>s_logins := rl\<rparr>))"

definition login :: "request \<Rightarrow> (string \<times> string) option \<Rightarrow> string handler" where
  "login r body =
     io_then (limit_login (clientIP r))
     (case body of
        None \<Rightarrow> io_fail (Invalid ''bad request'')
      | Some (password, machine) \<Rightarrow>
          io_bind (io_get (\<lambda>s. password = s_Password s)) (\<lambda>same.
          io_then (require same (Unauthorized ''invalid password''))
          (mintLogin (trim_space machine))))"

subsection \<open>Accounts\<close>

definition upsertUser :: "string \<Rightarrow> string \<Rightarrow> srv \<Rightarrow> User \<times> srv" where
  "upsertUser email name s =
     (let users = loadUsers s;
          user = (case lookup users email of
                    Some u \<Rightarrow> u
                  | None \<Rightarrow> \<lparr>u_Email = email, u_Name = [], u_Admin = (users = []),
                             u_CreatedAt = format_rfc3339 (s_now s)\<rparr>);
          user = (if name \<noteq> [] then user\<lparr>u_Name := name\<rparr> else user)
      in (user, snd (saveUsers (AList.update email user users) s)))"

definition usersList :: "Identity \<Rightarrow> User list handler" where
  "usersList ident =
     io_then (require (id_Email ident \<noteq> [] \<or> id_Scope ident = scopeAdmin) (Forbidden ''forbidden''))
     (io_get (\<lambda>s. sort_key u_Email (map snd (loadUsers s))))"

definition userUpdate :: "string \<Rightarrow> (string option \<times> bool option) option \<Rightarrow> User handler" where
  "userUpdate email body =
     io_then (require (email \<noteq> []) (Invalid ''email required''))
     (case body of
        None \<Rightarrow> io_fail (Invalid ''bad request'')
      | Some (name, admin) \<Rightarrow> (\<lambda>s.
          case lookup (loadUsers s) email of
            None \<Rightarrow> (Inl (NotFound ''user not found''), s)
          | Some user \<Rightarrow>
              let user = (case name of None \<Rightarrow> user | Some n \<Rightarrow> user\<lparr>u_Name := n\<rparr>);
                  user = (case admin of None \<Rightarrow> user | Some a \<Rightarrow> user\<lparr>u_Admin := a\<rparr>);
                  (good, s') = users_store.change (AList.update email user) s
              in (if good then Inr user else Inl (Internal ''could not save user''), s')))"

record me = me_email :: string me_name :: string me_admin :: bool

definition authMe :: "Identity \<Rightarrow> me handler" where
  "authMe ident s =
     (if id_Email ident \<noteq> [] then
        (case lookup (loadUsers s) (id_Email ident) of
           Some u \<Rightarrow> (Inr \<lparr>me_email = u_Email u, me_name = u_Name u, me_admin = u_Admin u\<rparr>, s)
         | None \<Rightarrow> (Inr \<lparr>me_email = id_Email ident, me_name = [], me_admin = (id_Scope ident = scopeAdmin)\<rparr>, s))
      else if id_Scope ident = scopeAdmin \<or> id_Scope ident = scopeSync then
        (Inr \<lparr>me_email = [], me_name = ''machine'', me_admin = (id_Scope ident = scopeAdmin)\<rparr>, s)
      else (Inl (Forbidden ''forbidden''), s))"

text \<open>\<open>New\<close>: a process that starts over an existing data directory.\<close>

definition New :: "string \<Rightarrow> string \<Rightarrow> srv \<Rightarrow> srv" where
  "New dataDir password s =
     loadTokens (s\<lparr>s_DataDir := dataDir, s_Password := password, s_tokens := [],
       s_logins := newRateLimiter loginMaxAttempts loginWindow,
       s_devStarts := newRateLimiter 20 minute, s_devPolls := newRateLimiter 120 minute,
       s_devices := \<lparr>ds_heap = [], byDevice = [], byUser = []\<rparr>, s_loginCodes := []\<rparr>)"

end
