(* ===== verification/ServerSpaces.thy ===== *)
theory ServerSpaces
  imports ServerAuth
begin

text \<open>
  Spaces, the sync scopes shared by several accounts: \<open>spaces.go\<close>, \<open>spaces_api.go\<close> and
  \<open>spaces_members.go\<close>, and \<open>scopeRoot\<close> of \<open>auth.go\<close>, which turns the \<open>space_id\<close> of a request into
  the tree it works on. A handler that changes a space first reads the caller's role, then takes the
  lock, reads the store anew and commits; the commit is a definition of its own.
\<close>

definition roleOwner :: string where "roleOwner = ''owner''"
definition roleAdmin :: string where "roleAdmin = ''admin''"
definition roleMember :: string where "roleMember = ''member''"

lemma roles_distinct [simp]:
  "roleOwner \<noteq> roleAdmin" "roleOwner \<noteq> roleMember" "roleAdmin \<noteq> roleOwner" "roleMember \<noteq> roleOwner"
  "roleOwner \<noteq> []" "roleAdmin \<noteq> []" "roleMember \<noteq> []"
  by (simp_all add: roleOwner_def roleAdmin_def roleMember_def)

definition validRole :: "string \<Rightarrow> bool" where
  "validRole role \<longleftrightarrow> role = roleOwner \<or> role = roleAdmin \<or> role = roleMember"

text \<open>A random UUID of version 4; a failing source leaves the bytes at zero.\<close>

definition uuid_of :: "int list \<Rightarrow> string" where
  "uuid_of bs =
     (let b = bs[6 := (bs ! 6) mod 16 + 64, 8 := (bs ! 8) mod 64 + 128]
      in hex_string (take 4 b) @ ''-'' @ hex_string (take 2 (drop 4 b)) @ ''-'' @
         hex_string (take 2 (drop 6 b)) @ ''-'' @ hex_string (take 2 (drop 8 b)) @ ''-'' @
         hex_string (drop 10 b))"

definition newSpaceID :: "string handler" where
  "newSpaceID =
     io_bind (rand_read 16)
       (\<lambda>b. io_return (uuid_of (case b of None \<Rightarrow> replicate 16 0 | Some bs \<Rightarrow> bs)))"

definition spaceDir :: "string \<Rightarrow> string \<Rightarrow> string" where
  "spaceDir dataDir sid = dataDir @ ''/spaces/'' @ sid"

subsection \<open>Access\<close>

definition spaceAccess :: "Identity \<Rightarrow> string \<Rightarrow> srv \<Rightarrow> (Space \<times> string) option" where
  "spaceAccess ident sid s =
     (case lookup (loadSpaces s) sid of
        None \<Rightarrow> None
      | Some space \<Rightarrow>
          if id_Email ident = [] then None
          else map_option (\<lambda>role. (space, role)) (lookup (sp_Members space) (id_Email ident)))"

definition spaceResponse :: "Space \<Rightarrow> string \<Rightarrow> SpaceResponse" where
  "spaceResponse space role =
     \<lparr>sr_ID = sp_ID space, sr_Name = sp_Name space, sr_Description = sp_Description space,
      sr_Role = role, sr_CreatedAt = sp_CreatedAt space, sr_UpdatedAt = sp_UpdatedAt space\<rparr>"

definition requireSession :: "Identity \<Rightarrow> unit handler" where
  "requireSession ident =
     require (id_Email ident \<noteq> [] \<or> id_Scope ident = scopeAdmin) (Forbidden ''forbidden'')"

definition access_or_404 :: "Identity \<Rightarrow> string \<Rightarrow> (Space \<times> string) handler" where
  "access_or_404 ident sid =
     io_then (requireSession ident)
     (io_bind (io_get (spaceAccess ident sid)) (\<lambda>a.
        case a of None \<Rightarrow> io_fail (NotFound ''not found'') | Some x \<Rightarrow> io_return x))"

definition scopeRoot :: "string \<Rightarrow> Identity \<Rightarrow> string handler" where
  "scopeRoot sid ident s =
     (if sid = [] then
        (if commonAllowed ident s then (Inr (s_DataDir s), s) else (Inl (Forbidden ''forbidden''), s))
      else if \<exists>c\<in>set sid. c \<in> {CHR ''/'', CHR 92, CHR ''.''} then (Inl (Invalid ''invalid path''), s)
      else case spaceAccess ident sid s of
             None \<Rightarrow> (Inl (Forbidden ''forbidden''), s)
           | Some _ \<Rightarrow> (Inr (spaceDir (s_DataDir s) sid), s))"

subsection \<open>Spaces\<close>

definition spacesList :: "Identity \<Rightarrow> SpaceResponse list handler" where
  "spacesList ident =
     io_get (\<lambda>s. sort_key sr_Name
       (List.map_filter (\<lambda>space.
          if id_Email ident = [] then None
          else map_option (spaceResponse space) (lookup (sp_Members space) (id_Email ident)))
        (map snd (loadSpaces s))))"

definition spacesCreate :: "(string \<times> string) option \<Rightarrow> Identity \<Rightarrow> SpaceResponse handler" where
  "spacesCreate body ident =
     io_then (requireSession ident)
     (case body of
        None \<Rightarrow> io_fail (Invalid ''name required'')
      | Some (name, description) \<Rightarrow>
          io_then (require (trim_space name \<noteq> []) (Invalid ''name required''))
          (io_bind newSpaceID (\<lambda>sid s.
             let t = format_rfc3339 (s_now s);
                 space = \<lparr>sp_ID = sid, sp_Name = trim_space name, sp_Description = description,
                          sp_Members = (if id_Email ident \<noteq> [] then [(id_Email ident, roleOwner)] else []),
                          sp_CreatedAt = t, sp_UpdatedAt = t\<rparr>;
                 (good, s') = spaces_store.change (AList.update sid space) s
             in if good then
                  (Inr (spaceResponse space roleOwner),
                   s'\<lparr>s_dirs := s_dirs s' @
                        map (\<lambda>d. spaceDir (s_DataDir s') sid @ ''/'' @ d)
                          [''memory'', ''rules'', ''skills'', ''sessions'']\<rparr>)
                else (Inl (Internal ''internal error''), s'))))"

text \<open>Change the space if the store still has it, and save the store either way.\<close>

definition commit_space :: "string \<Rightarrow> (Space \<Rightarrow> Space) \<Rightarrow> unit handler" where
  "commit_space sid f s =
     (let (good, s') = spaces_store.change
            (\<lambda>spaces. case lookup spaces sid of
                None \<Rightarrow> spaces
              | Some sp \<Rightarrow> AList.update sid (f sp) spaces) s
      in (if good then Inr () else Inl (Internal ''internal error''), s'))"

definition spacesUpdate :: "string \<Rightarrow> (string \<times> string) option \<Rightarrow> Identity \<Rightarrow> SpaceResponse handler" where
  "spacesUpdate sid body ident =
     io_bind (access_or_404 ident sid) (\<lambda>(space, role).
     io_then (require (role = roleOwner \<or> role = roleAdmin) (Forbidden ''forbidden''))
     (case body of
        None \<Rightarrow> io_fail (Invalid ''name required'')
      | Some (name, description) \<Rightarrow>
          io_then (require (trim_space name \<noteq> []) (Invalid ''name required''))
          (\<lambda>s. let f = (\<lambda>sp. sp\<lparr>sp_Name := trim_space name, sp_Description := description,
                               sp_UpdatedAt := format_rfc3339 (s_now s)\<rparr>);
                   space' = (case lookup (loadSpaces s) (sp_ID space) of
                               None \<Rightarrow> space | Some sp \<Rightarrow> f sp)
               in io_then (commit_space (sp_ID space) f)
                    (io_return (spaceResponse space' role)) s)))"

text \<open>The layout \<open>20060102T150405\<close>.\<close>

definition format_compact :: "instant \<Rightarrow> string" where
  "format_compact t =
     filter (\<lambda>c. c \<noteq> CHR ''-'') (format_day t) @ ''T'' @ filter (\<lambda>c. c \<noteq> CHR '':'') (format_clock t)"

definition inside_dir :: "string \<Rightarrow> string \<Rightarrow> bool" where
  "inside_dir dir d \<longleftrightarrow> d = dir \<or> has_prefix d (dir @ ''/'')"

definition trash_space :: "string \<Rightarrow> srv \<Rightarrow> srv" where
  "trash_space sid s =
     (let dir = spaceDir (s_DataDir s) sid;
          target = s_DataDir s @ ''/.trash/'' @ sid @ ''-'' @ format_compact (s_now s)
      in if \<exists>d\<in>set (s_dirs s). inside_dir dir d then
           s\<lparr>s_dirs := map (\<lambda>d. if inside_dir dir d then target @ drop (length dir) d else d) (s_dirs s)\<rparr>
         else s)"

definition spacesDelete :: "string \<Rightarrow> Identity \<Rightarrow> unit handler" where
  "spacesDelete sid ident =
     io_bind (access_or_404 ident sid) (\<lambda>(space, role).
     io_then (require (role = roleOwner) (Forbidden ''forbidden''))
     (\<lambda>s. let (good, s') = spaces_store.change (AList.delete (sp_ID space)) s
          in if good then (Inr (), trash_space (sp_ID space) s')
             else (Inl (Internal ''internal error''), s')))"

subsection \<open>Members\<close>

definition spacesMembers :: "string \<Rightarrow> Identity \<Rightarrow> MemberResponse list handler" where
  "spacesMembers sid ident =
     io_bind (access_or_404 ident sid) (\<lambda>(space, _).
       io_get (\<lambda>s. sort_key mr_Email
         (map (\<lambda>(email, role).
            \<lparr>mr_Email = email,
             mr_Name = (case lookup (loadUsers s) email of None \<Rightarrow> [] | Some u \<Rightarrow> u_Name u),
             mr_Role = role, mr_JoinedAt = sp_CreatedAt space\<rparr>) (sp_Members space))))"

definition decodeMemberGrant :: "(string \<times> string) option \<Rightarrow> string \<Rightarrow> (string \<times> string) handler" where
  "decodeMemberGrant body actorRole =
     (case body of
        None \<Rightarrow> io_fail (Invalid ''email required'')
      | Some (email, rrole) \<Rightarrow>
          let role = (if rrole = [] then roleMember else rrole) in
          io_then (require (email \<noteq> []) (Invalid ''email required''))
          (io_then (require (validRole role) (Invalid ''invalid role''))
          (io_then (require (role \<noteq> roleOwner \<or> actorRole = roleOwner)
             (Forbidden ''only owners can grant owner''))
          (io_return (email, role)))))"

definition with_member :: "string \<Rightarrow> string \<Rightarrow> instant \<Rightarrow> Space \<Rightarrow> Space" where
  "with_member email role t sp =
     sp\<lparr>sp_Members := AList.update email role (sp_Members sp), sp_UpdatedAt := format_rfc3339 t\<rparr>"

definition spacesMemberAdd :: "string \<Rightarrow> (string \<times> string) option \<Rightarrow> Identity \<Rightarrow> unit handler" where
  "spacesMemberAdd sid body ident =
     io_bind (access_or_404 ident sid) (\<lambda>(space, role).
     io_then (require (role = roleOwner \<or> role = roleAdmin) (Forbidden ''forbidden''))
     (io_bind (decodeMemberGrant body role) (\<lambda>(email, granted) s.
        if lookup (loadUsers s) email = None then (Inl (Invalid ''unknown user''), s)
        else commit_space (sp_ID space) (with_member email granted (s_now s)) s)))"

definition spacesMemberUpdate :: "string \<Rightarrow> string \<Rightarrow> string option \<Rightarrow> Identity \<Rightarrow> unit handler" where
  "spacesMemberUpdate sid email body ident =
     io_bind (access_or_404 ident sid) (\<lambda>(space, role).
     io_then (require (role = roleOwner) (Forbidden ''forbidden''))
     (case body of
        None \<Rightarrow> io_fail (Invalid ''invalid role'')
      | Some newrole \<Rightarrow>
          io_then (require (validRole newrole) (Invalid ''invalid role''))
          (\<lambda>s. case lookup (loadSpaces s) (sp_ID space) of
                 None \<Rightarrow> (Inl (NotFound ''not found''), s)
               | Some sp \<Rightarrow>
                   if get_or [] (sp_Members sp) email = [] then (Inl (NotFound ''not found''), s)
                   else commit_space (sp_ID space) (with_member email newrole (s_now s)) s)))"

definition owners :: "Space \<Rightarrow> nat" where
  "owners sp = length (filter (\<lambda>(_, r). r = roleOwner) (sp_Members sp))"

definition removeMember :: "string \<Rightarrow> string \<Rightarrow> unit handler" where
  "removeMember sid email s =
     (case lookup (loadSpaces s) sid of
        None \<Rightarrow> (Inl (NotFound ''not found''), s)
      | Some sp \<Rightarrow>
          let role = get_or [] (sp_Members sp) email in
          if role = [] then (Inl (NotFound ''not found''), s)
          else if role = roleOwner \<and> owners sp \<le> 1 then
            (Inl (Conflict ''cannot remove the only owner; transfer ownership or delete the space''), s)
          else commit_space sid (\<lambda>sp. sp\<lparr>sp_Members := AList.delete email (sp_Members sp),
                                         sp_UpdatedAt := format_rfc3339 (s_now s)\<rparr>) s)"

definition spacesMemberRemove :: "string \<Rightarrow> string \<Rightarrow> Identity \<Rightarrow> unit handler" where
  "spacesMemberRemove sid email ident =
     io_bind (access_or_404 ident sid) (\<lambda>(space, role).
     io_then (require (role = roleOwner \<or> role = roleAdmin) (Forbidden ''forbidden''))
     (removeMember (sp_ID space) email))"

definition spacesLeave :: "string \<Rightarrow> Identity \<Rightarrow> unit handler" where
  "spacesLeave sid ident =
     io_bind (access_or_404 ident sid) (\<lambda>(space, role).
     io_then (require (id_Email ident \<noteq> []) (Forbidden ''forbidden''))
     (removeMember (sp_ID space) (id_Email ident)))"

end
