(* ===== verification/DeviceFlow.thy ===== *)
theory DeviceFlow
  imports ServerAuth
begin

text \<open>
  Device logins, \<open>device.go\<close> and \<open>device_api.go\<close>: a machine without a browser starts a login, shows a
  short user code, and polls until a signed-in admin approves it. Also the one-time login codes of
  \<open>oidc_login_code.go\<close>. The operations of both stores are pure functions of the store and the time;
  the handlers run them on the server's state.
\<close>

definition deviceCodeTTL :: duration where "deviceCodeTTL = 10 * minute"
definition devicePollInterval :: nat where "devicePollInterval = 5"
definition maxPendingDevices :: nat where "maxPendingDevices = 256"
definition userCodeAlphabet :: string where "userCodeAlphabet = ''23456789BCDFGHJKMNPQRSTVWXYZ''"
definition loginCodeTTL :: duration where "loginCodeTTL = 60 * second"
definition maxPendingLoginCodes :: nat where "maxPendingLoginCodes = 256"

subsection \<open>The device store\<close>

definition newDeviceStore :: deviceStore where
  "newDeviceStore = \<lparr>ds_heap = [], byDevice = [], byUser = []\<rparr>"

definition normalizeUserCode :: "string \<Rightarrow> string" where
  "normalizeUserCode code = filter (\<lambda>c. is_upper c \<or> is_digit c) (to_upper code)"

definition device_at :: "deviceStore \<Rightarrow> nat \<Rightarrow> deviceRequest" where
  "device_at d r = ds_heap d ! r"

definition dead_devices :: "instant \<Rightarrow> deviceStore \<Rightarrow> (string \<times> nat) list" where
  "dead_devices t d = filter (\<lambda>(code, r). dr_Expires (device_at d r) < t) (byDevice d)"

definition device_sweep :: "instant \<Rightarrow> deviceStore \<Rightarrow> deviceStore" where
  "device_sweep t d =
     (let dead = dead_devices t d;
          codes = map fst dead;
          ucodes = map (\<lambda>(_, r). normalizeUserCode (dr_UserCode (device_at d r))) dead
      in d\<lparr>byDevice := filter (\<lambda>(k, _). k \<notin> set codes) (byDevice d),
           byUser := filter (\<lambda>(k, _). k \<notin> set ucodes) (byUser d)\<rparr>)"

text \<open>\<open>create\<close>, given the two codes it generated.\<close>

definition device_create ::
  "string \<Rightarrow> string \<Rightarrow> string \<Rightarrow> string \<Rightarrow> instant \<Rightarrow> deviceStore \<Rightarrow> deviceRequest option \<times> deviceStore" where
  "device_create deviceCode userCode machine ip t d =
     (let req = \<lparr>dr_DeviceCode = deviceCode, dr_UserCode = userCode, dr_Machine = machine, dr_IP = ip,
                 dr_Status = devicePending, dr_Token = [], dr_Expires = t + deviceCodeTTL\<rparr>;
          d = device_sweep t d
      in if maxPendingDevices \<le> length (byDevice d) then (None, d)
         else (Some req,
               d\<lparr>ds_heap := ds_heap d @ [req],
                 byDevice := AList.update deviceCode (length (ds_heap d)) (byDevice d),
                 byUser := AList.update (normalizeUserCode userCode) (length (ds_heap d)) (byUser d)\<rparr>))"

definition device_info :: "string \<Rightarrow> instant \<Rightarrow> deviceStore \<Rightarrow> deviceRequest option \<times> deviceStore" where
  "device_info userCode t d =
     (let d = device_sweep t d
      in (map_option (device_at d) (lookup (byUser d) (normalizeUserCode userCode)), d))"

definition device_set :: "nat \<Rightarrow> (deviceRequest \<Rightarrow> deviceRequest) \<Rightarrow> deviceStore \<Rightarrow> deviceStore" where
  "device_set r f d = d\<lparr>ds_heap := (ds_heap d)[r := f (device_at d r)]\<rparr>"

definition device_approve :: "string \<Rightarrow> string \<Rightarrow> instant \<Rightarrow> deviceStore \<Rightarrow> string option \<times> deviceStore" where
  "device_approve userCode token t d =
     (let d = device_sweep t d
      in case lookup (byUser d) (normalizeUserCode userCode) of
           None \<Rightarrow> (None, d)
         | Some r \<Rightarrow>
             if dr_Status (device_at d r) \<noteq> devicePending then (None, d)
             else (Some (dr_Machine (device_at d r)),
                   device_set r (\<lambda>q. q\<lparr>dr_Status := deviceApproved, dr_Token := token\<rparr>) d))"

definition device_deny :: "string \<Rightarrow> instant \<Rightarrow> deviceStore \<Rightarrow> bool \<times> deviceStore" where
  "device_deny userCode t d =
     (let d = device_sweep t d
      in case lookup (byUser d) (normalizeUserCode userCode) of
           None \<Rightarrow> (False, d)
         | Some r \<Rightarrow>
             if dr_Status (device_at d r) \<noteq> devicePending then (False, d)
             else (True, device_set r (\<lambda>q. q\<lparr>dr_Status := deviceDenied\<rparr>) d))"

definition device_poll :: "string \<Rightarrow> instant \<Rightarrow> deviceStore \<Rightarrow> (deviceStatus \<times> string) option \<times> deviceStore" where
  "device_poll deviceCode t d =
     (let d = device_sweep t d
      in case lookup (byDevice d) deviceCode of
           None \<Rightarrow> (None, d)
         | Some r \<Rightarrow>
             let req = device_at d r in
             if dr_Status req = deviceApproved then
               (Some (deviceApproved, dr_Token req),
                d\<lparr>byDevice := AList.delete (dr_DeviceCode req) (byDevice d),
                  byUser := AList.delete (normalizeUserCode (dr_UserCode req)) (byUser d)\<rparr>)
             else (Some (dr_Status req, []), d))"

definition code_letter :: "int \<Rightarrow> char" where
  "code_letter b = userCodeAlphabet ! (nat b mod length userCodeAlphabet)"

definition user_code_of :: "int list \<Rightarrow> string" where
  "user_code_of bs = map code_letter (take 4 bs) @ ''-'' @ map code_letter (drop 4 bs)"

definition generateUserCode :: "string handler" where
  "generateUserCode =
     io_bind (rand_read 8)
       (\<lambda>b. case b of None \<Rightarrow> io_fail (Internal ''internal error'') | Some bs \<Rightarrow> io_return (user_code_of bs))"

subsection \<open>The login code store\<close>

definition codes_sweep :: "instant \<Rightarrow> loginCodeStore \<Rightarrow> loginCodeStore" where
  "codes_sweep t l = filter (\<lambda>(_, c). \<not> lc_Expires c < t) l"

definition codes_create :: "string \<Rightarrow> string \<Rightarrow> string \<Rightarrow> instant \<Rightarrow> loginCodeStore \<Rightarrow> bool \<times> loginCodeStore" where
  "codes_create hash email scope t l =
     (let l = codes_sweep t l
      in if maxPendingLoginCodes \<le> length l then (False, l)
         else (True, AList.update hash
                 \<lparr>lc_Email = email, lc_Scope = scope, lc_Expires = t + loginCodeTTL\<rparr> l))"

definition codes_consume :: "string \<Rightarrow> instant \<Rightarrow> loginCodeStore \<Rightarrow> loginCode option \<times> loginCodeStore" where
  "codes_consume hash t l =
     (let l' = codes_sweep t (AList.delete hash l)
      in case lookup l hash of
           None \<Rightarrow> (None, l')
         | Some c \<Rightarrow> if lc_Expires c < t then (None, l') else (Some c, l'))"

subsection \<open>Handlers\<close>

record device_started =
  dst_device_code :: string
  dst_user_code :: string
  dst_machine :: string
  dst_verification_uri :: string
  dst_verification_uri_complete :: string
  dst_interval :: nat
  dst_expires_in :: int

definition on_devices :: "(instant \<Rightarrow> deviceStore \<Rightarrow> 'a \<times> deviceStore) \<Rightarrow> 'a handler" where
  "on_devices f s = (let (x, d) = f (s_now s) (s_devices s) in (Inr x, s\<lparr>s_devices := d\<rparr>))"

definition limit_starts :: "string \<Rightarrow> unit handler" where
  "limit_starts ip s =
     (let (good, rl) = allow ip (s_now s) (s_devStarts s)
      in (if good then Inr () else Inl (RateLimited ''too many requests''), s\<lparr>s_devStarts := rl\<rparr>))"

definition limit_polls :: "string \<Rightarrow> unit handler" where
  "limit_polls ip s =
     (let (good, rl) = allow ip (s_now s) (s_devPolls s)
      in (if good then Inr () else Inl (RateLimited ''too many requests''), s\<lparr>s_devPolls := rl\<rparr>))"

definition deviceStart :: "request \<Rightarrow> string \<Rightarrow> device_started handler" where
  "deviceStart r rmachine =
     io_then (limit_starts (clientIP r))
     (let machine = (if trim_space rmachine = [] then ''device'' else trim_space rmachine) in
      io_bind generateToken (\<lambda>deviceCode.
      io_bind generateUserCode (\<lambda>userCode.
      io_bind (on_devices (device_create deviceCode userCode machine (clientIP r))) (\<lambda>c.
        case c of
          None \<Rightarrow> io_fail (RateLimited ''too many pending authorizations'')
        | Some dr \<Rightarrow>
            io_return \<lparr>dst_device_code = dr_DeviceCode dr, dst_user_code = dr_UserCode dr,
              dst_machine = dr_Machine dr,
              dst_verification_uri = baseURL r @ ''/authorize'',
              dst_verification_uri_complete = baseURL r @ ''/authorize?code='' @ dr_UserCode dr,
              dst_interval = devicePollInterval, dst_expires_in = deviceCodeTTL div second\<rparr>))))"

text \<open>\<open>Some token\<close> is the answer 200, \<open>None\<close> the answer 202 of a login still pending.\<close>

definition devicePoll :: "request \<Rightarrow> string option \<Rightarrow> string option handler" where
  "devicePoll r body =
     io_then (limit_polls (clientIP r))
     (case body of
        None \<Rightarrow> io_fail (Invalid ''bad request'')
      | Some deviceCode \<Rightarrow>
          io_bind (on_devices (device_poll deviceCode)) (\<lambda>p.
            case p of
              None \<Rightarrow> io_fail (Invalid ''unknown or expired device code'')
            | Some (st, token) \<Rightarrow>
                (case st of
                   deviceApproved \<Rightarrow> io_return (Some token)
                 | deviceDenied \<Rightarrow> io_fail (Forbidden ''authorization denied'')
                 | devicePending \<Rightarrow> io_return None)))"

record device_view =
  dv_user_code :: string
  dv_machine :: string
  dv_ip :: string
  dv_status :: deviceStatus

definition deviceInfo :: "string \<Rightarrow> device_view handler" where
  "deviceInfo code =
     io_bind (on_devices (device_info code)) (\<lambda>i.
       case i of
         None \<Rightarrow> io_fail (NotFound ''not found'')
       | Some req \<Rightarrow>
           io_return \<lparr>dv_user_code = dr_UserCode req, dv_machine = dr_Machine req, dv_ip = dr_IP req,
             dv_status = dr_Status req\<rparr>)"

definition deviceApprove :: "string option \<Rightarrow> Identity \<Rightarrow> string handler" where
  "deviceApprove body ident =
     (case body of
        None \<Rightarrow> io_fail (Invalid ''bad request'')
      | Some userCode \<Rightarrow>
          io_bind (on_devices (device_info userCode)) (\<lambda>i.
            case i of
              None \<Rightarrow> io_fail (NotFound ''not found'')
            | Some req \<Rightarrow>
                io_then (require (dr_Status req = devicePending) (NotFound ''not found''))
                (io_bind (mintToken (dr_Machine req) scopeSync (id_Email ident)) (\<lambda>token.
                 io_bind (on_devices (device_approve userCode token)) (\<lambda>a.
                   case a of
                     None \<Rightarrow> io_fail (NotFound ''not found'')
                   | Some _ \<Rightarrow> io_return (dr_Machine req))))))"

definition deviceDeny :: "string option \<Rightarrow> unit handler" where
  "deviceDeny body =
     (case body of
        None \<Rightarrow> io_fail (Invalid ''bad request'')
      | Some userCode \<Rightarrow>
          io_bind (on_devices (device_deny userCode)) (\<lambda>denied.
            require denied (NotFound ''not found'')))"

end
