(* ===== verification/ServerOIDC.thy ===== *)
theory ServerOIDC
  imports DeviceFlow
begin

text \<open>
  Single sign-on, \<open>oidc.go\<close>, \<open>oidc_handlers.go\<close> and \<open>oidc_handoff.go\<close>. The identity provider is a
  parameter: \<open>ready\<close> says whether discovery succeeded, \<open>idp\<close> what the authorization code of a request
  is worth, the verified email, name and user name, or \<open>None\<close> where the exchange or the verification
  failed. The cookie that carries a login through the provider is the record the code puts into it,
  without its coding as base64 and JSON. The page that shows a code to paste is the code.
\<close>

definition flowParam :: string where "flowParam = ''flow''"
definition flowCLI :: string where "flowCLI = ''cli''"
definition maxCLIState :: nat where "maxCLIState = 128"

record oidcFlow =
  of_State :: string
  of_CLI :: bool
  of_Port :: string
  of_CLIState :: string

datatype oidc_cookie = NoCookie | Garbled | FlowCookie oidcFlow

record loginCodeGrant =
  lg_Email :: string
  lg_Scope :: string
  lg_Port :: string
  lg_Nonce :: string

datatype callback_reply =
  SessionRedirect string | LoopbackRedirect string | PasteCode string | LoginFailed string

definition successURL :: "request \<Rightarrow> srv \<Rightarrow> string" where
  "successURL r s =
     (case s_OIDC s of
        Some u \<Rightarrow> if u \<noteq> [] then u else baseURL r @ ''/auth/callback''
      | None \<Rightarrow> baseURL r @ ''/auth/callback'')"

text \<open>\<open>strconv.Atoi\<close>: an optional sign and at least one digit.\<close>

definition Atoi :: "string \<Rightarrow> int option" where
  "Atoi s =
     (let (neg, ds) = (case s of
            CHR ''-'' # r \<Rightarrow> (True, r) | CHR ''+'' # r \<Rightarrow> (False, r) | _ \<Rightarrow> (False, s))
      in if ds = [] \<or> \<not> list_all is_digit ds then None
         else Some (if neg then - digits_val ds else digits_val ds))"

definition loopbackPort :: "string \<Rightarrow> string" where
  "loopbackPort v =
     (case Atoi v of None \<Rightarrow> [] | Some p \<Rightarrow> if p < 1024 \<or> 65535 < p then [] else v)"

definition cliState :: "string \<Rightarrow> string" where
  "cliState v =
     (if v = [] \<or> maxCLIState < length v then []
      else if list_all (\<lambda>c. is_lower c \<or> is_upper c \<or> is_digit c \<or> c = CHR ''-'' \<or> c = CHR ''_'') v
      then v else [])"

subsection \<open>URLs\<close>

definition base64_letter :: "int \<Rightarrow> char" where
  "base64_letter n =
     (''ABCDEFGHIJKLMNOPQRSTUVWXYZabcdefghijklmnopqrstuvwxyz0123456789-_'' ! nat (n mod 64))"

fun base64_url :: "int list \<Rightarrow> string" where
  "base64_url (a # b # c # r) =
     [base64_letter (a div 4), base64_letter (a * 16 + b div 16), base64_letter (b * 4 + c div 64),
      base64_letter c] @ base64_url r"
| "base64_url [a, b] = [base64_letter (a div 4), base64_letter (a * 16 + b div 16), base64_letter (b * 4)]"
| "base64_url [a] = [base64_letter (a div 4), base64_letter (a * 16)]"
| "base64_url [] = []"

definition percent :: "char \<Rightarrow> string" where
  "percent c = CHR ''%'' # to_upper (hex_byte (of_char c))"

definition unreserved :: "char \<Rightarrow> bool" where
  "unreserved c \<longleftrightarrow> is_lower c \<or> is_upper c \<or> is_digit c \<or> c \<in> set ''-_.~''"

definition QueryEscape :: "string \<Rightarrow> string" where
  "QueryEscape s =
     concat (map (\<lambda>c. if unreserved c then [c] else if c = CHR '' '' then ''+'' else percent c) s)"

definition host_char :: "char \<Rightarrow> bool" where
  "host_char c \<longleftrightarrow> unreserved c \<or> c \<in> set ''!$&()*+,;=:[]<>'' \<or> c \<in> {CHR 39, CHR 34}"

definition escape_host :: "string \<Rightarrow> string" where
  "escape_host s = concat (map (\<lambda>c. if host_char c then [c] else percent c) s)"

definition loopback_url :: "string \<Rightarrow> string \<Rightarrow> string \<Rightarrow> string" where
  "loopback_url port code nonce =
     ''http://'' @ escape_host (''127.0.0.1:'' @ port) @ ''/?code='' @ QueryEscape code @
     (if nonce \<noteq> [] then ''&state='' @ QueryEscape nonce else [])"

subsection \<open>Handlers\<close>

definition oidcStart ::
  "bool \<Rightarrow> string \<Rightarrow> string \<Rightarrow> string \<Rightarrow> request \<Rightarrow> (oidcFlow \<times> bool) handler" where
  "oidcStart ready flow port cli_state r =
     io_bind (io_get (\<lambda>s. s_OIDC s \<noteq> None \<and> ready)) (\<lambda>available.
     io_then (require available (Unavailable ''sso unavailable''))
     (io_bind (rand_read 16) (\<lambda>b.
        let st = base64_url (case b of None \<Rightarrow> replicate 16 0 | Some bs \<Rightarrow> bs);
            pending = (if flow = flowCLI
                       then \<lparr>of_State = st, of_CLI = True, of_Port = loopbackPort port,
                             of_CLIState = cliState cli_state\<rparr>
                       else \<lparr>of_State = st, of_CLI = False, of_Port = [], of_CLIState = []\<rparr>)
        in io_get (\<lambda>s. (pending, has_prefix (successURL r s) ''https://'')))))"

definition pendingOIDCFlow :: "oidc_cookie \<Rightarrow> string \<Rightarrow> oidcFlow handler" where
  "pendingOIDCFlow cookie st =
     (case cookie of
        FlowCookie f \<Rightarrow>
          if of_State f \<noteq> [] \<and> of_State f = st then io_return f
          else io_fail (Invalid ''invalid oauth2 state'')
      | _ \<Rightarrow> io_fail (Invalid ''invalid oauth2 state''))"

definition oidcFailureRedirect :: "request \<Rightarrow> callback_reply" where
  "oidcFailureRedirect r = LoginFailed (baseURL r @ ''/login?error='' @ QueryEscape ''sso'')"

definition oidcIdentity ::
  "(string \<Rightarrow> (string \<times> string \<times> string) option) \<Rightarrow> string \<Rightarrow> (User \<times> string) option handler" where
  "oidcIdentity idp code s =
     (case idp code of
        None \<Rightarrow> (Inr None, s)
      | Some (email, cname, preferred) \<Rightarrow>
          if email = [] then (Inr None, s)
          else let (user, s') = upsertUser email (if cname = [] then preferred else cname) s
               in (Inr (Some (user, if u_Admin user then scopeAdmin else scopeUser)), s'))"

definition issueLoginCode :: "loginCodeGrant \<Rightarrow> callback_reply handler" where
  "issueLoginCode grant =
     io_bind generateToken (\<lambda>code s.
       let (good, l) = codes_create (hashToken code) (lg_Email grant) (lg_Scope grant) (s_now s) (s_loginCodes s);
           s' = s\<lparr>s_loginCodes := l\<rparr>
       in if \<not> good then (Inl (RateLimited ''too many pending logins''), s')
          else if lg_Port grant = [] then (Inr (PasteCode code), s')
          else (Inr (LoopbackRedirect (loopback_url (lg_Port grant) code (lg_Nonce grant))), s'))"

definition oidcCallback ::
  "bool \<Rightarrow> (string \<Rightarrow> (string \<times> string \<times> string) option) \<Rightarrow> oidc_cookie \<Rightarrow> string \<Rightarrow> string \<Rightarrow> request
   \<Rightarrow> callback_reply handler" where
  "oidcCallback ready idp cookie st code r =
     io_bind (io_get (\<lambda>s. s_OIDC s \<noteq> None \<and> ready)) (\<lambda>available.
     io_then (require available (Unavailable ''sso unavailable''))
     (io_bind (pendingOIDCFlow cookie st) (\<lambda>pending.
      io_bind (oidcIdentity idp code) (\<lambda>i.
        case i of
          None \<Rightarrow> io_return (oidcFailureRedirect r)
        | Some (user, scope) \<Rightarrow>
            if of_CLI pending then
              issueLoginCode \<lparr>lg_Email = u_Email user, lg_Scope = scope, lg_Port = of_Port pending,
                lg_Nonce = of_CLIState pending\<rparr>
            else io_bind (mintSessionToken (u_Email user) scope) (\<lambda>session.
              io_get (\<lambda>s. SessionRedirect (successURL r s @ ''#token='' @ session)))))))"

definition oidcExchange :: "string option \<Rightarrow> string handler" where
  "oidcExchange body =
     (case body of
        None \<Rightarrow> io_fail (Invalid ''missing code'')
      | Some code \<Rightarrow>
          io_then (require (code \<noteq> []) (Invalid ''missing code''))
          (io_bind (\<lambda>s. let (c, l) = codes_consume (hashToken code) (s_now s) (s_loginCodes s)
                        in (Inr c, s\<lparr>s_loginCodes := l\<rparr>)) (\<lambda>c.
             case c of
               None \<Rightarrow> io_fail (Unauthorized ''invalid or expired code'')
             | Some c \<Rightarrow> mintNamedSession (''cli:'' @ lc_Email c) (lc_Email c) (lc_Scope c))))"

end
