(* ===== verification/ServerRoutes.thy ===== *)
theory ServerRoutes
  imports ServerSpaces ServerOIDC SyncServer
begin

text \<open>
  The router of \<open>server.go\<close>: which guard stands before which route, and what a request to a route of
  the account, space, device and sign-on handlers does. The routes that read or write a tree all
  begin with \<open>scopeRoot\<close>; one endpoint, \<open>TreeRoot\<close>, stands for that beginning. A path parameter is
  the raw segment of the path: the handlers of \<open>users.go\<close> and \<open>tokens.go\<close> decode it, those of
  \<open>spaces_members.go\<close> do not.
\<close>

datatype guard = PublicRoute | SessionRoute | AdminRoute

type_synonym routes = "((string \<times> string) \<times> guard) list"

subsection \<open>The route table\<close>

definition mountAuthRoutes :: "bool \<Rightarrow> routes" where
  "mountAuthRoutes ssoOnly =
     [((''GET'', ''/auth/config''), PublicRoute)] @
     (if ssoOnly then [] else [((''POST'', ''/auth/login''), PublicRoute)]) @
     [((''GET'', ''/auth/oidc''), PublicRoute),
      ((''GET'', ''/auth/oidc/callback''), PublicRoute),
      ((''POST'', ''/auth/oidc/exchange''), PublicRoute),
      ((''GET'', ''/auth/me''), SessionRoute),
      ((''POST'', ''/auth/logout''), SessionRoute),
      ((''POST'', ''/auth/device/start''), PublicRoute),
      ((''POST'', ''/auth/device/poll''), PublicRoute),
      ((''GET'', ''/auth/device/info''), AdminRoute),
      ((''POST'', ''/auth/device/approve''), AdminRoute),
      ((''POST'', ''/auth/device/deny''), AdminRoute)]"

definition mountInsightRoutes :: routes where
  "mountInsightRoutes =
     [((''GET'', ''/status''), SessionRoute),
      ((''GET'', ''/memory/search''), SessionRoute),
      ((''POST'', ''/memory/search''), SessionRoute),
      ((''GET'', ''/memory/index''), SessionRoute),
      ((''GET'', ''/memory/index/status''), SessionRoute),
      ((''GET'', ''/sessions/stats''), SessionRoute),
      ((''GET'', ''/sessions/recent''), SessionRoute),
      ((''GET'', ''/sessions/live''), SessionRoute),
      ((''GET'', ''/sessions/timeline''), SessionRoute),
      ((''GET'', ''/claims''), SessionRoute),
      ((''DELETE'', ''/claims/{project}/{machine}/{agent}''), SessionRoute),
      ((''GET'', ''/usage''), SessionRoute),
      ((''GET'', ''/usage/history''), SessionRoute)]"

definition mountContentRoutes :: routes where
  "mountContentRoutes =
     [((''GET'', ''/settings''), AdminRoute),
      ((''PUT'', ''/settings''), AdminRoute),
      ((''GET'', ''/rules''), SessionRoute),
      ((''GET'', ''/rules/{name}''), SessionRoute),
      ((''PUT'', ''/rules/{name}''), SessionRoute),
      ((''DELETE'', ''/rules/{name}''), SessionRoute),
      ((''GET'', ''/skills''), SessionRoute),
      ((''GET'', ''/skills/{name}''), SessionRoute),
      ((''PUT'', ''/skills/{name}''), SessionRoute),
      ((''DELETE'', ''/skills/{name}''), SessionRoute),
      ((''GET'', ''/flows''), SessionRoute),
      ((''GET'', ''/flows/{name}''), SessionRoute),
      ((''GET'', ''/models''), SessionRoute),
      ((''GET'', ''/models/*''), SessionRoute),
      ((''GET'', ''/artifacts''), SessionRoute),
      ((''GET'', ''/artifacts/{id}''), SessionRoute),
      ((''DELETE'', ''/artifacts/{id}''), SessionRoute)]"

definition mountAccountRoutes :: routes where
  "mountAccountRoutes =
     [((''GET'', ''/users''), SessionRoute),
      ((''PUT'', ''/users/{email}''), AdminRoute),
      ((''GET'', ''/spaces''), SessionRoute),
      ((''POST'', ''/spaces''), SessionRoute),
      ((''PUT'', ''/spaces/{id}''), SessionRoute),
      ((''DELETE'', ''/spaces/{id}''), SessionRoute),
      ((''GET'', ''/spaces/{id}/members''), SessionRoute),
      ((''POST'', ''/spaces/{id}/members''), SessionRoute),
      ((''PUT'', ''/spaces/{id}/members/{email}''), SessionRoute),
      ((''DELETE'', ''/spaces/{id}/members/{email}''), SessionRoute),
      ((''POST'', ''/spaces/{id}/leave''), SessionRoute),
      ((''GET'', ''/tokens''), AdminRoute),
      ((''POST'', ''/tokens''), AdminRoute),
      ((''DELETE'', ''/tokens/{name}''), AdminRoute)]"

definition mountSyncRoutes :: routes where
  "mountSyncRoutes =
     [((''GET'', ''/sync/tree''), SessionRoute),
      ((''GET'', ''/sync/files/*''), SessionRoute),
      ((''PUT'', ''/sync/files/*''), SessionRoute),
      ((''DELETE'', ''/sync/files/*''), SessionRoute)]"

definition route_table :: "bool \<Rightarrow> routes" where
  "route_table ssoOnly =
     mountAuthRoutes ssoOnly @ mountInsightRoutes @ mountContentRoutes @ mountAccountRoutes @ mountSyncRoutes"

subsection \<open>Requests to the modelled routes\<close>

datatype endpoint =
  AuthConfig
  | Login "(string \<times> string) option"
  | OidcStart string string string
  | OidcCallback oidc_cookie string string
  | OidcExchange "string option"
  | AuthMe
  | Logout
  | DeviceStart string
  | DevicePoll "string option"
  | DeviceInfo string
  | DeviceApprove "string option"
  | DeviceDeny "string option"
  | UsersList
  | UserUpdate string "(string option \<times> bool option) option"
  | SpacesList
  | SpacesCreate "(string \<times> string) option"
  | SpacesUpdate string "(string \<times> string) option"
  | SpacesDelete string
  | SpacesMembers string
  | SpacesMemberAdd string "(string \<times> string) option"
  | SpacesMemberUpdate string string "string option"
  | SpacesMemberRemove string string
  | SpacesLeave string
  | TokensList
  | TokensCreate "(string \<times> string) option"
  | TokensDelete string
  | TreeRoot string string string

text \<open>\<open>TreeRoot method pattern sid\<close> is a request to a tree route with the query \<open>space_id=sid\<close>.\<close>

fun endpoint_route :: "endpoint \<Rightarrow> string \<times> string" where
  "endpoint_route AuthConfig = (''GET'', ''/auth/config'')"
| "endpoint_route (Login _) = (''POST'', ''/auth/login'')"
| "endpoint_route (OidcStart _ _ _) = (''GET'', ''/auth/oidc'')"
| "endpoint_route (OidcCallback _ _ _) = (''GET'', ''/auth/oidc/callback'')"
| "endpoint_route (OidcExchange _) = (''POST'', ''/auth/oidc/exchange'')"
| "endpoint_route AuthMe = (''GET'', ''/auth/me'')"
| "endpoint_route Logout = (''POST'', ''/auth/logout'')"
| "endpoint_route (DeviceStart _) = (''POST'', ''/auth/device/start'')"
| "endpoint_route (DevicePoll _) = (''POST'', ''/auth/device/poll'')"
| "endpoint_route (DeviceInfo _) = (''GET'', ''/auth/device/info'')"
| "endpoint_route (DeviceApprove _) = (''POST'', ''/auth/device/approve'')"
| "endpoint_route (DeviceDeny _) = (''POST'', ''/auth/device/deny'')"
| "endpoint_route UsersList = (''GET'', ''/users'')"
| "endpoint_route (UserUpdate _ _) = (''PUT'', ''/users/{email}'')"
| "endpoint_route SpacesList = (''GET'', ''/spaces'')"
| "endpoint_route (SpacesCreate _) = (''POST'', ''/spaces'')"
| "endpoint_route (SpacesUpdate _ _) = (''PUT'', ''/spaces/{id}'')"
| "endpoint_route (SpacesDelete _) = (''DELETE'', ''/spaces/{id}'')"
| "endpoint_route (SpacesMembers _) = (''GET'', ''/spaces/{id}/members'')"
| "endpoint_route (SpacesMemberAdd _ _) = (''POST'', ''/spaces/{id}/members'')"
| "endpoint_route (SpacesMemberUpdate _ _ _) = (''PUT'', ''/spaces/{id}/members/{email}'')"
| "endpoint_route (SpacesMemberRemove _ _) = (''DELETE'', ''/spaces/{id}/members/{email}'')"
| "endpoint_route (SpacesLeave _) = (''POST'', ''/spaces/{id}/leave'')"
| "endpoint_route TokensList = (''GET'', ''/tokens'')"
| "endpoint_route (TokensCreate _) = (''POST'', ''/tokens'')"
| "endpoint_route (TokensDelete _) = (''DELETE'', ''/tokens/{name}'')"
| "endpoint_route (TreeRoot meth pattern _) = (meth, pattern)"

datatype reply =
  RNoContent | RCreated | ROk | RConfig auth_config | RToken string | RMe me
  | RTokens "TokenInfo list" | RTokenCreated token_created | RUsers "User list" | RUser User
  | RSpaces "SpaceResponse list" | RSpace SpaceResponse | RSpaceCreated SpaceResponse
  | RMembers "MemberResponse list" | RDeviceStarted device_started | RDevicePending
  | RDevice device_view | RMachine string | RFlow oidcFlow bool | RCallback callback_reply
  | RRoot string

definition answer :: "('a \<Rightarrow> reply) \<Rightarrow> 'a handler \<Rightarrow> reply handler" where
  "answer f m = io_bind m (\<lambda>x. io_return (f x))"

record provider =
  pr_ready :: bool
  pr_idp :: "string \<Rightarrow> (string \<times> string \<times> string) option"

fun handle :: "provider \<Rightarrow> request \<Rightarrow> endpoint \<Rightarrow> Identity \<Rightarrow> reply handler" where
  "handle p r AuthConfig ident = answer RConfig (io_get authConfig)"
| "handle p r (Login body) ident = answer RToken (login r body)"
| "handle p r (OidcStart flow port st) ident = answer (\<lambda>(f, b). RFlow f b) (oidcStart (pr_ready p) flow port st r)"
| "handle p r (OidcCallback cookie st code) ident =
     answer RCallback (oidcCallback (pr_ready p) (pr_idp p) cookie st code r)"
| "handle p r (OidcExchange body) ident = answer RToken (oidcExchange body)"
| "handle p r AuthMe ident = answer RMe (authMe ident)"
| "handle p r Logout ident = answer (\<lambda>_. RNoContent) (logout ident)"
| "handle p r (DeviceStart machine) ident = answer RDeviceStarted (deviceStart r machine)"
| "handle p r (DevicePoll body) ident =
     answer (\<lambda>t. case t of None \<Rightarrow> RDevicePending | Some t \<Rightarrow> RToken t) (devicePoll r body)"
| "handle p r (DeviceInfo code) ident = answer RDevice (deviceInfo code)"
| "handle p r (DeviceApprove body) ident = answer RMachine (deviceApprove body ident)"
| "handle p r (DeviceDeny body) ident = answer (\<lambda>_. RNoContent) (deviceDeny body)"
| "handle p r UsersList ident = answer RUsers (usersList ident)"
| "handle p r (UserUpdate raw body) ident = answer RUser (userUpdate (pathParam raw) body)"
| "handle p r SpacesList ident = answer RSpaces (spacesList ident)"
| "handle p r (SpacesCreate body) ident = answer RSpaceCreated (spacesCreate body ident)"
| "handle p r (SpacesUpdate sid body) ident = answer RSpace (spacesUpdate sid body ident)"
| "handle p r (SpacesDelete sid) ident = answer (\<lambda>_. RNoContent) (spacesDelete sid ident)"
| "handle p r (SpacesMembers sid) ident = answer RMembers (spacesMembers sid ident)"
| "handle p r (SpacesMemberAdd sid body) ident = answer (\<lambda>_. RCreated) (spacesMemberAdd sid body ident)"
| "handle p r (SpacesMemberUpdate sid raw body) ident =
     answer (\<lambda>_. ROk) (spacesMemberUpdate sid raw body ident)"
| "handle p r (SpacesMemberRemove sid raw) ident =
     answer (\<lambda>_. RNoContent) (spacesMemberRemove sid raw ident)"
| "handle p r (SpacesLeave sid) ident = answer (\<lambda>_. RNoContent) (spacesLeave sid ident)"
| "handle p r TokensList ident = answer RTokens tokensList"
| "handle p r (TokensCreate body) ident = answer RTokenCreated (tokensCreate body ident)"
| "handle p r (TokensDelete raw) ident = answer (\<lambda>_. RNoContent) (tokensDelete (pathParam raw))"
| "handle p r (TreeRoot _ _ sid) ident = answer RRoot (scopeRoot sid ident)"

definition serve :: "provider \<Rightarrow> request \<Rightarrow> endpoint \<Rightarrow> reply handler" where
  "serve p r e s =
     (case lookup (route_table (s_SSOOnly s)) (endpoint_route e) of
        None \<Rightarrow> (Inl (NotFound ''no such endpoint''), s)
      | Some PublicRoute \<Rightarrow> handle p r e no_identity s
      | Some SessionRoute \<Rightarrow> auth False (handle p r e) r s
      | Some AdminRoute \<Rightarrow> auth True (handle p r e) r s)"

text \<open>The routes anyone may call.\<close>

definition public_routes :: "(string \<times> string) list" where
  "public_routes =
     [(''GET'', ''/auth/config''), (''POST'', ''/auth/login''), (''GET'', ''/auth/oidc''),
      (''GET'', ''/auth/oidc/callback''), (''POST'', ''/auth/oidc/exchange''),
      (''POST'', ''/auth/device/start''), (''POST'', ''/auth/device/poll'')]"

lemmas mount_defs = route_table_def mountAuthRoutes_def mountInsightRoutes_def mountContentRoutes_def
  mountAccountRoutes_def mountSyncRoutes_def

lemma public_table: "((m, PublicRoute) \<in> set (route_table b)) \<Longrightarrow> m \<in> set public_routes"
  by (cases b) (auto simp: mount_defs public_routes_def)

lemma lookup_public:
  "lookup (route_table b) m = Some PublicRoute \<Longrightarrow> m \<in> set public_routes"
  by (rule public_table) (rule map_of_SomeD)

end
