(* ===== verification/ServerDemo.thy ===== *)
theory ServerDemo
  imports ServerRoutes
begin

text \<open>
  A small server the properties are exercised on: a password is set, \<open>ann@x\<close> is signed in and owns
  the space \<open>s1\<close>, \<open>bob@x\<close> is the admin.
\<close>

definition demo_token :: TokenInfo where
  "demo_token = blank_token\<lparr>ti_Hash := hashToken ''tok'', ti_Name := ''session:ann@x'',
     ti_Scope := scopeUser, ti_UserEmail := ''ann@x''\<rparr>"

definition demo_users :: "(string, User) gomap" where
  "demo_users =
     [(''ann@x'', \<lparr>u_Email = ''ann@x'', u_Name = ''Ann'', u_Admin = False, u_CreatedAt = []\<rparr>),
      (''bob@x'', \<lparr>u_Email = ''bob@x'', u_Name = ''Bob'', u_Admin = True, u_CreatedAt = []\<rparr>)]"

definition demo_space :: Space where
  "demo_space =
     \<lparr>sp_ID = ''s1'', sp_Name = ''Shared'', sp_Description = [],
      sp_Members = [(''ann@x'', roleOwner), (''bob@x'', roleMember)], sp_CreatedAt = [], sp_UpdatedAt = []\<rparr>"

definition demo_srv :: srv where
  "demo_srv =
     \<lparr>s_DataDir = ''/data'', s_Password = ''pw'', s_SSOOnly = False, s_OIDC = None,
      s_JournalBrowserURL = [], s_JournalBrowserKey = [],
      s_tokens = [(hashToken ''tok'', demo_token)], s_devices = newDeviceStore, s_loginCodes = [],
      s_logins = newRateLimiter loginMaxAttempts loginWindow,
      s_devStarts = newRateLimiter 20 minute, s_devPolls = newRateLimiter 120 minute,
      tokens_file = Absent, users_file = Stored demo_users, spaces_file = Stored [(''s1'', demo_space)],
      s_dirs = [], s_now = 0, s_entropy = [Some []], s_writes = []\<rparr>"

definition demo_request :: "string \<Rightarrow> request" where
  "demo_request authorization =
     \<lparr>rq_Authorization = authorization, rq_ForwardedFor = [], rq_RemoteAddr = ''10.0.0.1:5000'',
      rq_TLS = False, rq_ForwardedProto = [], rq_Host = ''host''\<rparr>"

definition demo_provider :: provider where
  "demo_provider = \<lparr>pr_ready = True, pr_idp = (\<lambda>code. if code = ''c'' then Some (''eve@x'', [], ''eve'') else None)\<rparr>"

lemmas demo_defs = demo_token_def demo_users_def demo_space_def demo_srv_def demo_request_def demo_provider_def

lemma demo_guards [simp]:
  "lookup (route_table False) (''DELETE'', ''/tokens/{name}'') = Some AdminRoute"
  "lookup (route_table False) (''GET'', ''/sync/tree'') = Some SessionRoute"
  "lookup (route_table False) (''POST'', ''/auth/login'') = Some PublicRoute"
  "lookup (route_table False) (''GET'', ''/settings'') = Some AdminRoute"
  "lookup (route_table False) (''DELETE'', ''/spaces/{id}/members/{email}'') = Some SessionRoute"
  "lookup (route_table False) (''GET'', ''/auth/oidc/callback'') = Some PublicRoute"
  by code_simp+

lemma demo_bearer [simp]: "cut_prefix (rq_Authorization (demo_request (''Bearer '' @ t))) ''Bearer '' = Some t"
  by (simp add: demo_request_def cut_prefix_def)

lemma demo_bearer_tok [simp]: "cut_prefix ''Bearer tok'' ''Bearer '' = Some ''tok''"
  by code_simp

lemma demo_auth [simp]: "auth_required demo_srv"
  by (simp add: auth_required_def demo_srv_def)

lemma demo_fields [simp]:
  "s_SSOOnly demo_srv = False" "s_DataDir demo_srv = ''/data''" "s_now demo_srv = 0"
  "s_writes demo_srv = []" "tokens_file demo_srv = Absent"
  "lookup (s_tokens demo_srv) (hashToken ''tok'') = Some demo_token"
  "loadUsers demo_srv = demo_users" "loadSpaces demo_srv = [(''s1'', demo_space)]"
  by (simp_all add: demo_srv_def loadUsers_def loadSpaces_def stored_or_empty_def)

lemma demo_token_fields [simp]:
  "ti_UserEmail demo_token = ''ann@x''" "ti_Scope demo_token = scopeUser" "ti_ExpiresAt demo_token = []"
  "ti_LastSeen demo_token = []"
  by (simp_all add: demo_token_def blank_token_def)

end
