(* ===== verification/DeviceFacts.thy ===== *)
theory DeviceFacts
  imports ServerDemo
begin

text \<open>
  The device login as a state machine: \<open>device_step\<close> is one operation of the store at some time,
  \<open>device_run\<close> a sequence of them in any order, at any times and by any callers. The events are the
  operations that had an effect.
\<close>

datatype dev_event = Created string string | Approved string string | Delivered string string

inductive device_step :: "deviceStore \<Rightarrow> instant \<Rightarrow> dev_event option \<Rightarrow> deviceStore \<Rightarrow> bool" where
  create: "device_create dc uc machine ip t d = (Some req, d') \<Longrightarrow> device_step d t (Some (Created dc uc)) d'"
| full: "device_create dc uc machine ip t d = (None, d') \<Longrightarrow> device_step d t None d'"
| info: "device_info uc t d = (x, d') \<Longrightarrow> device_step d t None d'"
| approve: "device_approve uc token t d = (Some machine, d') \<Longrightarrow> device_step d t (Some (Approved uc token)) d'"
| approve_none: "device_approve uc token t d = (None, d') \<Longrightarrow> device_step d t None d'"
| deny: "device_deny uc t d = (b, d') \<Longrightarrow> device_step d t None d'"
| deliver: "device_poll dc t d = (Some (deviceApproved, token), d') \<Longrightarrow>
    device_step d t (Some (Delivered dc token)) d'"
| wait: "device_poll dc t d = (x, d') \<Longrightarrow> (\<forall>token. x \<noteq> Some (deviceApproved, token)) \<Longrightarrow>
    device_step d t None d'"

type_synonym dev_history = "(instant \<times> dev_event option) list"

inductive device_run :: "deviceStore \<Rightarrow> dev_history \<Rightarrow> deviceStore \<Rightarrow> bool" where
  stop: "device_run d [] d"
| step: "device_run d h d1 \<Longrightarrow> device_step d1 t e d2 \<Longrightarrow> device_run d (h @ [(t, e)]) d2"

inductive_cases device_stepE: "device_step d t e d'"

subsection \<open>The store under its operations\<close>

lemma lookup_filter_keys: "lookup (filter (\<lambda>(k, _). P k) m) k = (if P k then lookup m k else None)"
  by (induction m) auto

lemma distinct_filter_keys: "distinct (map fst m) \<Longrightarrow> distinct (map fst (filter P m))"
  by (induction m) (auto dest: image_eqI)

lemma sweep_heap [simp]: "ds_heap (device_sweep t d) = ds_heap d" "device_at (device_sweep t d) r = device_at d r"
  by (simp_all add: device_sweep_def Let_def device_at_def)

lemma sweep_lookup:
  "lookup (byDevice (device_sweep t d)) dc = Some r \<Longrightarrow> lookup (byDevice d) dc = Some r"
  "lookup (byUser (device_sweep t d)) u = Some r \<Longrightarrow> lookup (byUser d) u = Some r"
  by (auto simp: device_sweep_def Let_def lookup_filter_keys split: if_splits)

lemma sweep_live: "lookup (byDevice (device_sweep t d)) dc = Some r \<Longrightarrow> \<not> dr_Expires (device_at d r) < t"
  by (force simp: device_sweep_def dead_devices_def Let_def lookup_filter_keys split: if_splits dest: map_of_SomeD)

lemma sweep_keeps:
  assumes "distinct (map fst (byDevice d))" "lookup (byDevice d) dc = Some r" "\<not> dr_Expires (device_at d r) < t"
  shows "lookup (byDevice (device_sweep t d)) dc = Some r"
proof -
  have "dc \<notin> set (map fst (dead_devices t d))"
  proof
    assume "dc \<in> set (map fst (dead_devices t d))"
    then obtain b where "(dc, b) \<in> set (byDevice d)" "dr_Expires (device_at d b) < t"
      by (auto simp: dead_devices_def)
    then show False using assms by (metis map_of_is_SomeI option.inject)
  qed
  then show ?thesis using assms(2) by (simp add: device_sweep_def Let_def lookup_filter_keys)
qed

lemma sweep_gone_user:
  assumes "lookup (byDevice d) dc = Some r" "lookup (byDevice (device_sweep t d)) dc \<noteq> Some r"
    "distinct (map fst (byDevice d))"
  shows "lookup (byUser (device_sweep t d)) (normalizeUserCode (dr_UserCode (device_at d r))) = None"
proof -
  have "dr_Expires (device_at d r) < t" using assms sweep_keeps by blast
  then have "(dc, r) \<in> set (dead_devices t d)" using map_of_SomeD [OF assms(1)] by (simp add: dead_devices_def)
  then show ?thesis by (force simp: device_sweep_def Let_def lookup_filter_keys)
qed

subsection \<open>The invariant\<close>

text \<open>
  A request the store still knows was created, has not been delivered since, and if it is approved,
  was approved since with the token it holds.
\<close>

definition known_request :: "dev_history \<Rightarrow> string \<Rightarrow> deviceRequest \<Rightarrow> bool" where
  "known_request h dc req \<longleftrightarrow> dr_DeviceCode req = dc \<and>
     (\<exists>pre tc mid. h = pre @ (tc, Some (Created dc (dr_UserCode req))) # mid \<and>
        dr_Expires req = tc + deviceCodeTTL \<and> (\<forall>t token. (t, Some (Delivered dc token)) \<notin> set mid) \<and>
        (dr_Status req = deviceApproved \<longrightarrow>
           (\<exists>ta uc. (ta, Some (Approved uc (dr_Token req))) \<in> set mid \<and>
              normalizeUserCode uc = normalizeUserCode (dr_UserCode req))))"

definition store_inv :: "dev_history \<Rightarrow> deviceStore \<Rightarrow> bool" where
  "store_inv h d \<longleftrightarrow> distinct (map fst (byDevice d)) \<and>
     (\<forall>dc r. lookup (byDevice d) dc = Some r \<longrightarrow> r < length (ds_heap d) \<and> known_request h dc (device_at d r)) \<and>
     (\<forall>u r. lookup (byUser d) u = Some r \<longrightarrow>
        r < length (ds_heap d) \<and> normalizeUserCode (dr_UserCode (device_at d r)) = u)"

lemma known_request_snoc:
  assumes "known_request h dc req" and "\<And>token. e \<noteq> Some (Delivered dc token)"
  shows "known_request (h @ [(t, e)]) dc req"
proof -
  obtain pre tc mid where h: "h = pre @ (tc, Some (Created dc (dr_UserCode req))) # mid"
    and rest: "dr_DeviceCode req = dc" "dr_Expires req = tc + deviceCodeTTL"
      "\<forall>t token. (t, Some (Delivered dc token)) \<notin> set mid"
      "dr_Status req = deviceApproved \<longrightarrow> (\<exists>ta uc. (ta, Some (Approved uc (dr_Token req))) \<in> set mid \<and>
         normalizeUserCode uc = normalizeUserCode (dr_UserCode req))"
    using assms(1) unfolding known_request_def by blast
  have "h @ [(t, e)] = pre @ (tc, Some (Created dc (dr_UserCode req))) # (mid @ [(t, e)])" using h by simp
  moreover have "\<forall>t' token. (t', Some (Delivered dc token)) \<notin> set (mid @ [(t, e)])"
    using rest(3) assms(2) by auto
  ultimately show ?thesis unfolding known_request_def using rest
    by (intro conjI exI [of _ pre] exI [of _ tc] exI [of _ "mid @ [(t, e)]"]) auto
qed

lemma store_inv_sweep: "store_inv h d \<Longrightarrow> store_inv h (device_sweep t d)"
  unfolding store_inv_def
  by (auto dest!: sweep_lookup) (simp add: device_sweep_def Let_def distinct_filter_keys)

lemma store_inv_quiet: "store_inv h d \<Longrightarrow> store_inv (h @ [(t, None)]) d"
  unfolding store_inv_def by (auto intro: known_request_snoc)

lemma store_inv_create:
  assumes "store_inv h d" and "device_create dc uc machine ip t d = (Some req, d')"
  shows "store_inv (h @ [(t, Some (Created dc uc))]) d'"
proof -
  define s where "s = device_sweep t d"
  define q where "q = \<lparr>dr_DeviceCode = dc, dr_UserCode = uc, dr_Machine = machine, dr_IP = ip,
    dr_Status = devicePending, dr_Token = [], dr_Expires = t + deviceCodeTTL\<rparr>"
  have inv: "store_inv h s" unfolding s_def by (rule store_inv_sweep) (rule assms(1))
  have d': "d' = s\<lparr>ds_heap := ds_heap s @ [q], byDevice := AList.update dc (length (ds_heap s)) (byDevice s),
      byUser := AList.update (normalizeUserCode uc) (length (ds_heap s)) (byUser s)\<rparr>"
    using assms(2) by (auto simp: device_create_def Let_def s_def q_def split: if_splits)
  have new: "known_request (h @ [(t, Some (Created dc uc))]) dc q"
    unfolding known_request_def q_def
    by (intro conjI exI [of _ h] exI [of _ t] exI [of _ "[]"]) simp_all
  have old: "device_at d' r = device_at s r" if "r < length (ds_heap s)" for r
    using that by (simp add: d' device_at_def nth_append)
  have at: "device_at d' (length (ds_heap s)) = q" by (simp add: d' device_at_def)
  show ?thesis
    unfolding store_inv_def
  proof (intro conjI allI impI)
    show "distinct (map fst (byDevice d'))" using inv by (simp add: d' store_inv_def distinct_update)
  next
    fix k r assume l: "lookup (byDevice d') k = Some r"
    show "r < length (ds_heap d')" using l inv by (auto simp: d' store_inv_def split: if_splits intro: less_SucI)
    show "known_request (h @ [(t, Some (Created dc uc))]) k (device_at d' r)"
    proof (cases "k = dc")
      case True
      then show ?thesis using l new at by (simp add: d')
    next
      case False
      then have "lookup (byDevice s) k = Some r" using l by (simp add: d')
      then show ?thesis using inv old by (auto simp: store_inv_def intro: known_request_snoc)
    qed
  next
    fix u r assume l: "lookup (byUser d') u = Some r"
    show "r < length (ds_heap d')" using l inv by (auto simp: d' store_inv_def split: if_splits intro: less_SucI)
    show "normalizeUserCode (dr_UserCode (device_at d' r)) = u"
      using l inv old at by (auto simp: d' store_inv_def q_def split: if_splits)
  qed
qed

lemma store_inv_set:
  assumes inv: "store_inv h d" and r: "lookup (byUser d) u = Some r"
    and f: "dr_DeviceCode (f (device_at d r)) = dr_DeviceCode (device_at d r)"
      "dr_UserCode (f (device_at d r)) = dr_UserCode (device_at d r)"
    and known: "\<And>dc. known_request h dc (device_at d r) \<Longrightarrow> known_request h' dc (f (device_at d r))"
    and ext: "\<And>dc req. known_request h dc req \<Longrightarrow> known_request h' dc req"
  shows "store_inv h' (device_set r f d)"
proof -
  have rl: "r < length (ds_heap d)" using inv r by (auto simp: store_inv_def)
  have at: "device_at (device_set r f d) x = (if x = r then f (device_at d r) else device_at d x)" for x
    using rl by (simp add: device_set_def device_at_def)
  have maps: "byDevice (device_set r f d) = byDevice d" "byUser (device_set r f d) = byUser d"
    "length (ds_heap (device_set r f d)) = length (ds_heap d)"
    by (simp_all add: device_set_def)
  show ?thesis unfolding store_inv_def maps at using inv known ext f by (auto simp: store_inv_def)
qed

lemma known_request_status:
  "known_request h dc req \<Longrightarrow> st \<noteq> deviceApproved \<Longrightarrow> known_request h dc (req\<lparr>dr_Status := st\<rparr>)"
  unfolding known_request_def by auto

lemma known_request_approve:
  assumes "known_request h dc req" and "normalizeUserCode uc = normalizeUserCode (dr_UserCode req)"
  shows "known_request (h @ [(t, Some (Approved uc token))]) dc (req\<lparr>dr_Status := deviceApproved, dr_Token := token\<rparr>)"
proof -
  obtain pre tc mid where h: "h = pre @ (tc, Some (Created dc (dr_UserCode req))) # mid"
    and rest: "dr_DeviceCode req = dc" "dr_Expires req = tc + deviceCodeTTL"
      "\<forall>t token. (t, Some (Delivered dc token)) \<notin> set mid"
    using assms(1) unfolding known_request_def by blast
  show ?thesis unfolding known_request_def using h rest assms(2)
    by (intro conjI exI [of _ pre] exI [of _ tc] exI [of _ "mid @ [(t, Some (Approved uc token))]"]) auto
qed

lemma store_inv_deliver:
  assumes inv: "store_inv h d" and l: "lookup (byDevice d) dc = Some r"
  shows "store_inv (h @ [(t, Some (Delivered dc token))])
    (d\<lparr>byDevice := AList.delete (dr_DeviceCode (device_at d r)) (byDevice d),
       byUser := AList.delete (normalizeUserCode (dr_UserCode (device_at d r))) (byUser d)\<rparr>)"
proof -
  have dc: "dr_DeviceCode (device_at d r) = dc" using inv l by (auto simp: store_inv_def known_request_def)
  have dist: "distinct (map fst (AList.delete dc (byDevice d)))"
    using inv by (simp add: store_inv_def AList.delete_eq distinct_filter_keys)
  show ?thesis
    unfolding store_inv_def dc using inv dist
    by (auto simp: store_inv_def device_at_def split: if_splits intro: known_request_snoc)
qed

lemma device_step_inv:
  assumes "device_step d t e d'" and inv: "store_inv h d"
  shows "store_inv (h @ [(t, e)]) d'"
  using assms(1)
proof (cases rule: device_step.cases)
  case (create dc uc machine ip req)
  then show ?thesis using store_inv_create [OF inv] by auto
next
  case (full dc uc machine ip)
  then show ?thesis using inv
    by (auto simp: device_create_def Let_def split: if_splits intro: store_inv_quiet store_inv_sweep)
next
  case (info uc x)
  then show ?thesis using inv by (auto simp: device_info_def Let_def intro: store_inv_quiet store_inv_sweep)
next
  case (approve uc token machine)
  have s: "store_inv h (device_sweep t d)" by (rule store_inv_sweep [OF inv])
  obtain r where r: "lookup (byUser (device_sweep t d)) (normalizeUserCode uc) = Some r"
    and d': "d' = device_set r (\<lambda>q. q\<lparr>dr_Status := deviceApproved, dr_Token := token\<rparr>) (device_sweep t d)"
    using approve by (auto simp: device_approve_def Let_def split: option.splits if_splits)
  have u: "normalizeUserCode uc = normalizeUserCode (dr_UserCode (device_at d r))"
    using s r by (auto simp: store_inv_def)
  show ?thesis unfolding d' approve(1)
    by (rule store_inv_set [OF s r]) (auto intro: known_request_approve [OF _ u] known_request_snoc)
next
  case (approve_none uc token)
  then show ?thesis using inv
    by (auto simp: device_approve_def Let_def split: option.splits if_splits intro: store_inv_quiet store_inv_sweep)
next
  case (deny uc b)
  have s: "store_inv h (device_sweep t d)" by (rule store_inv_sweep [OF inv])
  have set: "store_inv (h @ [(t, None)]) (device_set r (\<lambda>q. q\<lparr>dr_Status := deviceDenied\<rparr>) (device_sweep t d))"
    if "lookup (byUser (device_sweep t d)) (normalizeUserCode uc) = Some r" for r
    by (rule store_inv_set [OF s that]) (auto intro: known_request_snoc known_request_status)
  show ?thesis using deny s set
    by (auto simp: device_deny_def Let_def split: option.splits if_splits intro: store_inv_quiet)
next
  case (deliver dc token)
  have s: "store_inv h (device_sweep t d)" by (rule store_inv_sweep [OF inv])
  then show ?thesis using deliver store_inv_deliver [OF s]
    by (auto simp: device_poll_def Let_def split: option.splits if_splits)
next
  case (wait dc x)
  then show ?thesis using inv
    by (auto simp: device_poll_def Let_def split: option.splits if_splits intro: store_inv_quiet store_inv_sweep)
qed

lemma store_inv_new: "store_inv [] newDeviceStore"
  by (simp add: store_inv_def newDeviceStore_def)

lemma device_run_inv: "device_run newDeviceStore h d \<Longrightarrow> store_inv h d"
  by (induction newDeviceStore h d rule: device_run.induct) (auto intro: device_step_inv store_inv_new)

text \<open>
  C10: A device gets a token only through a login it started, with the token an approval of its user
  code put there since, once per login, and not after the login expired; whatever other devices and
  admins do in between.
\<close>

theorem device_token_once:
  assumes "device_run newDeviceStore h d" and "device_poll dc t d = (Some (deviceApproved, token), d')"
  shows "\<exists>pre tc uc mid. h = pre @ (tc, Some (Created dc uc)) # mid \<and> t \<le> tc + deviceCodeTTL \<and>
    (\<forall>t' token'. (t', Some (Delivered dc token')) \<notin> set mid) \<and>
    (\<exists>ta uc'. (ta, Some (Approved uc' token)) \<in> set mid \<and> normalizeUserCode uc' = normalizeUserCode uc)"
proof -
  have inv: "store_inv h (device_sweep t d)" by (intro store_inv_sweep device_run_inv assms(1))
  obtain r where r: "lookup (byDevice (device_sweep t d)) dc = Some r"
    "dr_Status (device_at d r) = deviceApproved" "dr_Token (device_at d r) = token"
    using assms(2) by (auto simp: device_poll_def Let_def split: option.splits if_splits)
  have k: "known_request h dc (device_at d r)" using inv r by (auto simp: store_inv_def)
  have late: "t \<le> dr_Expires (device_at d r)" using sweep_live [OF r(1)] by simp
  obtain pre tc mid where p: "h = pre @ (tc, Some (Created dc (dr_UserCode (device_at d r)))) # mid"
    "dr_Expires (device_at d r) = tc + deviceCodeTTL" "\<forall>t token. (t, Some (Delivered dc token)) \<notin> set mid"
    "\<exists>ta uc. (ta, Some (Approved uc token)) \<in> set mid \<and>
       normalizeUserCode uc = normalizeUserCode (dr_UserCode (device_at d r))"
    using k r(2,3) unfolding known_request_def by metis
  have "t \<le> tc + deviceCodeTTL" using late p(2) by simp
  then show ?thesis using p(1,3,4) by blast
qed

text \<open>A login that is started and approved.\<close>

definition demo_started :: deviceStore where
  "demo_started = snd (device_create ''dev'' ''BC-DF'' ''box'' ''10.0.0.1'' 0 newDeviceStore)"

definition demo_approved :: deviceStore where
  "demo_approved = snd (device_approve ''bcdf'' ''secret'' 1 demo_started)"

definition demo_history :: dev_history where
  "demo_history = [(0, Some (Created ''dev'' ''BC-DF'')), (1, Some (Approved ''bcdf'' ''secret''))]"

lemma demo_created: "\<exists>req. device_create ''dev'' ''BC-DF'' ''box'' ''10.0.0.1'' 0 newDeviceStore = (Some req, demo_started)"
  unfolding demo_started_def by (simp add: device_create_def device_sweep_def newDeviceStore_def dead_devices_def
      Let_def maxPendingDevices_def)

lemma demo_approves: "device_approve ''bcdf'' ''secret'' 1 demo_started = (Some ''box'', demo_approved)"
  unfolding demo_approved_def by code_simp

lemma demo_polls: "fst (device_poll ''dev'' 2 demo_approved) = Some (deviceApproved, ''secret'')"
  by code_simp

lemma demo_started_run: "device_run newDeviceStore [(0, Some (Created ''dev'' ''BC-DF''))] demo_started"
proof -
  obtain req where "device_create ''dev'' ''BC-DF'' ''box'' ''10.0.0.1'' 0 newDeviceStore = (Some req, demo_started)"
    using demo_created by blast
  from device_run.step [OF device_run.stop device_step.create [OF this]] show ?thesis by simp
qed

lemma demo_run: "device_run newDeviceStore demo_history demo_approved"
  using device_run.step [OF demo_started_run device_step.approve [OF demo_approves]]
  by (simp add: demo_history_def)

theorem device_token_once_witness:
  "\<exists>pre tc mid. demo_history = pre @ (tc, Some (Created ''dev'' ''BC-DF'')) # mid \<and> 2 \<le> tc + deviceCodeTTL"
proof -
  obtain d' where poll: "device_poll ''dev'' 2 demo_approved = (Some (deviceApproved, ''secret''), d')"
    using demo_polls by (metis prod.collapse)
  from device_token_once [OF demo_run poll] obtain pre tc uc mid where
    h: "demo_history = pre @ (tc, Some (Created ''dev'' uc)) # mid" "2 \<le> tc + deviceCodeTTL" by blast
  then have "(tc, Some (Created ''dev'' uc)) \<in> set demo_history" by (metis in_set_conv_decomp)
  then have "uc = ''BC-DF''" by (auto simp: demo_history_def)
  then show ?thesis using h by blast
qed

subsection \<open>An approved device gets its token\<close>

definition created_codes :: "dev_history \<Rightarrow> string list" where
  "created_codes h = List.map_filter (\<lambda>(_, e). case e of Some (Created dc _) \<Rightarrow> Some dc | _ \<Rightarrow> None) h"

lemma created_codes_append [simp]: "created_codes (h @ h') = created_codes h @ created_codes h'"
  by (simp add: created_codes_def List.map_filter_def)

lemma created_codes_Cons:
  "created_codes ((t, e) # h) = (case e of Some (Created dc _) \<Rightarrow> dc # created_codes h | _ \<Rightarrow> created_codes h)"
  by (simp add: created_codes_def List.map_filter_def split: option.split dev_event.split)

lemma known_created: "known_request h dc req \<Longrightarrow> dc \<in> set (created_codes h)"
  unfolding known_request_def by (auto simp: created_codes_Cons)

text \<open>While no device code was drawn twice, a request found by its user code is found by its device code.\<close>

definition linked :: "deviceStore \<Rightarrow> bool" where
  "linked d \<longleftrightarrow> (\<forall>u r. lookup (byUser d) u = Some r \<longrightarrow> lookup (byDevice d) (dr_DeviceCode (device_at d r)) = Some r)"

lemma linked_sweep:
  assumes inv: "store_inv h d" and l: "linked d"
  shows "linked (device_sweep t d)"
  unfolding linked_def sweep_heap
proof (intro allI impI)
  fix u r assume u: "lookup (byUser (device_sweep t d)) u = Some r"
  then have ud: "lookup (byUser d) u = Some r" by (rule sweep_lookup)
  then have n: "normalizeUserCode (dr_UserCode (device_at d r)) = u" using inv by (auto simp: store_inv_def)
  have dev: "lookup (byDevice d) (dr_DeviceCode (device_at d r)) = Some r" using l ud by (simp add: linked_def)
  have dist: "distinct (map fst (byDevice d))" using inv by (simp add: store_inv_def)
  show "lookup (byDevice (device_sweep t d)) (dr_DeviceCode (device_at d r)) = Some r"
  proof (rule ccontr)
    assume "lookup (byDevice (device_sweep t d)) (dr_DeviceCode (device_at d r)) \<noteq> Some r"
    from sweep_gone_user [OF dev this dist] show False using u n by simp
  qed
qed

lemma linked_set:
  assumes "linked d" "lookup (byUser d) u = Some r" "store_inv h d"
    and "dr_DeviceCode (f (device_at d r)) = dr_DeviceCode (device_at d r)"
  shows "linked (device_set r f d)"
proof -
  have "r < length (ds_heap d)" using assms by (auto simp: store_inv_def)
  then have at: "dr_DeviceCode (device_at (device_set r f d) x) = dr_DeviceCode (device_at d x)" for x
    using assms(4) by (cases "x = r") (simp_all add: device_set_def device_at_def)
  show ?thesis using assms(1) unfolding linked_def at by (simp add: device_set_def)
qed

lemma linked_step:
  assumes "device_step d t e d'" and inv: "store_inv h d" and l: "linked d"
    and fresh: "\<And>dc uc. e = Some (Created dc uc) \<Longrightarrow> dc \<notin> set (created_codes h)"
  shows "linked d'"
proof -
  have s: "store_inv h (device_sweep t d)" by (rule store_inv_sweep [OF inv])
  have ls: "linked (device_sweep t d)" by (rule linked_sweep [OF inv l])
  note set = linked_set [OF ls _ s]
  from assms(1) show ?thesis
  proof (cases rule: device_step.cases)
    case (create dc uc machine ip req)
    have new: "lookup (byDevice (device_sweep t d)) dc = None"
    proof (rule ccontr)
      assume "lookup (byDevice (device_sweep t d)) dc \<noteq> None"
      then obtain a where "known_request h dc (device_at (device_sweep t d) a)"
        using s unfolding store_inv_def by blast
      then show False using known_created fresh [OF create(1)] by blast
    qed
    have len: "r < length (ds_heap d)" if "lookup (byUser (device_sweep t d)) u = Some r" for u r
      using s that by (auto simp: store_inv_def)
    show ?thesis using create(2) ls new
      by (auto simp: device_create_def Let_def linked_def device_at_def nth_append dest: len split: if_splits)
  next
    case (deliver dc token)
    then obtain r where r: "lookup (byDevice (device_sweep t d)) dc = Some r"
      "d' = (device_sweep t d)\<lparr>byDevice := AList.delete (dr_DeviceCode (device_at d r)) (byDevice (device_sweep t d)),
         byUser := AList.delete (normalizeUserCode (dr_UserCode (device_at d r))) (byUser (device_sweep t d))\<rparr>"
      by (auto simp: device_poll_def Let_def split: option.splits if_splits)
    have dc: "dr_DeviceCode (device_at d r) = dc" using s r(1) by (auto simp: store_inv_def known_request_def)
    have "dr_DeviceCode (device_at d a) \<noteq> dc"
      if "lookup (byUser (device_sweep t d)) u = Some a" "u \<noteq> normalizeUserCode (dr_UserCode (device_at d r))" for u a
    proof
      assume "dr_DeviceCode (device_at d a) = dc"
      then have "a = r" using ls that(1) r(1) by (auto simp: linked_def)
      then show False using s that by (auto simp: store_inv_def)
    qed
    then show ?thesis using ls unfolding r(2) linked_def dc by (auto simp: device_at_def split: if_splits)
  qed (use ls set in \<open>auto simp: device_create_def device_info_def device_approve_def device_deny_def
      device_poll_def Let_def split: option.splits if_splits\<close>)
qed

lemma linked_run:
  "device_run newDeviceStore h d \<Longrightarrow> distinct (created_codes h) \<Longrightarrow> linked d"
proof (induction newDeviceStore h d rule: device_run.induct)
  case stop
  then show ?case by (simp add: linked_def newDeviceStore_def)
next
  case (step h d1 t e d2)
  have "linked d1" using step by simp
  then show ?case
    by (rule linked_step [OF step(3) device_run_inv [OF step(1)]])
      (use step(4) in \<open>auto simp: created_codes_Cons\<close>)
qed

text \<open>The request of a device code is approved with a token.\<close>

definition holds_token :: "string \<Rightarrow> string \<Rightarrow> instant \<Rightarrow> deviceStore \<Rightarrow> bool" where
  "holds_token dc token expires d \<longleftrightarrow>
     (\<exists>r. lookup (byDevice d) dc = Some r \<and> r < length (ds_heap d) \<and>
        dr_Status (device_at d r) = deviceApproved \<and> dr_Token (device_at d r) = token \<and>
        dr_DeviceCode (device_at d r) = dc \<and> dr_Expires (device_at d r) = expires)"

lemma holds_sweep:
  "holds_token dc token x d \<Longrightarrow> store_inv h d \<Longrightarrow> t \<le> x \<Longrightarrow> holds_token dc token x (device_sweep t d)"
  using sweep_keeps [of d dc _ t] unfolding holds_token_def by (auto simp: store_inv_def)

lemma holds_poll:
  assumes "holds_token dc token x d" "store_inv h d" "t \<le> x"
  shows "fst (device_poll dc t d) = Some (deviceApproved, token)"
  using holds_sweep [OF assms] by (auto simp: holds_token_def device_poll_def Let_def)

lemma holds_set:
  assumes "holds_token dc token x d" "dr_Status (device_at d r) \<noteq> deviceApproved"
  shows "holds_token dc token x (device_set r f d)"
proof -
  obtain a where a: "lookup (byDevice d) dc = Some a" "a < length (ds_heap d)"
    "dr_Status (device_at d a) = deviceApproved" "dr_Token (device_at d a) = token"
    "dr_DeviceCode (device_at d a) = dc" "dr_Expires (device_at d a) = x"
    using assms(1) unfolding holds_token_def by blast
  have "r \<noteq> a" using a(3) assms(2) by auto
  then have "device_at (device_set r f d) a = device_at d a" by (simp add: device_set_def device_at_def)
  then show ?thesis unfolding holds_token_def using a by (auto simp: device_set_def)
qed

lemma holds_step:
  assumes "device_step d t e d'" and inv: "store_inv h d" and hold: "holds_token dc token x d" and "t \<le> x"
    and "\<And>uc. e \<noteq> Some (Created dc uc)" "\<And>tok. e \<noteq> Some (Delivered dc tok)"
  shows "holds_token dc token x d'"
proof -
  have hs: "holds_token dc token x (device_sweep t d)" by (rule holds_sweep [OF hold inv assms(4)])
  note set = holds_set [OF hs]
  from assms(1) show ?thesis
  proof (cases rule: device_step.cases)
    case (create dc' uc machine ip req)
    have "dc' \<noteq> dc" using assms(5) create(1) by blast
    with create show ?thesis using hs
      by (auto simp: device_create_def Let_def holds_token_def device_at_def nth_append split: if_splits)
  next
    case (deliver dc' tok)
    then obtain r where r: "lookup (byDevice (device_sweep t d)) dc' = Some r"
      "d' = (device_sweep t d)\<lparr>byDevice := AList.delete (dr_DeviceCode (device_at d r)) (byDevice (device_sweep t d)),
         byUser := AList.delete (normalizeUserCode (dr_UserCode (device_at d r))) (byUser (device_sweep t d))\<rparr>"
      by (auto simp: device_poll_def Let_def split: option.splits if_splits)
    have "dr_DeviceCode (device_at d r) = dc'"
      using store_inv_sweep [OF inv, of t] r(1) by (auto simp: store_inv_def known_request_def)
    moreover have "dc' \<noteq> dc" using assms(6) deliver(1) by blast
    ultimately show ?thesis using hs r(2) by (auto simp: holds_token_def device_at_def)
  qed (use hs set in \<open>auto simp: device_create_def device_info_def device_approve_def device_deny_def
      device_poll_def Let_def split: option.splits if_splits\<close>)
qed

lemma device_run_trans: "device_run d1 h2 d2 \<Longrightarrow> device_run d0 h1 d1 \<Longrightarrow> device_run d0 (h1 @ h2) d2"
proof (induction d1 h2 d2 rule: device_run.induct)
  case (step d h d1 t e d2)
  then show ?case using device_run.step by (metis append.assoc)
qed simp

lemma holds_run:
  assumes "device_run d1 h2 d2" and "device_run newDeviceStore h1 d1" and "holds_token dc token x d1"
    and "\<forall>(t, e)\<in>set h2. t \<le> x \<and> (\<forall>uc. e \<noteq> Some (Created dc uc)) \<and> (\<forall>tok. e \<noteq> Some (Delivered dc tok))"
  shows "holds_token dc token x d2"
  using assms
proof (induction d1 h2 d2 rule: device_run.induct)
  case (step d h d1 t e d2)
  have "holds_token dc token x d1" using step by simp
  moreover have "store_inv (h1 @ h) d1" using device_run_inv device_run_trans step by blast
  moreover have "t \<le> x" "\<And>uc. e \<noteq> Some (Created dc uc)" "\<And>tok. e \<noteq> Some (Delivered dc tok)"
    using step.prems by auto
  ultimately show ?case using holds_step step.hyps by blast
qed

text \<open>
  C11: Once an admin has approved a login, the device that started it gets the token at its next
  poll, whatever other logins were started, approved, denied or polled in between, as long as the
  login has not expired and device codes are never drawn twice.
\<close>

theorem approved_device_served:
  assumes before: "device_run newDeviceStore h1 d1" and ok: "device_approve uc token t d1 = (Some machine, d2)"
    and after: "device_run d2 h2 d3" and fresh: "distinct (created_codes (h1 @ h2))"
  shows "\<exists>dc tc uc'. (tc, Some (Created dc uc')) \<in> set h1 \<and> normalizeUserCode uc' = normalizeUserCode uc \<and>
    ((\<forall>tok t'. (t', Some (Delivered dc tok)) \<notin> set h2) \<and> (\<forall>(t', _)\<in>set h2. t' \<le> tc + deviceCodeTTL) \<and>
      now \<le> tc + deviceCodeTTL \<longrightarrow>
     fst (device_poll dc now d3) = Some (deviceApproved, token))"
proof -
  define s where "s = device_sweep t d1"
  have inv: "store_inv h1 s" unfolding s_def by (intro store_inv_sweep device_run_inv before)
  have l: "linked s" unfolding s_def
    by (rule linked_sweep [OF device_run_inv [OF before]]) (use linked_run [OF before] fresh in simp)
  obtain r where r: "lookup (byUser s) (normalizeUserCode uc) = Some r"
    "d2 = device_set r (\<lambda>q. q\<lparr>dr_Status := deviceApproved, dr_Token := token\<rparr>) s"
    using ok by (auto simp: device_approve_def Let_def s_def split: option.splits if_splits)
  define req where "req = device_at s r"
  define dc where "dc = dr_DeviceCode req"
  have rl: "r < length (ds_heap s)" and u: "normalizeUserCode (dr_UserCode req) = normalizeUserCode uc"
    using inv r(1) by (auto simp: store_inv_def req_def)
  have held: "lookup (byDevice s) dc = Some r" using l r(1) by (simp add: linked_def dc_def req_def)
  then have k: "known_request h1 dc req" using inv by (auto simp: store_inv_def req_def)
  then obtain tc where tc: "(tc, Some (Created dc (dr_UserCode req))) \<in> set h1" "dr_Expires req = tc + deviceCodeTTL"
    unfolding known_request_def by force
  have hold: "holds_token dc token (tc + deviceCodeTTL) d2"
    using held rl tc(2) by (auto simp: r(2) holds_token_def device_set_def device_at_def dc_def req_def)
  have run2: "device_run newDeviceStore (h1 @ [(t, Some (Approved uc token))]) d2"
    using device_run.step [OF before device_step.approve [OF ok]] .
  have no: "(t', Some (Created dc uc')) \<notin> set h2" for t' uc'
  proof
    assume "(t', Some (Created dc uc')) \<in> set h2"
    then have "dc \<in> set (created_codes h2)" by (force simp: created_codes_def in_set_map_filter)
    moreover have "dc \<in> set (created_codes h1)" by (rule known_created [OF k])
    ultimately show False using fresh by auto
  qed
  have "fst (device_poll dc now d3) = Some (deviceApproved, token)"
    if "\<forall>tok t'. (t', Some (Delivered dc tok)) \<notin> set h2" "\<forall>(t', _)\<in>set h2. t' \<le> tc + deviceCodeTTL"
      "now \<le> tc + deviceCodeTTL"
  proof -
    have "holds_token dc token (tc + deviceCodeTTL) d3"
      by (rule holds_run [OF after run2 hold]) (use that no in auto)
    then show ?thesis
      by (rule holds_poll [OF _ device_run_inv [OF device_run_trans [OF after run2]] that(3)])
  qed
  then show ?thesis using tc(1) u by blast
qed


theorem approved_device_served_witness:
  "fst (device_poll ''dev'' 2 demo_approved) = Some (deviceApproved, ''secret'')"
  using approved_device_served [OF demo_started_run demo_approves device_run.stop, of 2]
  by (auto simp: created_codes_def List.map_filter_def deviceCodeTTL_def)

end
