(* ===== verification/AccountFacts.thy ===== *)
theory AccountFacts
  imports ServerDemo GoTimeFacts
begin

text \<open>
  What the guards of the router let through. \<open>admits\<close> states it over the token table and the user
  records alone; a request it does not admit ends with an error and changes nothing but the token
  table, from which an expired token may go.
\<close>

subsection \<open>What authentication may change\<close>

definition no_tokens :: "srv \<Rightarrow> srv" where
  "no_tokens s = s\<lparr>s_tokens := [], tokens_file := Absent, s_writes := []\<rparr>"

lemma no_tokens_eqD:
  assumes "no_tokens s' = no_tokens s"
  shows "users_file s' = users_file s" "spaces_file s' = spaces_file s" "s_devices s' = s_devices s"
    "s_now s' = s_now s" "s_DataDir s' = s_DataDir s" "s_loginCodes s' = s_loginCodes s"
    "s_Password s' = s_Password s" "s_OIDC s' = s_OIDC s" "s_SSOOnly s' = s_SSOOnly s"
    "s_logins s' = s_logins s" "loadUsers s' = loadUsers s" "loadSpaces s' = loadSpaces s"
  using assms by (cases s; cases s'; simp add: no_tokens_def loadUsers_def loadSpaces_def)+

lemma no_tokens_simps [simp]:
  "no_tokens (s\<lparr>s_tokens := x\<rparr>) = no_tokens s" "no_tokens (saveTokens s) = no_tokens s"
  by (simp_all add: no_tokens_def saveTokens_def)

lemma saveTokens_fields [simp]:
  "s_tokens (saveTokens s) = s_tokens s" "s_now (saveTokens s) = s_now s"
  "loadUsers (saveTokens s) = loadUsers s" "users_file (saveTokens s) = users_file s"
  "s_entropy (saveTokens s) = s_entropy s" "s_OIDC (saveTokens s) = s_OIDC s"
  "s_Password (saveTokens s) = s_Password s" "s_SSOOnly (saveTokens s) = s_SSOOnly s"
  by (simp_all add: saveTokens_def loadUsers_def)

text \<open>The live token of a request.\<close>

definition caller :: "request \<Rightarrow> srv \<Rightarrow> TokenInfo option" where
  "caller r s =
     (case cut_prefix (rq_Authorization r) ''Bearer '' of
        None \<Rightarrow> None
      | Some token \<Rightarrow>
          (case lookup (s_tokens s) (hashToken token) of
             None \<Rightarrow> None
           | Some info \<Rightarrow> if expired (s_now s) info then None else Some info))"

definition admin_now :: "TokenInfo \<Rightarrow> srv \<Rightarrow> bool" where
  "admin_now info s \<longleftrightarrow>
     (if ti_UserEmail info = [] then ti_Scope info = scopeAdmin
      else case lookup (loadUsers s) (ti_UserEmail info) of None \<Rightarrow> False | Some u \<Rightarrow> u_Admin u)"

fun admits :: "guard \<Rightarrow> request \<Rightarrow> srv \<Rightarrow> bool" where
  "admits PublicRoute r s = True"
| "admits SessionRoute r s = (caller r s \<noteq> None)"
| "admits AdminRoute r s = (case caller r s of None \<Rightarrow> False | Some info \<Rightarrow> admin_now info s)"

lemma expired_seen [simp]: "expired t (info\<lparr>ti_LastSeen := x\<rparr>) = expired t info"
  by (simp add: expired_def)

lemma effectiveScope_seen [simp]: "effectiveScope (info\<lparr>ti_LastSeen := x\<rparr>) s = effectiveScope info s"
  by (simp add: effectiveScope_def split: option.splits)

lemma effectiveScope_users: "loadUsers s' = loadUsers s \<Longrightarrow> effectiveScope info s' = effectiveScope info s"
  by (simp add: effectiveScope_def)

lemma effectiveScope_admin: "effectiveScope info s = scopeAdmin \<longleftrightarrow> admin_now info s"
  by (auto simp: effectiveScope_def admin_now_def split: option.splits if_splits)

lemma touchToken_frame:
  "touchToken hash s = (x, s') \<Longrightarrow> no_tokens s' = no_tokens s \<and> dom (lookup (s_tokens s')) \<subseteq> dom (lookup (s_tokens s))"
  by (auto simp: touchToken_def Let_def split: option.splits if_splits)

lemma touchToken_Some:
  "touchToken hash s = (Some info', s') \<Longrightarrow>
   \<exists>info. lookup (s_tokens s) hash = Some info \<and> \<not> expired (s_now s) info \<and>
     info' = info\<lparr>ti_LastSeen := format_rfc3339 (s_now s)\<rparr>"
  by (auto simp: touchToken_def Let_def split: option.splits if_splits)

lemma touchToken_None:
  "touchToken hash s = (None, s') \<Longrightarrow>
   lookup (s_tokens s) hash = None \<or> (\<exists>info. lookup (s_tokens s) hash = Some info \<and> expired (s_now s) info)"
  by (auto simp: touchToken_def Let_def split: option.splits if_splits)

text \<open>A guarded request: either it is refused, or its handler runs for an admitted caller.\<close>

lemma authE:
  assumes run: "auth adminOnly f r s = (out, s')" and need: "auth_required s"
  obtains (refused) e where "out = Inl e" "e \<in> {Unauthorized ''unauthorized'', Forbidden ''forbidden''}"
      "no_tokens s' = no_tokens s" "dom (lookup (s_tokens s')) \<subseteq> dom (lookup (s_tokens s))"
      "\<not> admits (if adminOnly then AdminRoute else SessionRoute) r s"
    | (admitted) token info s1 where
      "cut_prefix (rq_Authorization r) ''Bearer '' = Some token" "caller r s = Some info"
      "lookup (s_tokens s) (hashToken token) = Some info" "\<not> expired (s_now s) info"
      "no_tokens s1 = no_tokens s" "adminOnly \<Longrightarrow> admin_now info s"
      "touchToken (hashToken token) s = (Some (info\<lparr>ti_LastSeen := format_rfc3339 (s_now s)\<rparr>), s1)"
      "f \<lparr>id_Email = ti_UserEmail info, id_Scope = effectiveScope info s, id_TokenHash = hashToken token\<rparr> s1
         = (out, s')"
proof (cases "cut_prefix (rq_Authorization r) ''Bearer ''")
  case None
  then show thesis using run need by (intro refused) (auto simp: auth_def caller_def)
next
  case (Some token)
  obtain x s1 where touch: "touchToken (hashToken token) s = (x, s1)" by fastforce
  note frame = touchToken_frame [OF touch]
  show thesis
  proof (cases x)
    case None
    then show thesis using run need touch Some frame touchToken_None [of "hashToken token" s s1]
      by (intro refused) (auto simp: auth_def caller_def)
  next
    case (Some info')
    then obtain info where info: "lookup (s_tokens s) (hashToken token) = Some info"
      "\<not> expired (s_now s) info" "info' = info\<lparr>ti_LastSeen := format_rfc3339 (s_now s)\<rparr>"
      using touchToken_Some touch by blast
    have call: "caller r s = Some info" using info \<open>cut_prefix _ _ = Some token\<close> by (simp add: caller_def)
    have users: "loadUsers s1 = loadUsers s" using frame no_tokens_eqD(11) by blast
    have scope: "effectiveScope info' s1 = effectiveScope info s"
      unfolding info(3) effectiveScope_seen by (rule effectiveScope_users) (rule users)
    have eq: "auth adminOnly f r s =
        (if adminOnly \<and> effectiveScope info s \<noteq> scopeAdmin then (Inl (Forbidden ''forbidden''), s1)
         else f \<lparr>id_Email = ti_UserEmail info, id_Scope = effectiveScope info s,
                 id_TokenHash = hashToken token\<rparr> s1)"
      using need touch \<open>x = Some info'\<close> \<open>cut_prefix _ _ = Some token\<close> scope info(3)
      by (simp add: auth_def Let_def)
    show thesis
    proof (cases "adminOnly \<and> effectiveScope info s \<noteq> scopeAdmin")
      case True
      then show thesis using run eq frame call
        by (intro refused) (auto simp: effectiveScope_admin)
    next
      case False
      then show thesis using run eq frame call info touch \<open>x = Some info'\<close> \<open>cut_prefix _ _ = Some token\<close>
        by (intro admitted) (auto simp: effectiveScope_admin)
    qed
  qed
qed


lemma demo_caller [simp]: "caller (demo_request ''Bearer tok'') demo_srv = Some demo_token"
  by (simp add: caller_def demo_request_def expired_def)

lemma demo_not_admin [simp]: "\<not> admin_now demo_token demo_srv"
  by (simp add: admin_now_def demo_users_def)


subsection \<open>Trees\<close>

text \<open>
  C8: A request gets the tree of a space only if the account behind its token is a member of that
  space at that moment, and the tree is the directory of that id below \<open>spaces\<close>; it gets the common
  tree only with a token of an admin, or a machine token that belongs to nobody or to an admin.
\<close>

theorem tree_access:
  assumes "auth_required s" and "fst (serve p r (TreeRoot meth pattern sid) s) = Inr (RRoot root)"
  shows "\<exists>info. caller r s = Some info \<and>
    (if sid = [] then root = s_DataDir s \<and>
       (admin_now info s \<or> ti_Scope info = scopeSync \<and> ti_UserEmail info = [])
     else root = s_DataDir s @ ''/spaces/'' @ sid \<and> set sid \<inter> {CHR ''/'', CHR 92, CHR ''.''} = {} \<and>
       (\<exists>space. lookup (loadSpaces s) sid = Some space \<and> ti_UserEmail info \<noteq> [] \<and>
          ti_UserEmail info \<in> dom (lookup (sp_Members space))))"
proof -
  obtain s' where run: "serve p r (TreeRoot meth pattern sid) s = (Inr (RRoot root), s')"
    using assms(2) by (metis prod.collapse)
  have h: "handle p r (TreeRoot meth pattern sid) = (\<lambda>ident. answer RRoot (scopeRoot sid ident))"
    by (rule ext) simp
  have anon: "fst (answer RRoot (scopeRoot sid no_identity) s) \<noteq> Inr x" for x
    by (simp add: answer_def io_bind_def scopeRoot_def commonAllowed_def no_identity_def spaceAccess_def
        scopeAdmin_def scopeSync_def split: option.split)
  have "\<exists>adminOnly. auth adminOnly (\<lambda>ident. answer RRoot (scopeRoot sid ident)) r s = (Inr (RRoot root), s')"
  proof (cases "lookup (route_table (s_SSOOnly s)) (meth, pattern)")
    case None
    then show ?thesis using run by (simp add: serve_def)
  next
    case (Some g)
    then show ?thesis
    proof (cases g)
      case PublicRoute
      then show ?thesis using Some run anon [of "RRoot root"] unfolding serve_def h by simp
    qed (use Some run in \<open>unfold serve_def h, auto\<close>)
  qed
  then obtain adminOnly where
    "auth adminOnly (\<lambda>ident. answer RRoot (scopeRoot sid ident)) r s = (Inr (RRoot root), s')" by blast
  from this assms(1) show ?thesis
  proof (cases rule: authE)
    case (admitted token info s1)
    note same = no_tokens_eqD [OF admitted(5)]
    have "scopeRoot sid \<lparr>id_Email = ti_UserEmail info, id_Scope = effectiveScope info s,
        id_TokenHash = hashToken token\<rparr> s1 = (Inr root, s')"
      using admitted(8) by (auto simp: answer_def io_bind_def io_return_def split: sum.splits prod.splits)
    then show ?thesis
      using admitted(2) same effectiveScope_admin [of info s]
      by (auto simp: scopeRoot_def commonAllowed_def spaceAccess_def spaceDir_def effectiveScope_def
          admin_now_def split: if_splits option.splits)
  qed auto
qed


lemma demo_tree:
  "fst (serve demo_provider (demo_request ''Bearer tok'') (TreeRoot ''GET'' ''/sync/tree'' ''s1'') demo_srv) =
   Inr (RRoot ''/data/spaces/s1'')"
  by (simp add: serve_def auth_def demo_request_def touchToken_def expired_def Let_def answer_def io_bind_def
      scopeRoot_def spaceAccess_def demo_space_def spaceDir_def io_return_def loadSpaces_def saveTokens_def
      demo_srv_def stored_or_empty_def auth_required_def)

theorem tree_access_witness:
  "\<exists>space. lookup (loadSpaces demo_srv) ''s1'' = Some space \<and> ''ann@x'' \<in> dom (lookup (sp_Members space))"
  using tree_access [OF demo_auth demo_tree] by auto

end
