(* ===== verification/ServerInvariant.thy ===== *)
theory ServerInvariant
  imports ServerRoutes
begin

text \<open>
  Invariants of the server's state, proved once for all routes. An invariant that survives the few
  primitive changes the handlers are made of survives every route but those that change spaces; one
  that also survives a change of the spaces survives them all. \<open>ok_scope\<close> is what the invariant asks
  of the scope a token or a login code carries.
\<close>

lemma io_keeps_status [io_keeps]:
  "io_keeps I a \<Longrightarrow> io_keeps I b \<Longrightarrow> io_keeps I c \<Longrightarrow>
   io_keeps I (case st of devicePending \<Rightarrow> a | deviceApproved \<Rightarrow> b | deviceDenied \<Rightarrow> c)"
  by (cases st) simp_all

lemma keeps_apply: "io_keeps I (f y) \<Longrightarrow> I w \<Longrightarrow> I (snd (f y w))"
  by (simp add: io_keeps_def)

fun changes_spaces :: "endpoint \<Rightarrow> bool" where
  "changes_spaces (SpacesCreate _) = True"
| "changes_spaces (SpacesUpdate _ _) = True"
| "changes_spaces (SpacesDelete _) = True"
| "changes_spaces (SpacesMemberAdd _ _) = True"
| "changes_spaces (SpacesMemberUpdate _ _ _) = True"
| "changes_spaces (SpacesMemberRemove _ _) = True"
| "changes_spaces (SpacesLeave _) = True"
| "changes_spaces _ = False"

lemma set_update_subset: "set (AList.update k v m) \<subseteq> insert (k, v) (set m)"
  by (induction m) auto

definition scopes_ok :: "(string \<Rightarrow> bool) \<Rightarrow> loginCodeStore \<Rightarrow> bool" where
  "scopes_ok ok l \<longleftrightarrow> (\<forall>e\<in>set l. ok (lc_Scope (snd e)))"

lemma scopes_ok_sweep: "scopes_ok ok l \<Longrightarrow> scopes_ok ok (codes_sweep t l)"
  by (auto simp: scopes_ok_def codes_sweep_def)

lemma scopes_ok_create: "scopes_ok ok l \<Longrightarrow> ok scope \<Longrightarrow> codes_create h email scope t l = (b, l') \<Longrightarrow> scopes_ok ok l'"
  using set_update_subset by (fastforce simp: scopes_ok_def codes_create_def codes_sweep_def Let_def split: if_splits)

lemma scopes_ok_consume:
  assumes "scopes_ok ok l" and "codes_consume h t l = (c, l')"
  shows "scopes_ok ok l'" "c = Some x \<Longrightarrow> ok (lc_Scope x)"
  using assms map_of_SomeD [of l h]
  by (auto simp: scopes_ok_def codes_consume_def codes_sweep_def AList.delete_eq Let_def split: option.splits if_splits)

locale server_invariant =
  fixes I :: "srv \<Rightarrow> bool" and ok_scope :: "string \<Rightarrow> bool"
  assumes fields: "I s \<Longrightarrow> I (s\<lparr>s_entropy := e\<rparr>)" "I s \<Longrightarrow> I (s\<lparr>s_devices := d\<rparr>)"
      "I s \<Longrightarrow> I (s\<lparr>s_logins := rl\<rparr>)" "I s \<Longrightarrow> I (s\<lparr>s_devStarts := rl\<rparr>)" "I s \<Longrightarrow> I (s\<lparr>s_devPolls := rl\<rparr>)"
    and users: "I s \<Longrightarrow> saveUsers u s = (b, s') \<Longrightarrow> I s'"
    and tokens_removed: "I s \<Longrightarrow> I (saveTokens (s\<lparr>s_tokens := filter P (s_tokens s)\<rparr>))"
    and token_added: "I s \<Longrightarrow> ti_Hash info = hash \<Longrightarrow> ok_scope (ti_Scope info) \<Longrightarrow>
      I (store_token hash info (s\<lparr>s_tokens := filter P (s_tokens s)\<rparr>))"
    and touched: "I s \<Longrightarrow> touchToken hash s = (x, s') \<Longrightarrow> I s'"
    and codes: "I s \<Longrightarrow> scopes_ok ok_scope (s_loginCodes s)"
    and codes_set: "I s \<Longrightarrow> scopes_ok ok_scope l \<Longrightarrow> I (s\<lparr>s_loginCodes := l\<rparr>)"
    and known_scopes: "ok_scope scopeAdmin" "ok_scope scopeSync" "ok_scope scopeUser"
begin

lemma keeps_rand_read [io_keeps]: "io_keeps I (rand_read n)"
  by (rule io_keepsI) (auto simp: rand_read_def intro: fields split: list.split option.split)

lemma keeps_generate [io_keeps]: "io_keeps I generateToken" "io_keeps I generateUserCode"
  unfolding generateToken_def generateUserCode_def by (intro io_keeps)+

lemma keeps_on_devices [io_keeps]: "io_keeps I (on_devices f)"
  by (rule io_keepsI) (auto simp: on_devices_def intro: fields split: prod.split)

lemma keeps_limits [io_keeps]:
  "io_keeps I (limit_login ip)" "io_keeps I (limit_starts ip)" "io_keeps I (limit_polls ip)"
  unfolding io_keeps_def
  by (auto simp: limit_login_def limit_starts_def limit_polls_def intro: fields split: prod.split)

lemma keeps_store:
  "ti_Hash info = hash \<Longrightarrow> ok_scope (ti_Scope info) \<Longrightarrow> I s \<Longrightarrow> I (store_token hash info s)"
  using token_added [of s info hash "\<lambda>_. True"] by simp

lemma keeps_mint [io_keeps]:
  "ok_scope scope \<Longrightarrow> io_keeps I (mintToken name scope email)"
  "ok_scope scope \<Longrightarrow> io_keeps I (mintNamedSession name email scope)"
  unfolding mintToken_def mintNamedSession_def without_name_def
  by (intro io_keeps_bind keeps_generate io_keepsI;
    simp add: io_bind_modify io_return_def token_added)+

lemma keeps_login [io_keeps]: "io_keeps I (login r b)"
  unfolding login_def mintLogin_def by (intro io_keeps known_scopes)

lemma keeps_tokens [io_keeps]:
  "io_keeps I (logout ident)" "io_keeps I (tokensDelete name)" "io_keeps I tokensList"
  unfolding logout_def tokensDelete_def tokensList_def without_name_def AList.delete_eq
  by (intro io_keeps io_keeps_modify tokens_removed; assumption)+

lemma keeps_tokensCreate [io_keeps]: "io_keeps I (tokensCreate body ident)"
  unfolding tokensCreate_def
  by (intro io_keeps io_keeps_modify) (simp_all add: keeps_store known_scopes)

lemma keeps_accounts [io_keeps]: "io_keeps I (usersList ident)" "io_keeps I (authMe ident)"
  "io_keeps I (scopeRoot sid ident)"
  unfolding usersList_def io_keeps_def
  by (auto simp: authMe_def scopeRoot_def io_then_require io_get_def io_fail_def split: option.split)

lemma keeps_userUpdate [io_keeps]: "io_keeps I (userUpdate email body)"
  unfolding userUpdate_def
  by (intro io_keeps; rule io_keepsI)
    (auto simp: Let_def users_store.change_def dest: users split: option.split prod.split)

lemma keeps_devices [io_keeps]:
  "io_keeps I (deviceStart r m)" "io_keeps I (devicePoll r b)" "io_keeps I (deviceInfo code)"
  "io_keeps I (deviceApprove b ident)" "io_keeps I (deviceDeny b)"
  unfolding deviceStart_def devicePoll_def deviceInfo_def deviceApprove_def deviceDeny_def
  by (intro io_keeps known_scopes)+

lemma keeps_issue: "ok_scope (lg_Scope g) \<Longrightarrow> io_keeps I (issueLoginCode g)"
  unfolding issueLoginCode_def
  by (intro io_keeps; rule io_keepsI)
    (auto simp: Let_def intro: codes_set scopes_ok_create codes split: prod.split)

lemma users_saved: "I s \<Longrightarrow> I (snd (saveUsers u s))"
  by (cases "saveUsers u s") (auto dest: users)

lemma identity_kept:
  assumes "I s" and "oidcIdentity idp code s = (x, s')"
  shows "I s'" and "x = Inr (Some (user, scope)) \<Longrightarrow> ok_scope scope"
  using assms users_saved [of s] known_scopes
  by (auto simp: oidcIdentity_def upsertUser_def Let_def split: option.splits if_splits prod.splits)

lemma keeps_identity:
  assumes "io_keeps I (f None)" and "\<And>user scope. ok_scope scope \<Longrightarrow> io_keeps I (f (Some (user, scope)))"
  shows "io_keeps I (io_bind (oidcIdentity idp code) f)"
proof (rule io_keepsI)
  fix s assume i: "I s"
  obtain x s1 where run: "oidcIdentity idp code s = (x, s1)" by fastforce
  note kept = identity_kept [OF i run]
  show "I (snd (io_bind (oidcIdentity idp code) f s))"
  proof (cases x)
    case (Inr j)
    have "io_keeps I (f j)" using assms kept(2) Inr by (cases j) auto
    then show ?thesis using run Inr kept(1) by (simp add: io_bind_def io_keeps_def)
  qed (use run kept(1) in \<open>simp add: io_bind_def\<close>)
qed

lemma keeps_oidc [io_keeps]:
  "io_keeps I (oidcStart ready flow port st r)" "io_keeps I (pendingOIDCFlow cookie st')"
  unfolding oidcStart_def pendingOIDCFlow_def Let_def
  by (intro io_keeps) (auto split: oidc_cookie.split intro: io_keeps)

lemma keeps_oidcCallback [io_keeps]: "io_keeps I (oidcCallback ready idp cookie st code r)"
  unfolding oidcCallback_def mintSessionToken_def
  by (rule keeps_identity io_keeps_bind io_keeps_then io_keeps_get io_keeps_require keeps_oidc)+
    (simp_all add: io_keeps_return io_keeps_bind keeps_mint io_keeps_get keeps_issue)

lemma keeps_oidcExchange [io_keeps]: "io_keeps I (oidcExchange body)"
proof -
  have k: "io_keeps I (io_bind (\<lambda>s. let (c, l) = codes_consume (hashToken code) (s_now s) (s_loginCodes s)
          in (Inr c, s\<lparr>s_loginCodes := l\<rparr>)) (\<lambda>c. case c of
             None \<Rightarrow> io_fail (Unauthorized ''invalid or expired code'')
           | Some c \<Rightarrow> mintNamedSession (''cli:'' @ lc_Email c) (lc_Email c) (lc_Scope c)))" for code
  proof (rule io_keepsI)
    fix s assume i: "I s"
    obtain c l where consume: "codes_consume (hashToken code) (s_now s) (s_loginCodes s) = (c, l)" by fastforce
    note ok = scopes_ok_consume [OF codes [OF i] consume]
    have "I (s\<lparr>s_loginCodes := l\<rparr>)" by (rule codes_set [OF i ok(1)])
    then show "I (snd (io_bind (\<lambda>s. let (c, l) = codes_consume (hashToken code) (s_now s) (s_loginCodes s)
          in (Inr c, s\<lparr>s_loginCodes := l\<rparr>)) (\<lambda>c. case c of
             None \<Rightarrow> io_fail (Unauthorized ''invalid or expired code'')
           | Some c \<Rightarrow> mintNamedSession (''cli:'' @ lc_Email c) (lc_Email c) (lc_Scope c)) s))"
      using keeps_mint(2) ok(2) unfolding io_keeps_def
      by (cases c) (auto simp: io_bind_def consume io_fail_def)
  qed
  show ?thesis unfolding oidcExchange_def by (rule k io_keeps)+
qed

lemma keeps_access [io_keeps]: "io_keeps I (access_or_404 ident sid)" "io_keeps I (decodeMemberGrant b role)"
  unfolding access_or_404_def requireSession_def decodeMemberGrant_def by (intro io_keeps)+

lemma keeps_space_reads [io_keeps]:
  "io_keeps I (spacesList ident)" "io_keeps I (spacesMembers sid ident)"
  unfolding spacesList_def spacesMembers_def by (intro io_keeps)+

lemma keeps_handle: "\<not> changes_spaces e \<Longrightarrow> io_keeps I (handle p r e ident)"
  by (cases e) (simp_all only: handle.simps answer_def changes_spaces.simps not_True_eq_False, (intro io_keeps)+)

lemma keeps_auth: "(\<And>ident. io_keeps I (f ident)) \<Longrightarrow> io_keeps I (auth b f r)"
  unfolding io_keeps_def auth_def Let_def
  by (auto split: option.split prod.split dest: touched)

lemma keeps_serve:
  "\<not> changes_spaces e \<Longrightarrow> io_keeps I (serve p r e)"
  using keeps_handle [of e p r] keeps_auth [of "handle p r e" _ r] unfolding io_keeps_def
  by (simp add: serve_def split: option.split guard.split)

end

locale server_invariant_spaces = server_invariant +
  assumes spaces: "I s \<Longrightarrow> saveSpaces x s = (b, s') \<Longrightarrow> I s'"
    and dirs: "I s \<Longrightarrow> I (s\<lparr>s_dirs := y\<rparr>)"
begin

lemma spaces_changed: "I s \<Longrightarrow> spaces_store.change f s = (b, s') \<Longrightarrow> I s'"
  by (auto simp: spaces_store.change_def dest: spaces)

lemma trashed: "I s \<Longrightarrow> I (trash_space sid s)"
  by (simp add: trash_space_def Let_def dirs)

lemma keeps_commit [io_keeps]: "io_keeps I (commit_space sid f)"
  by (rule io_keepsI) (auto simp: commit_space_def dest: spaces_changed split: prod.split)

lemma keeps_remove [io_keeps]: "io_keeps I (removeMember sid email)"
  using keeps_commit unfolding io_keeps_def removeMember_def Let_def by (auto split: option.split)

lemma keeps_spacesCreate [io_keeps]: "io_keeps I (spacesCreate body ident)"
  unfolding spacesCreate_def requireSession_def newSpaceID_def
  by (intro io_keeps; rule io_keepsI) (auto simp: Let_def dest: spaces_changed intro: dirs split: prod.split)

lemma keeps_spacesUpdate [io_keeps]: "io_keeps I (spacesUpdate sid body ident)"
  unfolding spacesUpdate_def Let_def
  by (intro io_keeps; rule io_keepsI)
    (rule keeps_apply [of _ "\<lambda>s. io_then (commit_space _ (_ s)) (io_return (_ s))"],
     intro io_keeps, assumption)

lemma keeps_spacesDelete [io_keeps]: "io_keeps I (spacesDelete sid ident)"
  unfolding spacesDelete_def
  by (intro io_keeps; rule io_keepsI) (auto dest: spaces_changed intro: trashed split: prod.split)

lemma keeps_members [io_keeps]:
  "io_keeps I (spacesMemberAdd sid body ident)" "io_keeps I (spacesMemberUpdate sid email body' ident)"
  unfolding spacesMemberAdd_def spacesMemberUpdate_def
  by (intro io_keeps; rule io_keepsI; auto intro: keeps_apply [OF keeps_commit] split: option.split)+

lemma keeps_removals [io_keeps]:
  "io_keeps I (spacesMemberRemove sid email ident)" "io_keeps I (spacesLeave sid ident)"
  unfolding spacesMemberRemove_def spacesLeave_def by (intro io_keeps)+

lemma keeps_every_handle: "io_keeps I (handle p r e ident)"
proof (cases "changes_spaces e")
  case True
  then show ?thesis by (cases e) (simp_all only: handle.simps answer_def changes_spaces.simps, (intro io_keeps)+)
qed (rule keeps_handle)

lemma keeps_every_serve: "io_keeps I (serve p r e)"
  using keeps_every_handle [of p r e] keeps_auth [of "handle p r e" _ r] unfolding io_keeps_def
  by (simp add: serve_def split: option.split guard.split)

end

end
