(* ===== verification/SessionFacts.thy ===== *)
theory SessionFacts
  imports AccountFacts ServerInvariant
begin

text \<open>
  How long a token lives: a session authenticates up to its expiry and not after it, and a restart of
  the server keeps every token.
\<close>

subsection \<open>Lifetime\<close>

text \<open>One use of a token at time \<open>t\<close>, and a run of uses with whether each was accepted.\<close>

definition use_at :: "string \<Rightarrow> instant \<Rightarrow> srv \<Rightarrow> bool \<times> srv" where
  "use_at hash t s = (case touchToken hash (s\<lparr>s_now := t\<rparr>) of (x, s') \<Rightarrow> (x \<noteq> None, s'))"

fun uses :: "string \<Rightarrow> instant list \<Rightarrow> srv \<Rightarrow> bool list" where
  "uses hash [] s = []"
| "uses hash (t # ts) s = (let (good, s') = use_at hash t s in good # uses hash ts s')"

lemma uses_gone: "lookup (s_tokens s) hash = None \<Longrightarrow> uses hash ts s = map (\<lambda>_. False) ts"
  by (induction ts arbitrary: s) (auto simp: use_at_def touchToken_def)

lemma uses_known:
  assumes "lookup (s_tokens s) hash = Some info" and "sorted ts"
    and "\<And>t info'. ti_ExpiresAt info' = ti_ExpiresAt info \<Longrightarrow> expired t info' \<longleftrightarrow> d < t"
  shows "uses hash ts s = map (\<lambda>t. t \<le> d) ts"
  using assms
proof (induction ts arbitrary: s info)
  case (Cons t ts)
  have late: "expired t info \<longleftrightarrow> d < t" using Cons.prems(3) by blast
  show ?case
  proof (cases "d < t")
    case True
    then have "uses hash (t # ts) s = False # uses hash ts
        (saveTokens (s\<lparr>s_now := t, s_tokens := AList.delete hash (s_tokens s)\<rparr>))"
      using Cons.prems(1) late by (simp add: use_at_def touchToken_def)
    also have "\<dots> = False # map (\<lambda>_. False) ts" by (simp add: uses_gone)
    also have "\<dots> = map (\<lambda>t. t \<le> d) (t # ts)" using True Cons.prems(2) by auto
    finally show ?thesis .
  next
    case False
    obtain x s' where touch: "touchToken hash (s\<lparr>s_now := t\<rparr>) = (x, s')" by fastforce
    then have x: "x \<noteq> None" and l: "lookup (s_tokens s') hash = Some (info\<lparr>ti_LastSeen := format_rfc3339 t\<rparr>)"
      using Cons.prems(1) late False by (auto simp: touchToken_def Let_def split: if_splits)
    have "uses hash ts s' = map (\<lambda>t. t \<le> d) ts"
      by (rule Cons.IH [OF l]) (use Cons.prems in auto)
    then show ?thesis using False x touch by (simp add: use_at_def)
  qed
qed simp

lemma expired_session:
  "printable e \<Longrightarrow> ti_ExpiresAt info = format_rfc3339 e \<Longrightarrow> expired t info \<longleftrightarrow> e - e mod second < t"
  by (simp add: expired_def parse_format_rfc3339)

lemma mintNamedSession_Inr:
  assumes "mintNamedSession name email scope s = (Inr token, s')"
  shows "\<exists>info. lookup (s_tokens s') (hashToken token) = Some info \<and> ti_Name info = name \<and>
    ti_Scope info = scope \<and> ti_UserEmail info = email \<and> ti_ExpiresAt info = format_rfc3339 (s_now s + sessionTTL)"
  using assms
  by (auto simp: mintNamedSession_def io_eval store_token_def elim!: io_bindE dest!: generateToken_Inr)

text \<open>
  C14: A session minted at \<open>t\<close> is accepted by every request up to thirty days later, to the second, and
  by none after that, however often it was used before.
\<close>

theorem session_lifetime:
  assumes "mintNamedSession name email scope s = (Inr token, s')" and "sorted ts"
    and "printable (s_now s + sessionTTL)"
  shows "uses (hashToken token) ts s' =
    map (\<lambda>t. t \<le> (s_now s + sessionTTL) - (s_now s + sessionTTL) mod second) ts"
proof -
  from mintNamedSession_Inr [OF assms(1)] obtain info where
    info: "lookup (s_tokens s') (hashToken token) = Some info"
      "ti_ExpiresAt info = format_rfc3339 (s_now s + sessionTTL)"
    by blast
  show ?thesis
    by (rule uses_known [OF info(1) assms(2)]) (use info(2) expired_session [OF assms(3)] in auto)
qed

lemma demo_session:
  "\<exists>token s'. mintNamedSession ''session'' [] scopeAdmin demo_srv = (Inr token, s')"
  by (simp add: mintNamedSession_def generateToken_def rand_read_def io_eval io_bind_simp demo_srv_def
      split: prod.split)

theorem session_lifetime_witness:
  "\<exists>token s'. mintNamedSession ''session'' [] scopeAdmin demo_srv = (Inr token, s') \<and>
     uses (hashToken token) [5, sessionTTL, sessionTTL + 1] s' = [True, True, False]"
proof -
  obtain token s' where m: "mintNamedSession ''session'' [] scopeAdmin demo_srv = (Inr token, s')"
    using demo_session by blast
  have "printable sessionTTL" by code_simp
  then have "uses (hashToken token) [5, sessionTTL, sessionTTL + 1] s' = [True, True, False]"
    using session_lifetime [OF m, of "[5, sessionTTL, sessionTTL + 1]"] by (simp add: sessionTTL_def)
  then show ?thesis using m by blast
qed

subsection \<open>Restart\<close>

definition token_wf :: "string \<times> TokenInfo \<Rightarrow> bool" where
  "token_wf e \<longleftrightarrow> ti_Hash (snd e) = fst e \<and> ti_Scope (snd e) \<noteq> []"

definition unseen :: "TokenInfo \<Rightarrow> TokenInfo" where
  "unseen info = info\<lparr>ti_LastSeen := []\<rparr>"

definition same_tokens :: "(string, TokenInfo) gomap \<Rightarrow> (string, TokenInfo) gomap \<Rightarrow> bool" where
  "same_tokens m m' \<longleftrightarrow> (\<forall>k. map_option unseen (lookup m k) = map_option unseen (lookup m' k))"

text \<open>
  The file holds the table up to the times tokens were last seen, which are written once a minute at
  most. Every write goes through: the script of failures is empty.
\<close>

definition mirrored :: "srv \<Rightarrow> bool" where
  "mirrored s \<longleftrightarrow> s_writes s = [] \<and> list_all token_wf (s_tokens s) \<and>
     list_all token_wf (stored_or_empty (tokens_file s)) \<and>
     same_tokens (s_tokens s) (stored_or_empty (tokens_file s)) \<and>
     scopes_ok (\<lambda>scope. scope \<noteq> []) (s_loginCodes s)"

lemma list_all_update: "list_all P m \<Longrightarrow> P (k, v) \<Longrightarrow> list_all P (AList.update k v m)"
  using set_update_subset [of k v m] by (auto simp: list_all_iff)

lemma list_all_filter: "list_all P m \<Longrightarrow> list_all P (filter Q m)"
  by (auto simp: list_all_iff)

lemma list_all_delete: "list_all P m \<Longrightarrow> list_all P (AList.delete k m)"
  by (simp add: AList.delete_eq list_all_filter)

lemma same_tokens_refl [simp]: "same_tokens m m"
  by (simp add: same_tokens_def)

lemma same_tokens_update:
  "same_tokens m m' \<Longrightarrow> lookup m k = Some info \<Longrightarrow> unseen info' = unseen info \<Longrightarrow>
   same_tokens (AList.update k info' m) m'"
  by (auto simp: same_tokens_def dest: spec [of _ k])

lemma mirrored_save:
  "s_writes s = [] \<Longrightarrow> list_all token_wf (s_tokens s) \<Longrightarrow>
   scopes_ok (\<lambda>scope. scope \<noteq> []) (s_loginCodes s) \<Longrightarrow> mirrored (saveTokens s)"
  by (simp add: mirrored_def saveTokens_def next_write_def write_json_def stored_or_empty_def)

lemma touchToken_mirrored: "mirrored s \<Longrightarrow> touchToken hash s = (x, s') \<Longrightarrow> mirrored s'"
proof -
  assume m: "mirrored s" and touch: "touchToken hash s = (x, s')"
  show "mirrored s'"
  proof (cases "lookup (s_tokens s) hash")
    case None
    then show ?thesis using m touch by (simp add: touchToken_def)
  next
    case (Some info)
    have "token_wf (hash, info)" using Some m map_of_SomeD [OF Some]
      by (auto simp: mirrored_def list_all_iff)
    then have wf: "list_all token_wf (AList.update hash (info\<lparr>ti_LastSeen := format_rfc3339 (s_now s)\<rparr>) (s_tokens s))"
      using m by (intro list_all_update) (auto simp: mirrored_def token_wf_def)
    have same: "same_tokens (AList.update hash (info\<lparr>ti_LastSeen := format_rfc3339 (s_now s)\<rparr>) (s_tokens s))
        (stored_or_empty (tokens_file s))"
      using m Some by (intro same_tokens_update [of _ _ _ info]) (auto simp: mirrored_def unseen_def)
    have seen: "mirrored (s\<lparr>s_tokens := AList.update hash (info\<lparr>ti_LastSeen := format_rfc3339 (s_now s)\<rparr>) (s_tokens s)\<rparr>)"
      using m wf same by (simp add: mirrored_def)
    then have "mirrored (saveTokens (s\<lparr>s_tokens := AList.update hash (info\<lparr>ti_LastSeen := format_rfc3339 (s_now s)\<rparr>) (s_tokens s)\<rparr>))"
      by (intro mirrored_save) (auto simp: mirrored_def)
    moreover have "mirrored (saveTokens (s\<lparr>s_tokens := AList.delete hash (s_tokens s)\<rparr>))"
      using m by (intro mirrored_save) (auto simp: mirrored_def list_all_delete)
    ultimately show ?thesis using touch Some seen
      by (auto simp: touchToken_def Let_def split: if_splits)
  qed
qed

interpretation mirror: server_invariant_spaces mirrored "\<lambda>scope. scope \<noteq> []"
proof
  fix s assume m: "mirrored s"
  show "mirrored (saveTokens (s\<lparr>s_tokens := filter P (s_tokens s)\<rparr>))" for P
    using m by (intro mirrored_save) (auto simp: mirrored_def list_all_filter)
  show "mirrored (store_token hash info (s\<lparr>s_tokens := filter P (s_tokens s)\<rparr>))"
    if "ti_Hash info = hash" "ti_Scope info \<noteq> []" for hash info P
    unfolding store_token_def using m that
    by (intro mirrored_save) (auto simp: mirrored_def token_wf_def intro!: list_all_update list_all_filter)
  show "mirrored s'" if "touchToken hash s = (x, s')" for hash x s'
    by (rule touchToken_mirrored [OF m that])
qed (auto simp: mirrored_def saveUsers_def saveSpaces_def split: prod.splits)

text \<open>The life of a server process: requests at the times they arrive.\<close>

fun server_run :: "provider \<Rightarrow> (instant \<times> request \<times> endpoint) list \<Rightarrow> srv \<Rightarrow> srv" where
  "server_run p [] s = s"
| "server_run p ((t, r, e) # reqs) s = server_run p reqs (snd (serve p r e (s\<lparr>s_now := t\<rparr>)))"

lemma mirrored_now: "mirrored (s\<lparr>s_now := t\<rparr>) = mirrored s"
  by (simp add: mirrored_def)

lemma serve_mirrored: "mirrored s \<Longrightarrow> mirrored (snd (serve p r e s))"
  using mirror.keeps_every_serve by (simp add: io_keeps_def)

lemma server_run_mirrored: "mirrored s \<Longrightarrow> mirrored (server_run p reqs s)"
  by (induction p reqs s rule: server_run.induct) (simp_all add: serve_mirrored mirrored_now)

lemma New_mirrored: "s_writes s = [] \<Longrightarrow> tokens_file s = Absent \<Longrightarrow> mirrored (New d pw s)"
  by (simp add: New_def loadTokens_def mirrored_def stored_or_empty_def scopes_ok_def)

lemma migrate_wf: "list_all token_wf raw \<Longrightarrow> map migrate_token raw = raw"
  by (induction raw) (auto simp: migrate_token_def token_wf_def)

lemma New_tokens:
  assumes "mirrored s"
  shows "s_tokens (New d pw s) = stored_or_empty (tokens_file s)"
proof (cases "tokens_file s")
  case (Stored raw)
  then have wf: "list_all token_wf raw" using assms by (simp add: mirrored_def stored_or_empty_def)
  then have "\<not> (\<exists>e\<in>set raw. ti_Scope (snd e) = [])" by (auto simp: list_all_iff token_wf_def)
  then show ?thesis using Stored migrate_wf [OF wf] by (simp add: New_def loadTokens_def stored_or_empty_def Let_def)
qed (simp_all add: New_def loadTokens_def stored_or_empty_def)

lemma expired_unseen: "unseen a = unseen b \<Longrightarrow> expired t a = expired t b"
  by (metis expired_seen unseen_def)

lemma use_at_same:
  assumes "same_tokens (s_tokens s) (s_tokens s')"
  shows "fst (use_at hash t s) = fst (use_at hash t s')"
proof -
  have e: "map_option unseen (lookup (s_tokens s) hash) = map_option unseen (lookup (s_tokens s') hash)"
    using assms by (simp add: same_tokens_def)
  show ?thesis
  proof (cases "lookup (s_tokens s) hash")
    case None
    then show ?thesis using e by (simp add: use_at_def touchToken_def)
  next
    case (Some a)
    then obtain b where b: "lookup (s_tokens s') hash = Some b" "unseen a = unseen b"
      using e by (cases "lookup (s_tokens s') hash") auto
    show ?thesis using Some b(1) expired_unseen [OF b(2), of t]
      by (simp add: use_at_def touchToken_def Let_def split: prod.split)
  qed
qed




end
