(* ===== verification/LoginFacts.thy ===== *)
theory LoginFacts
  imports SessionFacts
begin

text \<open>
  Password logins and sign-on: the rate limiter is a sliding window, one-time codes are worth one
  session, and the inputs on which a login hands out more than it should.
\<close>

subsection \<open>The rate limiter\<close>

definition recent :: "duration \<Rightarrow> instant \<Rightarrow> instant list \<Rightarrow> instant list" where
  "recent w t ts = filter (\<lambda>x. t - w < x) ts"

text \<open>What the limiter remembers of a key agrees, from now on, with all that was admitted.\<close>

definition window_inv :: "string \<Rightarrow> instant \<Rightarrow> instant list \<Rightarrow> rateLimiter \<Rightarrow> bool" where
  "window_inv k now past rl \<longleftrightarrow>
     (\<forall>x\<in>set past. x \<le> now) \<and>
     (\<forall>t\<ge>now. recent (rl_window rl) t past = recent (rl_window rl) t (get_or [] (attempts rl) k)) \<and>
     (\<forall>t. length (filter (\<lambda>x. t - rl_window rl < x \<and> x \<le> t) past) \<le> rl_max rl)"

lemma recent_recent: "t \<le> u \<Longrightarrow> recent w u (recent w t xs) = recent w u xs"
  by (auto simp: recent_def intro!: filter_cong)

lemma recent_append [simp]: "recent w t (xs @ ys) = recent w t xs @ recent w t ys"
  by (simp add: recent_def)

lemma recent_length_mono: "t \<le> u \<Longrightarrow> length (recent w u xs) \<le> length (recent w t xs)"
  by (metis recent_recent length_filter_le recent_def)

lemma allow_eq:
  "allow k t rl = (let r = recent (rl_window rl) t (get_or [] (attempts rl) k) in
     if rl_max rl \<le> length r then (False, rl\<lparr>attempts := AList.update k r (attempts rl)\<rparr>)
     else (True, rl\<lparr>attempts := AList.update k (r @ [t]) (attempts rl)\<rparr>))"
  by (simp add: allow_def recent_def Let_def)

lemma allow_other: "k' \<noteq> k \<Longrightarrow> get_or [] (attempts (snd (allow k' t rl))) k = get_or [] (attempts rl) k"
  by (simp add: allow_def Let_def get_or_def)

lemma window_inv_other:
  "window_inv k now past rl \<Longrightarrow> now \<le> t \<Longrightarrow> k' \<noteq> k \<Longrightarrow> window_inv k t past (snd (allow k' t rl))"
  unfolding window_inv_def by (auto simp: allow_other)

lemma window_inv_allow:
  assumes inv: "window_inv k now past rl" and t: "now \<le> t" and run: "allow k t rl = (good, rl')"
  shows "good \<longleftrightarrow> length (recent (rl_window rl) t past) < rl_max rl"
    and "window_inv k t (past @ (if good then [t] else [])) rl'"
proof -
  let ?w = "rl_window rl"
  have r: "recent ?w t (get_or [] (attempts rl) k) = recent ?w t past" using inv t by (simp add: window_inv_def)
  have w: "rl_window rl' = ?w" "rl_max rl' = rl_max rl" using run allow_config by (metis snd_conv)+
  show g: "good \<longleftrightarrow> length (recent ?w t past) < rl_max rl"
    using run unfolding allow_eq r Let_def by (auto split: if_splits)
  have att: "get_or [] (attempts rl') k = recent ?w t past @ (if good then [t] else [])"
    using run unfolding allow_eq r Let_def by (auto simp: get_or_def split: if_splits)
  have bound: "length (filter (\<lambda>x. u - ?w < x \<and> x \<le> u) (past @ (if good then [t] else []))) \<le> rl_max rl" for u
  proof (cases "good \<and> u - ?w < t \<and> t \<le> u")
    case True
    have "length (filter (\<lambda>x. u - ?w < x \<and> x \<le> u) past) \<le> length (recent ?w u past)"
      using length_filter_le [of "\<lambda>x. x \<le> u" "recent ?w u past"] by (simp add: recent_def)
    also have "\<dots> \<le> length (recent ?w t past)" using True by (intro recent_length_mono) simp
    finally show ?thesis using True g by simp
  next
    case False
    then show ?thesis using inv unfolding window_inv_def by auto
  qed
  show "window_inv k t (past @ (if good then [t] else [])) rl'"
    unfolding window_inv_def w att using inv t bound by (auto simp: window_inv_def recent_recent)
qed

lemma admitted_Cons:
  "admitted k ((k', t, good) # log) = (if k' = k \<and> good then [t] else []) @ admitted k log"
  by (simp add: admitted_def)

lemma admitted_append: "admitted k (a @ b) = admitted k a @ admitted k b"
  by (simp add: admitted_def)

lemma allow_run_window:
  assumes "window_inv k now past rl" and "sorted (now # map snd calls)" and "allow_run calls rl = (log, rl')"
  shows "(\<forall>pre t good post. log = pre @ (k, t, good) # post \<longrightarrow>
      (good \<longleftrightarrow> length (recent (rl_window rl) t (past @ admitted k pre)) < rl_max rl)) \<and>
    (\<forall>u. length (filter (\<lambda>x. u - rl_window rl < x \<and> x \<le> u) (past @ admitted k log)) \<le> rl_max rl)"
  using assms
proof (induction calls arbitrary: now past rl log)
  case Nil
  then show ?case by (simp add: window_inv_def admitted_def)
next
  case (Cons c calls)
  obtain k' t where c: "c = (k', t)" by fastforce
  obtain good rl1 where a: "allow k' t rl = (good, rl1)" by fastforce
  obtain log1 where rest: "allow_run calls rl1 = (log1, rl')" and log: "log = (k', t, good) # log1"
    using Cons.prems(3) a by (auto simp: c Let_def split: prod.splits)
  have nt: "now \<le> t" and srt: "sorted (t # map snd calls)" using Cons.prems(2) by (auto simp: c)
  have w: "rl_window rl1 = rl_window rl" "rl_max rl1 = rl_max rl" using a allow_config by (metis snd_conv)+
  define past1 where "past1 = past @ (if k' = k \<and> good then [t] else [])"
  have inv1: "window_inv k t past1 rl1"
    using window_inv_allow(2) [OF Cons.prems(1) nt] window_inv_other [OF Cons.prems(1) nt, of k'] a
    by (cases "k' = k") (auto simp: past1_def)
  note ih = Cons.IH [OF inv1 srt rest, unfolded w]
  have spec: "g \<longleftrightarrow> length (recent (rl_window rl) u (past @ admitted k pre)) < rl_max rl"
    if "log = pre @ (k, u, g) # post" for pre u g post
  proof (cases pre)
    case Nil
    then show ?thesis using that log window_inv_allow(1) [OF Cons.prems(1) nt, of good rl1] a
      by (simp add: admitted_def)
  next
    case (Cons x pre')
    then have "log1 = pre' @ (k, u, g) # post" and x: "x = (k', t, good)" using that log by auto
    then have "g \<longleftrightarrow> length (recent (rl_window rl) u (past1 @ admitted k pre')) < rl_max rl" using ih by blast
    then show ?thesis using Cons x by (simp add: past1_def admitted_Cons)
  qed
  have bound: "length (filter (\<lambda>x. u - rl_window rl < x \<and> x \<le> u) (past @ admitted k log)) \<le> rl_max rl" for u
    using ih by (simp add: log admitted_Cons past1_def)
  show ?case using spec bound by blast
qed

text \<open>
  C13: A limiter admits an attempt exactly when fewer than its maximum were admitted for the same key
  within the window that ends there, so no window ever holds more than the maximum.
\<close>

theorem rate_limit_window:
  assumes "allow_run calls (newRateLimiter m w) = (log, rl)" and "sorted (map snd calls)"
  shows "(log = pre @ (k, t, good) # post \<longrightarrow> (good \<longleftrightarrow> length (recent w t (admitted k pre)) < m)) \<and>
    length (filter (\<lambda>x. u - w < x \<and> x \<le> u) (admitted k log)) \<le> m"
proof (cases calls)
  case Nil
  then show ?thesis using assms(1) by (simp add: admitted_def)
next
  case (Cons c cs)
  have inv: "window_inv k (snd c) [] (newRateLimiter m w)"
    by (simp add: window_inv_def newRateLimiter_def recent_def get_or_def)
  have "sorted (snd c # map snd calls)" using assms(2) Cons by auto
  from allow_run_window [OF inv this assms(1)] show ?thesis by (simp add: newRateLimiter_def)
qed

theorem rate_limit_window_witness:
  "length (filter (\<lambda>x. 8 - 10 < x \<and> x \<le> 8)
     (admitted ''ip'' (fst (allow_run [(''ip'', 1), (''ip'', 2), (''ip'', 3), (''ip'', 12)] (newRateLimiter 2 10))))) \<le> 2"
proof -
  obtain log rl where run: "allow_run [(''ip'', 1), (''ip'', 2), (''ip'', 3), (''ip'', 12)] (newRateLimiter 2 10) = (log, rl)"
    by fastforce
  show ?thesis using rate_limit_window [OF run, where k = "''ip''" and u = 8] unfolding run fst_conv by simp
qed

subsection \<open>One-time login codes\<close>

lemma codes_consume_once:
  assumes "codes_consume hash t l = (Some c, l')"
  shows "lookup l hash = Some c" "t \<le> lc_Expires c" "lookup l' hash = None"
  using assms by (auto simp: codes_consume_def codes_sweep_def AList.delete_eq Let_def map_of_eq_None_iff
      split: option.splits if_splits)

lemma codes_sweep_subset: "set (codes_sweep t l) \<subseteq> set l"
  by (auto simp: codes_sweep_def)

subsection \<open>A login with the empty password\<close>

lemma mintNamedSession_run:
  assumes "s_entropy s = Some bs # es"
  shows "\<exists>token s'. mintNamedSession name email scope s = (Inr token, s') \<and>
    s_now s' = s_now s \<and> loadUsers s' = loadUsers s"
  using assms
  by (simp add: mintNamedSession_def generateToken_def rand_read_def io_eval io_bind_simp store_token_def
      loadUsers_def)

text \<open>
  C12: On a server with single sign-on and no password, a password login that is not switched off
  accepts the empty password and answers with a session that admin routes admit. \<open>authConfig\<close> tells
  the browser at the same time that there is no password login.
\<close>

theorem empty_password_is_admin:
  assumes "s_Password s = []" and "s_OIDC s \<noteq> None" and "\<not> s_SSOOnly s"
    and "fst (allow (clientIP r) (s_now s) (s_logins s))" and "s_entropy s = Some bs # es"
    and "printable (s_now s + sessionTTL)"
  shows "\<exists>token. fst (serve p r (Login (Some ([], []))) s) = Inr (RToken token) \<and>
    admits AdminRoute (r\<lparr>rq_Authorization := ''Bearer '' @ token\<rparr>) (snd (serve p r (Login (Some ([], []))) s)) \<and>
    auth_required s \<and> \<not> ac_password_auth (authConfig s)"
proof -
  define s1 where "s1 = snd (limit_login (clientIP r) s)"
  have limit: "limit_login (clientIP r) s = (Inr (), s1)"
    using assms(4) by (auto simp: limit_login_def s1_def Let_def split: prod.split)
  have s1: "s_entropy s1 = Some bs # es" "s_now s1 = s_now s" "s_Password s1 = []"
    using assms by (simp_all add: s1_def limit_login_def split: prod.split)
  obtain token s2 where mint: "mintNamedSession passwordSessionName [] scopeAdmin s1 = (Inr token, s2)"
    and s2: "s_now s2 = s_now s1"
    using mintNamedSession_run [OF s1(1)] by blast
  from mintNamedSession_Inr [OF mint] obtain info where info:
    "lookup (s_tokens s2) (hashToken token) = Some info" "ti_Scope info = scopeAdmin" "ti_UserEmail info = []"
    "ti_ExpiresAt info = format_rfc3339 (s_now s + sessionTTL)"
    by (auto simp: s1(2))
  have login: "login r (Some ([], [])) s = (Inr token, s2)"
    using limit s1(3) mint
    by (simp add: login_def io_then_def io_bind_def io_get_def io_return_def mintLogin_def trim_space_def
        trim_left_def trim_right_def)
  have run: "serve p r (Login (Some ([], []))) s = (Inr (RToken token), s2)"
    using assms(3) by (simp add: serve_def answer_def io_bind_def login io_return_def)
  have "s_now s \<le> (s_now s + sessionTTL) - (s_now s + sessionTTL) mod second"
    using pos_mod_bound [of second "s_now s + sessionTTL"] by (simp add: sessionTTL_def)
  then have "\<not> expired (s_now s2) info"
    using expired_session [OF assms(6) info(4)] by (simp add: s2 s1(2))
  then have "caller (r\<lparr>rq_Authorization := ''Bearer '' @ token\<rparr>) s2 = Some info"
    using info(1) by (simp add: caller_def cut_prefix_def)
  then have "admits AdminRoute (r\<lparr>rq_Authorization := ''Bearer '' @ token\<rparr>) s2"
    using info by (simp add: admin_now_def)
  then show ?thesis using run assms by (simp add: auth_required_def authConfig_def)
qed

theorem empty_password_is_admin_witness:
  "\<exists>token. fst (serve demo_provider (demo_request []) (Login (Some ([], [])))
      (demo_srv\<lparr>s_Password := [], s_OIDC := Some []\<rparr>)) = Inr (RToken token)"
proof -
  have "fst (allow (clientIP (demo_request [])) 0 (newRateLimiter loginMaxAttempts loginWindow))"
    by (simp add: allow_def newRateLimiter_def loginMaxAttempts_def get_or_def)
  moreover have "printable sessionTTL" by code_simp
  ultimately show ?thesis
    using empty_password_is_admin [of "demo_srv\<lparr>s_Password := [], s_OIDC := Some []\<rparr>" "demo_request []" "[]" "[]"
        demo_provider]
    by (auto simp: demo_srv_def)
qed

subsection \<open>Stores that cannot be read\<close>

text \<open>
  A user file that does not parse counts as no users: the next account that signs in becomes the
  first user, an admin, and the file is replaced by one that holds this account alone.
\<close>

theorem corrupt_users_make_admin:
  assumes "users_file s = Corrupt" and "s_writes s = []" and "idp code = Some (email, name, preferred)"
    and "email \<noteq> []"
  shows "\<exists>user s'. oidcIdentity idp code s = (Inr (Some (user, scopeAdmin)), s') \<and>
    loadUsers s' = [(email, user)]"
  using assms
  by (auto simp: oidcIdentity_def upsertUser_def loadUsers_def stored_or_empty_def saveUsers_def write_json_def
      next_write_def Let_def)

subsection \<open>Who is counted\<close>

text \<open>
  The limiter counts by the first address of a header the caller writes: with a new one per attempt
  the limit is never reached.
\<close>

theorem forwarded_address_not_limited:
  assumes "rq_ForwardedFor r \<noteq> []" and "lookup (attempts (s_logins s)) (clientIP r) = None"
    and "0 < rl_max (s_logins s)"
  shows "fst (limit_login (clientIP r) s) = Inr ()"
  using assms by (simp add: limit_login_def allow_def get_or_def Let_def)

end
