(* ===== verification/SpaceFacts.thy ===== *)
theory SpaceFacts
  imports AccountFacts ServerInvariant
begin

text \<open>
  Who can change a space: the stored spaces are left alone by every route that is not about them, and
  a route that changes one was called by a member whose role allows it.
\<close>

subsection \<open>Routes that leave the spaces alone\<close>

definition spaces_are :: "(string, Space) gomap json_file \<Rightarrow> srv \<Rightarrow> bool" where
  "spaces_are f s \<longleftrightarrow> spaces_file s = f \<and> s_writes s = []"

lemma touchToken_spaces: "spaces_are f s \<Longrightarrow> touchToken hash s = (x, s') \<Longrightarrow> spaces_are f s'"
  by (auto simp: spaces_are_def touchToken_def saveTokens_def Let_def split: option.splits if_splits)

interpretation same_spaces: server_invariant "spaces_are f" "\<lambda>_. True" for f
proof
  show "spaces_are f s'" if "spaces_are f s" "touchToken hash s = (x, s')" for s s' hash x
    by (rule touchToken_spaces [OF that])
qed (auto simp: spaces_are_def saveUsers_def store_token_def saveTokens_def scopes_ok_def split: prod.splits)

lemma unchanged_spaces:
  "\<not> changes_spaces e \<Longrightarrow> s_writes s = [] \<Longrightarrow> loadSpaces (snd (serve p r e s)) = loadSpaces s"
  using same_spaces.keeps_serve [of e "spaces_file s" p r]
  by (auto simp: io_keeps_def spaces_are_def loadSpaces_def)

subsection \<open>What the space routes do\<close>

lemma access_Inr:
  assumes "access_or_404 ident sid s = (Inr (space, role), s')"
  shows "s' = s" "lookup (loadSpaces s) sid = Some space" "lookup (sp_Members space) (id_Email ident) = Some role"
    "id_Email ident \<noteq> []"
  using assms
  by (auto simp: access_or_404_def requireSession_def io_then_require io_bind_simp io_get_def io_return_def
      io_fail_def spaceAccess_def split: if_splits option.splits)

lemma access_Inl: "access_or_404 ident sid s = (Inl err, s') \<Longrightarrow> s' = s"
  by (auto simp: access_or_404_def requireSession_def io_then_require io_bind_simp io_get_def io_return_def
      io_fail_def split: if_splits option.splits)

lemma commit_space_run:
  assumes "s_writes s = []"
  shows "\<exists>s'. commit_space sid f s = (Inr (), s') \<and>
    lookup (loadSpaces s') = (\<lambda>k. if k = sid then map_option f (lookup (loadSpaces s) k) else lookup (loadSpaces s) k)"
  using assms
  by (auto simp: commit_space_def spaces_store.change_def saveSpaces_def next_write_def write_json_def Let_def
      loadSpaces_def stored_or_empty_def fun_eq_iff split: option.splits)

text \<open>A handler behind \<open>access_or_404\<close>: it was refused and nothing happened, or the caller is a member.\<close>

lemma memberE:
  assumes "io_bind (access_or_404 ident sid) f s = (out, s')"
  obtains (refused) "s' = s"
    | (member) space role where "lookup (loadSpaces s) sid = Some space"
      "lookup (sp_Members space) (id_Email ident) = Some role" "id_Email ident \<noteq> []" "f (space, role) s = (out, s')"
proof (cases "access_or_404 ident sid s")
  case (Pair x s1)
  show thesis
  proof (cases x)
    case (Inl e)
    then show thesis using assms Pair access_Inl by (intro refused) (auto simp: io_bind_def)
  next
    case (Inr y)
    obtain space role where y: "y = (space, role)" by fastforce
    note a = access_Inr [OF Pair [unfolded Inr y]]
    show thesis using assms Pair a by (intro member [of space role]) (auto simp: io_bind_def Inr y)
  qed
qed

definition has_owner :: "Space \<Rightarrow> bool" where
  "has_owner sp \<longleftrightarrow> (\<exists>email. lookup (sp_Members sp) email = Some roleOwner)"

text \<open>The keys of the store are the ids of its spaces, and no member is listed twice.\<close>

definition spaces_wf :: "(string, Space) gomap \<Rightarrow> bool" where
  "spaces_wf spaces \<longleftrightarrow>
     (\<forall>sid sp. lookup spaces sid = Some sp \<longrightarrow> sp_ID sp = sid \<and> distinct (map fst (sp_Members sp)))"

text \<open>What may become of a space at the hands of a member with some role.\<close>

definition change_allowed :: "string \<Rightarrow> string \<Rightarrow> Space \<Rightarrow> Space option \<Rightarrow> bool" where
  "change_allowed email role sp new \<longleftrightarrow>
     (case new of
        None \<Rightarrow> role = roleOwner
      | Some sp' \<Rightarrow>
          (role = roleOwner \<or> role = roleAdmin \<or>
             lookup (sp_Members sp') = (lookup (sp_Members sp))(email := None) \<and> sp_Name sp' = sp_Name sp) \<and>
          (\<forall>m. lookup (sp_Members sp') m = Some roleOwner \<longrightarrow>
             lookup (sp_Members sp) m = Some roleOwner \<or> role = roleOwner))"

lemma owners_two:
  assumes "distinct (map fst (sp_Members sp))" and "\<not> owners sp \<le> 1"
  shows "\<exists>m. m \<noteq> email \<and> lookup (sp_Members sp) m = Some roleOwner"
proof -
  let ?os = "filter (\<lambda>(_, r). r = roleOwner) (sp_Members sp)"
  have d: "distinct (map fst ?os)" using assms(1) by (induction "sp_Members sp" arbitrary: sp) (auto simp: distinct_map_filter)
  have "2 \<le> length ?os" using assms(2) by (simp add: owners_def)
  then obtain a b xs where os: "?os = a # b # xs" by (metis Suc_le_length_iff numeral_2_eq_2)
  then have "fst a \<noteq> fst b" using d by auto
  then obtain c where c: "c \<in> set ?os" "fst c \<noteq> email" using os by (metis list.set_intros)
  have "c \<in> set (sp_Members sp)" "snd c = roleOwner" using c(1) by auto
  then have "(fst c, roleOwner) \<in> set (sp_Members sp)" by (metis prod.collapse)
  then have "lookup (sp_Members sp) (fst c) = Some roleOwner" using assms(1) by simp
  then show ?thesis using c(2) by blast
qed

lemma removeMember_run:
  assumes w: "s_writes s = []" and l: "lookup (loadSpaces s) sid = Some sp"
    and d: "distinct (map fst (sp_Members sp))" and run: "removeMember sid email s = (out, s')"
  shows "lookup (loadSpaces s') = lookup (loadSpaces s) \<or>
    (\<exists>sp'. lookup (loadSpaces s') = (lookup (loadSpaces s))(sid \<mapsto> sp') \<and> sp_Name sp' = sp_Name sp \<and>
       lookup (sp_Members sp') = (lookup (sp_Members sp))(email := None) \<and> (has_owner sp \<longrightarrow> has_owner sp'))"
proof (cases "get_or [] (sp_Members sp) email = [] \<or> get_or [] (sp_Members sp) email = roleOwner \<and> owners sp \<le> 1")
  case True
  then show ?thesis using run l by (auto simp: removeMember_def Let_def)
next
  case False
  define f :: "Space \<Rightarrow> Space" where "f = (\<lambda>sp. sp\<lparr>sp_Members := AList.delete email (sp_Members sp), sp_UpdatedAt := format_rfc3339 (s_now s)\<rparr>)"
  have "commit_space sid f s = (out, s')" using run l False by (auto simp: removeMember_def Let_def f_def)
  then have new: "lookup (loadSpaces s') = (lookup (loadSpaces s))(sid \<mapsto> f sp)"
    using commit_space_run [OF w, of sid f] l by (auto simp: fun_eq_iff)
  have "has_owner (f sp)" if own: "has_owner sp"
  proof (cases "lookup (sp_Members sp) email = Some roleOwner")
    case True
    then have "\<not> owners sp \<le> 1" using False by (simp add: get_or_def)
    from owners_two [OF d this, of email] show ?thesis by (auto simp: has_owner_def f_def)
  next
    case False
    then show ?thesis using own unfolding has_owner_def f_def by (auto split: if_splits)
  qed
  then show ?thesis using new by (intro disjI2 exI [of _ "f sp"]) (auto simp: f_def)
qed

subsection \<open>Who may change a space\<close>

definition is_removal :: "endpoint \<Rightarrow> bool" where
  "is_removal e \<longleftrightarrow> (case e of SpacesMemberRemove _ _ \<Rightarrow> True | SpacesLeave _ \<Rightarrow> True | _ \<Rightarrow> False)"

definition authorised :: "endpoint \<Rightarrow> string \<Rightarrow> srv \<Rightarrow> srv \<Rightarrow> bool" where
  "authorised e email s s' \<longleftrightarrow>
     (\<forall>sid sp. lookup (loadSpaces s) sid = Some sp \<longrightarrow> lookup (loadSpaces s') sid \<noteq> Some sp \<longrightarrow>
        (\<exists>role. email \<noteq> [] \<and> lookup (sp_Members sp) email = Some role \<and>
           change_allowed email role sp (lookup (loadSpaces s') sid)) \<and>
        (is_removal e \<longrightarrow> has_owner sp \<longrightarrow>
           (case lookup (loadSpaces s') sid of None \<Rightarrow> False | Some sp' \<Rightarrow> has_owner sp')))"

lemma authorised_same: "lookup (loadSpaces s') = lookup (loadSpaces s) \<Longrightarrow> authorised e email s s'"
  by (simp add: authorised_def)

lemma authorised_update:
  assumes "lookup (loadSpaces s) sid = Some sp" "lookup (sp_Members sp) email = Some role" "email \<noteq> []"
    and "lookup (loadSpaces s') = (lookup (loadSpaces s))(sid := new)"
    and "change_allowed email role sp new"
    and "is_removal e \<Longrightarrow> has_owner sp \<Longrightarrow> case new of None \<Rightarrow> False | Some sp' \<Rightarrow> has_owner sp'"
  shows "authorised e email s s'"
  using assms by (auto simp: authorised_def)

lemma commit_authorised:
  assumes "s_writes s = []" and "lookup (loadSpaces s) sid = Some sp"
    and "lookup (sp_Members sp) email = Some role" "email \<noteq> []"
    and "commit_space sid f s = (out, s')" and "change_allowed email role sp (Some (f sp))" and "\<not> is_removal e"
  shows "authorised e email s s'"
proof -
  have "lookup (loadSpaces s') = (lookup (loadSpaces s))(sid \<mapsto> f sp)"
    using commit_space_run [OF assms(1), of sid f] assms(2,5) by (auto simp: fun_eq_iff)
  then show ?thesis using assms by (intro authorised_update [of s sid sp email role]) auto
qed

lemma grant_role:
  "decodeMemberGrant body actor s = (Inr (email, role), s') \<Longrightarrow> s' = s \<and> (role = roleOwner \<longrightarrow> actor = roleOwner)"
  by (auto simp: decodeMemberGrant_def Let_def io_then_require io_return_def io_fail_def
      split: option.splits if_splits)

lemma grant_error: "decodeMemberGrant body actor s = (Inl err, s') \<Longrightarrow> s' = s"
  by (auto simp: decodeMemberGrant_def Let_def io_then_require io_return_def io_fail_def
      split: option.splits if_splits)

lemma then_return_iff:
  "io_then m (io_return y) s = (out, s') \<longleftrightarrow> (\<exists>x. m s = (x, s') \<and> out = map_sum id (\<lambda>_. y) x)"
  by (cases "m s"; cases "fst (m s)") (auto simp: io_then_def io_bind_simp io_return_def)

lemma update_authorised:
  assumes "spacesUpdate sid body ident s = (out, s')" and w: "s_writes s = []" and wf: "spaces_wf (loadSpaces s)"
  shows "authorised (SpacesUpdate sid body) (id_Email ident) s s'"
  using assms(1) unfolding spacesUpdate_def
proof (cases rule: memberE)
  case refused
  then show ?thesis by (simp add: authorised_same)
next
  case (member space role)
  have id: "sp_ID space = sid" using wf member(1) by (simp add: spaces_wf_def)
  show ?thesis
  proof (cases "s' = s")
    case False
    then obtain name description where b: "body = Some (name, description)" "role = roleOwner \<or> role = roleAdmin"
      and c: "\<exists>out'. commit_space sid (\<lambda>sp. sp\<lparr>sp_Name := trim_space name, sp_Description := description,
        sp_UpdatedAt := format_rfc3339 (s_now s)\<rparr>) s = (out', s')"
      using member(4) id
      by (auto simp: io_then_require io_fail_def Let_def then_return_iff split: option.splits if_splits)
    then show ?thesis
      using commit_authorised [OF w member(1,2,3), where e = "SpacesUpdate sid body"]
      by (auto simp: change_allowed_def is_removal_def)
  qed (simp add: authorised_same)
qed

lemma delete_authorised:
  assumes "spacesDelete sid ident s = (out, s')" and w: "s_writes s = []" and wf: "spaces_wf (loadSpaces s)"
  shows "authorised (SpacesDelete sid) (id_Email ident) s s'"
  using assms(1) unfolding spacesDelete_def
proof (cases rule: memberE)
  case refused
  then show ?thesis by (simp add: authorised_same)
next
  case (member space role)
  have id: "sp_ID space = sid" using wf member(1) by (simp add: spaces_wf_def)
  have trash: "loadSpaces (trash_space x y) = loadSpaces y" for x y
    by (simp add: trash_space_def Let_def loadSpaces_def)
  show ?thesis
  proof (cases "s' = s")
    case False
    then have "role = roleOwner" "lookup (loadSpaces s') = (lookup (loadSpaces s))(sid := None)"
      using member(4) id w
      by (auto simp: io_then_require io_fail_def Let_def trash spaces_store.change_def saveSpaces_def
          next_write_def write_json_def split: if_splits) (simp add: loadSpaces_def stored_or_empty_def)
    then show ?thesis using member
      by (intro authorised_update [of s sid space _ role]) (auto simp: change_allowed_def is_removal_def)
  qed (simp add: authorised_same)
qed

lemma add_authorised:
  assumes "spacesMemberAdd sid body ident s = (out, s')" and w: "s_writes s = []" and wf: "spaces_wf (loadSpaces s)"
  shows "authorised (SpacesMemberAdd sid body) (id_Email ident) s s'"
  using assms(1) unfolding spacesMemberAdd_def
proof (cases rule: memberE)
  case refused
  then show ?thesis by (simp add: authorised_same)
next
  case (member space role)
  have id: "sp_ID space = sid" using wf member(1) by (simp add: spaces_wf_def)
  show ?thesis
  proof (cases "s' = s")
    case False
    then obtain email granted where b: "role = roleOwner \<or> role = roleAdmin" "granted = roleOwner \<longrightarrow> role = roleOwner"
      and c: "commit_space sid (with_member email granted (s_now s)) s = (out, s')"
      using member(4) id
      by (auto simp: io_then_require io_fail_def io_bind_simp dest: grant_role grant_error
          split: if_splits prod.splits sum.splits)
    then show ?thesis
      using commit_authorised [OF w member(1,2,3) c, where e = "SpacesMemberAdd sid body"]
      by (auto simp: change_allowed_def is_removal_def with_member_def split: if_splits)
  qed (simp add: authorised_same)
qed

lemma role_authorised:
  assumes "spacesMemberUpdate sid email body ident s = (out, s')" and w: "s_writes s = []"
    and wf: "spaces_wf (loadSpaces s)"
  shows "authorised (SpacesMemberUpdate sid email body) (id_Email ident) s s'"
  using assms(1) unfolding spacesMemberUpdate_def
proof (cases rule: memberE)
  case refused
  then show ?thesis by (simp add: authorised_same)
next
  case (member space role)
  have id: "sp_ID space = sid" using wf member(1) by (simp add: spaces_wf_def)
  show ?thesis
  proof (cases "s' = s")
    case False
    then obtain newrole where b: "role = roleOwner"
      and c: "commit_space sid (with_member email newrole (s_now s)) s = (out, s')"
      using member(4) id
      by (auto simp: io_then_require io_fail_def split: option.splits if_splits)
    then show ?thesis
      using commit_authorised [OF w member(1,2,3) c, where e = "SpacesMemberUpdate sid email body"]
      by (auto simp: change_allowed_def is_removal_def)
  qed (simp add: authorised_same)
qed

lemma removal_authorised:
  assumes w: "s_writes s = []" and wf: "spaces_wf (loadSpaces s)" and l: "lookup (loadSpaces s) sid = Some space"
    and m: "lookup (sp_Members space) me = Some role" "me \<noteq> []"
    and may: "role = roleOwner \<or> role = roleAdmin \<or> email = me"
    and run: "removeMember (sp_ID space) email s = (out, s')"
  shows "authorised e me s s'"
proof -
  have id: "sp_ID space = sid" "distinct (map fst (sp_Members space))" using wf l by (auto simp: spaces_wf_def)
  from removeMember_run [OF w l id(2) run [unfolded id(1)]] show ?thesis
  proof
    assume "lookup (loadSpaces s') = lookup (loadSpaces s)"
    then show ?thesis by (rule authorised_same)
  next
    assume "\<exists>sp'. lookup (loadSpaces s') = (lookup (loadSpaces s))(sid \<mapsto> sp') \<and> sp_Name sp' = sp_Name space \<and>
      lookup (sp_Members sp') = (lookup (sp_Members space))(email := None) \<and> (has_owner space \<longrightarrow> has_owner sp')"
    then obtain sp' where sp': "lookup (loadSpaces s') = (lookup (loadSpaces s))(sid \<mapsto> sp')"
      "sp_Name sp' = sp_Name space" "lookup (sp_Members sp') = (lookup (sp_Members space))(email := None)"
      "has_owner space \<longrightarrow> has_owner sp'" by blast
    have "change_allowed me role space (Some sp')"
      using may sp'(2,3) by (auto simp: change_allowed_def split: if_splits)
    then show ?thesis using sp' l m by (intro authorised_update [of s sid space me role]) auto
  qed
qed

lemma remove_authorised:
  assumes "spacesMemberRemove sid email ident s = (out, s')" and w: "s_writes s = []"
    and wf: "spaces_wf (loadSpaces s)"
  shows "authorised e (id_Email ident) s s'"
  using assms(1) unfolding spacesMemberRemove_def
proof (cases rule: memberE)
  case (member space role)
  then show ?thesis using removal_authorised [OF w wf member(1,2,3)]
    by (auto simp: io_then_require io_fail_def authorised_same split: if_splits)
qed (simp add: authorised_same)

lemma leave_authorised:
  assumes "spacesLeave sid ident s = (out, s')" and w: "s_writes s = []" and wf: "spaces_wf (loadSpaces s)"
  shows "authorised e (id_Email ident) s s'"
  using assms(1) unfolding spacesLeave_def
proof (cases rule: memberE)
  case (member space role)
  then show ?thesis using removal_authorised [OF w wf member(1,2,3)]
    by (auto simp: io_then_require io_fail_def authorised_same split: if_splits)
qed (simp add: authorised_same)

lemma answer_state: "answer g m s = (out, s') \<Longrightarrow> \<exists>out'. m s = (out', s')"
  by (auto simp: answer_def io_bind_simp io_return_def split: prod.splits sum.splits)

lemma handle_authorised:
  assumes "handle p r e ident s = (out, s')" and "changes_spaces e" and "\<And>body. e \<noteq> SpacesCreate body"
    and "s_writes s = []" and "spaces_wf (loadSpaces s)"
  shows "authorised e (id_Email ident) s s'"
  using assms
  by (cases e) (auto dest!: answer_state intro: update_authorised delete_authorised add_authorised role_authorised
      remove_authorised leave_authorised)

lemma space_route_table:
  "list_all (\<lambda>b. list_all (\<lambda>m. lookup (route_table b) m = Some SessionRoute)
     [(''POST'', ''/spaces''), (''PUT'', ''/spaces/{id}''), (''DELETE'', ''/spaces/{id}''),
      (''POST'', ''/spaces/{id}/members''), (''PUT'', ''/spaces/{id}/members/{email}''),
      (''DELETE'', ''/spaces/{id}/members/{email}''), (''POST'', ''/spaces/{id}/leave'')]) [True, False]"
  by code_simp

lemma space_routes:
  "changes_spaces e \<Longrightarrow> lookup (route_table b) (endpoint_route e) = Some SessionRoute"
  using space_route_table by (cases b; cases e) simp_all



subsection \<open>What the roles do not protect\<close>

text \<open>
  An admin of a space who adds its owner as a member takes the ownership away: the grant overwrites
  the role that is there, and the space is left without an owner although neither removal nor leaving
  would have allowed it.
\<close>

theorem admin_demotes_owner:
  assumes "lookup (loadSpaces s) sid = Some sp" and "sp_ID sp = sid" and "s_writes s = []"
    and "lookup (sp_Members sp) (id_Email ident) = Some roleAdmin" and "id_Email ident \<noteq> []"
    and "lookup (loadUsers s) email \<noteq> None" and "email \<noteq> []"
    and "\<forall>m. m \<noteq> email \<longrightarrow> lookup (sp_Members sp) m \<noteq> Some roleOwner"
  shows "\<exists>s' sp'. spacesMemberAdd sid (Some (email, roleMember)) ident s = (Inr (), s') \<and>
    lookup (loadSpaces s') sid = Some sp' \<and> \<not> has_owner sp'"
proof -
  obtain s' where c: "commit_space sid (with_member email roleMember (s_now s)) s = (Inr (), s')"
    "lookup (loadSpaces s') sid = Some (with_member email roleMember (s_now s) sp)"
    using commit_space_run [OF assms(3), of sid "with_member email roleMember (s_now s)"] assms(1) by auto
  have "access_or_404 ident sid s = (Inr (sp, roleAdmin), s)"
    using assms by (simp add: access_or_404_def requireSession_def io_bind_simp io_get_def io_return_def spaceAccess_def)
  then have "spacesMemberAdd sid (Some (email, roleMember)) ident s = (Inr (), s')"
    using c(1) assms by (simp add: spacesMemberAdd_def io_bind_simp decodeMemberGrant_def validRole_def io_return_def)
  moreover have "\<not> has_owner (with_member email roleMember (s_now s) sp)"
    using assms(8) by (auto simp: has_owner_def with_member_def)
  ultimately show ?thesis using c(2) by blast
qed

text \<open>
  The member routes take the email as the router hands it over. The browser encodes the at sign, so
  the removal it asks for finds no such member.
\<close>

theorem member_path_not_decoded:
  assumes "lookup (loadSpaces s) sid = Some sp" and "sp_ID sp = sid"
    and "lookup (sp_Members sp) (id_Email ident) = Some roleOwner" and "id_Email ident \<noteq> []"
    and "\<forall>m\<in>dom (lookup (sp_Members sp)). CHR ''%'' \<notin> set m" and "CHR ''%'' \<in> set raw"
  shows "spacesMemberRemove sid raw ident s = (Inl (NotFound ''not found''), s)"
proof -
  have "access_or_404 ident sid s = (Inr (sp, roleOwner), s)"
    using assms by (simp add: access_or_404_def requireSession_def io_bind_simp io_get_def io_return_def spaceAccess_def)
  moreover have "lookup (sp_Members sp) raw = None" using assms(5,6) by (meson domIff)
  ultimately show ?thesis
    using assms by (simp add: spacesMemberRemove_def io_bind_simp removeMember_def get_or_def)
qed

subsection \<open>An example\<close>

lemma demo_spaces_wf: "spaces_wf (loadSpaces demo_srv)"
  by (simp add: spaces_wf_def demo_space_def)

lemma demo_delete:
  "lookup (loadSpaces (snd (serve demo_provider (demo_request ''Bearer tok'') (SpacesDelete ''s1'') demo_srv))) ''s1'' = None"
proof -
  have g: "lookup (route_table False) (''DELETE'', ''/spaces/{id}'') = Some SessionRoute" by code_simp
  show ?thesis
    by (simp add: g serve_def auth_def demo_request_def touchToken_def expired_def Let_def answer_def io_bind_def
        spacesDelete_def access_or_404_def requireSession_def io_get_def spaceAccess_def demo_space_def
        io_return_def loadSpaces_def saveTokens_def demo_srv_def stored_or_empty_def auth_required_def
        io_then_def spaces_store.change_def saveSpaces_def next_write_def write_json_def trash_space_def)
qed


end
