(* ===== verification/EnvConfig.thy ===== *)
theory EnvConfig
  imports Effects
begin

text \<open>
  Configuration: \<open>internal/env\<close>, which the server reads once and refuses to start on, and
  \<open>internal/config\<close>, the client's file with the environment in front of it. The helpers of the library
  the server reads its environment with are a parameter, \<open>tronc\<close>; so is the YAML decoder, whose result
  is the content of the file.
\<close>

subsection \<open>Server configuration\<close>

record Embedding =
  em_OllamaURL :: string
  em_Model :: string
  em_VectorStore :: string
  em_QdrantURL :: string

record OIDC =
  oi_Issuer :: string
  oi_ClientID :: string
  oi_ClientSecret :: string
  oi_RedirectURL :: string
  oi_SuccessURL :: string

record tronc =
  te_String :: "string \<Rightarrow> string \<Rightarrow> string"
  te_Int :: "string \<Rightarrow> int \<Rightarrow> string + int"
  te_Bool :: "string \<Rightarrow> bool \<Rightarrow> string + bool"
  te_Required :: "string \<Rightarrow> string + string"
  te_TrustedProxies :: "string + string list"
  te_CDN :: "string list \<times> string"
  te_CORSOrigins :: "string list"
  te_IsProduction :: "string \<Rightarrow> bool"

record Config =
  co_TrustedProxies :: "string list"
  co_CDN :: "string list \<times> string"
  co_AppEnv :: string
  co_Port :: int
  co_LogLevel :: string
  co_CORSAllowedOrigins :: "string list"
  co_JournalURL :: string
  co_JournalToken :: string
  co_DataDir :: string
  co_Password :: string
  co_SSOOnly :: bool
  co_OIDC :: "OIDC option"
  co_Embedding :: "Embedding option"
  co_JournalBrowserURL :: string
  co_JournalBrowserKey :: string

datatype env_error =
  Unreadable string | PortRange int | BadVectorStore string | NoQdrantURL | SSOWithoutIssuer
  | OpenInProduction | JournalSuffix string | JournalPair

definition DefaultPort :: int where "DefaultPort = 8420"
definition EmbedDefaultModel :: string where "EmbedDefaultModel = ''all-minilm''"
definition VectorStoreFlat :: string where "VectorStoreFlat = ''flat''"
definition VectorStoreQdrant :: string where "VectorStoreQdrant = ''qdrant''"

definition or_fail :: "string + 'a \<Rightarrow> ('a \<Rightarrow> env_error + 'b) \<Rightarrow> env_error + 'b" where
  "or_fail x f = (case x of Inl e \<Rightarrow> Inl (Unreadable e) | Inr v \<Rightarrow> f v)"

definition loadEmbedding :: "tronc \<Rightarrow> env_error + Embedding option" where
  "loadEmbedding te =
     (let e = \<lparr>em_OllamaURL = te_String te ''OLLAMA_URL'' [],
               em_Model = te_String te ''EMBED_MODEL'' EmbedDefaultModel,
               em_VectorStore = te_String te ''VECTOR_STORE'' VectorStoreFlat,
               em_QdrantURL = te_String te ''QDRANT_URL'' []\<rparr>
      in if em_OllamaURL e = [] then Inr None
         else if em_VectorStore e \<noteq> VectorStoreFlat \<and> em_VectorStore e \<noteq> VectorStoreQdrant
         then Inl (BadVectorStore (em_VectorStore e))
         else if em_VectorStore e = VectorStoreQdrant \<and> em_QdrantURL e = [] then Inl NoQdrantURL
         else Inr (Some e))"

definition validateConfig :: "tronc \<Rightarrow> Config \<Rightarrow> env_error option" where
  "validateConfig te c =
     (if co_SSOOnly c \<and> co_OIDC c = None then Some SSOWithoutIssuer
      else if te_IsProduction te (co_AppEnv c) \<and> co_Password c = [] \<and> co_OIDC c = None then Some OpenInProduction
      else if co_JournalBrowserURL c \<noteq> [] \<and> \<not> has_suffix (co_JournalBrowserURL c) ''/api''
      then Some (JournalSuffix (co_JournalBrowserURL c))
      else if (co_JournalBrowserURL c = []) \<noteq> (co_JournalBrowserKey c = []) then Some JournalPair
      else None)"

definition loadOIDC :: "tronc \<Rightarrow> env_error + OIDC option" where
  "loadOIDC te =
     (let issuer = te_String te ''OIDC_ISSUER'' [] in
      if issuer = [] then Inr None
      else or_fail (te_Required te ''OIDC_CLIENT_ID'') (\<lambda>cid.
           or_fail (te_Required te ''OIDC_CLIENT_SECRET'') (\<lambda>secret.
           or_fail (te_Required te ''OIDC_REDIRECT_URL'') (\<lambda>redirect.
             Inr (Some \<lparr>oi_Issuer = issuer, oi_ClientID = cid, oi_ClientSecret = secret,
               oi_RedirectURL = redirect, oi_SuccessURL = te_String te ''OIDC_SUCCESS_URL'' []\<rparr>)))))"

definition Load :: "tronc \<Rightarrow> string \<Rightarrow> env_error + Config" where
  "Load te dataDir =
     or_fail (te_Int te ''PORT'' DefaultPort) (\<lambda>port.
     if port < 1 \<or> 65535 < port then Inl (PortRange port)
     else or_fail (te_Bool te ''SSO_ONLY'' False) (\<lambda>ssoOnly.
     or_fail (te_TrustedProxies te) (\<lambda>trusted.
     case loadOIDC te of
       Inl e \<Rightarrow> Inl e
     | Inr oidc \<Rightarrow>
         (case loadEmbedding te of
            Inl e \<Rightarrow> Inl e
          | Inr embedding \<Rightarrow>
              let c = \<lparr>co_TrustedProxies = trusted, co_CDN = te_CDN te,
                       co_AppEnv = te_String te ''APP_ENV'' ''development'', co_Port = port,
                       co_LogLevel = te_String te ''LOG_LEVEL'' ''info'',
                       co_CORSAllowedOrigins = te_CORSOrigins te,
                       co_JournalURL = te_String te ''JOURNAL_URL'' [],
                       co_JournalToken = te_String te ''JOURNAL_TOKEN'' [],
                       co_DataDir = dataDir, co_Password = te_String te ''PASSWORD'' [],
                       co_SSOOnly = ssoOnly, co_OIDC = oidc, co_Embedding = embedding,
                       co_JournalBrowserURL = trim_suffix (te_String te ''JOURNAL_BROWSER_URL'' []) ''/'',
                       co_JournalBrowserKey = te_String te ''JOURNAL_BROWSER_KEY'' []\<rparr>
              in (case validateConfig te c of Some e \<Rightarrow> Inl e | None \<Rightarrow> Inr c)))))"

lemma or_fail_Inr: "or_fail x f = Inr y \<longleftrightarrow> (\<exists>v. x = Inr v \<and> f v = Inr y)"
  by (cases x) (simp_all add: or_fail_def)

lemma loadEmbedding_Inr:
  "loadEmbedding te = Inr (Some e) \<Longrightarrow>
   em_OllamaURL e \<noteq> [] \<and> (em_VectorStore e = VectorStoreFlat \<or>
     em_VectorStore e = VectorStoreQdrant \<and> em_QdrantURL e \<noteq> [])"
  by (auto simp: loadEmbedding_def Let_def split: if_splits)

text \<open>A configuration the server starts with leaves no caller undecided.\<close>

theorem loaded_config_checked:
  assumes "Load te d = Inr c"
  shows "1 \<le> co_Port c \<and> co_Port c \<le> 65535 \<and> (co_SSOOnly c \<longrightarrow> co_OIDC c \<noteq> None) \<and>
    (te_IsProduction te (co_AppEnv c) \<longrightarrow> co_Password c \<noteq> [] \<or> co_OIDC c \<noteq> None) \<and>
    (co_JournalBrowserURL c = [] \<longleftrightarrow> co_JournalBrowserKey c = []) \<and>
    (case co_Embedding c of None \<Rightarrow> True | Some e \<Rightarrow> em_VectorStore e = VectorStoreFlat \<or> em_QdrantURL e \<noteq> [])"
proof -
  obtain port sso trusted where port: "\<not> (port < 1 \<or> 65535 < port)" and
    rest: "(case loadOIDC te of Inl e \<Rightarrow> Inl e | Inr oidc \<Rightarrow> (case loadEmbedding te of Inl e \<Rightarrow> Inl e
       | Inr embedding \<Rightarrow> let c = \<lparr>co_TrustedProxies = trusted, co_CDN = te_CDN te,
           co_AppEnv = te_String te ''APP_ENV'' ''development'', co_Port = port,
           co_LogLevel = te_String te ''LOG_LEVEL'' ''info'', co_CORSAllowedOrigins = te_CORSOrigins te,
           co_JournalURL = te_String te ''JOURNAL_URL'' [], co_JournalToken = te_String te ''JOURNAL_TOKEN'' [],
           co_DataDir = d, co_Password = te_String te ''PASSWORD'' [], co_SSOOnly = sso, co_OIDC = oidc,
           co_Embedding = embedding,
           co_JournalBrowserURL = trim_suffix (te_String te ''JOURNAL_BROWSER_URL'' []) ''/'',
           co_JournalBrowserKey = te_String te ''JOURNAL_BROWSER_KEY'' []\<rparr>
         in (case validateConfig te c of Some e \<Rightarrow> Inl e | None \<Rightarrow> Inr c))) = Inr c"
    using assms unfolding Load_def or_fail_Inr by (auto simp only: or_fail_Inr split: if_splits)
  obtain oidc where o: "loadOIDC te = Inr oidc" using rest by (cases "loadOIDC te") auto
  obtain embedding where e: "loadEmbedding te = Inr embedding" using rest o by (cases "loadEmbedding te") auto
  have v: "validateConfig te c = None" and c: "co_Port c = port" "co_Embedding c = embedding"
    using rest unfolding o e Let_def sum.case by (auto split: option.splits)
  have p: "1 \<le> co_Port c" "co_Port c \<le> 65535" using port c(1) by simp_all
  have e: "loadEmbedding te = Inr (co_Embedding c)" using e c(2) by simp
  note e' = loadEmbedding_Inr [of te]
  show ?thesis
    using v p e e' by (cases "co_Embedding c") (auto simp: validateConfig_def split: if_splits)
qed

text \<open>Single sign-on without a password and with password logins left on is such a configuration.\<close>

theorem sso_without_password_starts:
  assumes "co_OIDC c \<noteq> None" and "co_Password c = []" and "\<not> co_SSOOnly c"
    and "co_JournalBrowserURL c = []" and "co_JournalBrowserKey c = []"
  shows "validateConfig te c = None"
  using assms by (simp add: validateConfig_def)

text \<open>Without \<open>OLLAMA_URL\<close> the other three settings are read and dropped, not refused.\<close>

theorem embedding_settings_dropped:
  "te_String te ''OLLAMA_URL'' [] = [] \<Longrightarrow> loadEmbedding te = Inr None"
  by (simp add: loadEmbedding_def Let_def)

subsection \<open>Client configuration\<close>

record ConsolidateConfig =
  cc_JudgeModel :: string
  cc_Enabled :: "bool option"

record MyceliumConfig =
  mc_Machine :: string
  mc_URL :: string
  mc_Token :: string
  mc_Space :: string
  mc_UsageToken :: string
  mc_VectorSearch :: bool
  mc_RuleOrder :: "string list"
  mc_Agents :: "string list"
  mc_Consolidate :: ConsolidateConfig

datatype config_file = NoFile | ReadError | ParseError | ConfigFile MyceliumConfig

text \<open>The process: its environment, home directory (empty when unknown), host name and config file.\<close>

record process =
  getenv :: "string \<Rightarrow> string"
  home_dir :: string
  hostname :: "string option"
  config_at :: "string \<Rightarrow> config_file"

definition env_value :: "process \<Rightarrow> string \<Rightarrow> string" where
  "env_value p key = trim_space (getenv p key)"

definition named_common :: "string \<Rightarrow> bool" where
  "named_common s \<longleftrightarrow> s = ''none'' \<or> s = ''common''"

definition SpaceID :: "process \<Rightarrow> MyceliumConfig \<Rightarrow> string" where
  "SpaceID p c =
     (let value = env_value p ''MYCELIUM_SPACE''
      in if value \<noteq> [] then (if named_common value then [] else value)
         else if named_common (mc_Space c) then [] else mc_Space c)"

definition SemanticEnabled :: "process \<Rightarrow> MyceliumConfig \<Rightarrow> bool" where
  "SemanticEnabled p c =
     (let value = env_value p ''MYCELIUM_VECTOR_SEARCH''
      in if value \<noteq> [] then value = ''1'' \<or> equal_fold value ''true'' else mc_VectorSearch c)"

definition JudgeModel :: "MyceliumConfig \<Rightarrow> string" where
  "JudgeModel c = trim_space (cc_JudgeModel (mc_Consolidate c))"

definition ConsolidateEnabled :: "MyceliumConfig \<Rightarrow> bool" where
  "ConsolidateEnabled c = (case cc_Enabled (mc_Consolidate c) of Some b \<Rightarrow> b | None \<Rightarrow> True)"

definition ServerURL :: "process \<Rightarrow> MyceliumConfig \<Rightarrow> string" where
  "ServerURL p c =
     (case filter (\<lambda>v. v \<noteq> []) (map (env_value p) [''MYCELIUM_URL'', ''MYCELIUM_SERVER_URL'']) of
        v # _ \<Rightarrow> trim_right (\<lambda>ch. ch = CHR ''/'') v
      | [] \<Rightarrow> mc_URL c)"

definition AuthToken :: "process \<Rightarrow> MyceliumConfig \<Rightarrow> string" where
  "AuthToken p c = (let value = env_value p ''MYCELIUM_TOKEN'' in if value \<noteq> [] then value else mc_Token c)"

definition DataDir :: "process \<Rightarrow> string" where
  "DataDir p = (if getenv p ''DATA_DIR'' \<noteq> [] then getenv p ''DATA_DIR''
                else path_Join [home_dir p, ''.mycelium''])"

definition ConfigPath :: "process \<Rightarrow> string" where
  "ConfigPath p = path_Join [home_dir p, ''.mycelium.yml'']"

definition MemoryDir :: "process \<Rightarrow> string" where "MemoryDir p = path_Join [DataDir p, ''memory'']"
definition RulesDir :: "process \<Rightarrow> string" where "RulesDir p = path_Join [DataDir p, ''rules'']"
definition SkillsDir :: "process \<Rightarrow> string" where "SkillsDir p = path_Join [DataDir p, ''skills'']"
definition FlowsDir :: "process \<Rightarrow> string" where "FlowsDir p = path_Join [DataDir p, ''flows'']"
definition RunsDir :: "process \<Rightarrow> string" where "RunsDir p = path_Join [DataDir p, ''runs'']"
definition ModelsDir :: "process \<Rightarrow> string" where
  "ModelsDir p = path_Join [DataDir p, ''extensions'', ''models'']"
definition SessionsDir :: "process \<Rightarrow> string" where "SessionsDir p = path_Join [DataDir p, ''sessions'']"
definition MachinesDir :: "process \<Rightarrow> string" where "MachinesDir p = path_Join [DataDir p, ''machines'']"

definition empty_config :: MyceliumConfig where
  "empty_config = \<lparr>mc_Machine = [], mc_URL = [], mc_Token = [], mc_Space = [], mc_UsageToken = [],
     mc_VectorSearch = False, mc_RuleOrder = [], mc_Agents = [],
     mc_Consolidate = \<lparr>cc_JudgeModel = [], cc_Enabled = None\<rparr>\<rparr>"

definition LoadMyceliumConfig :: "process \<Rightarrow> string + MyceliumConfig" where
  "LoadMyceliumConfig p =
     (case config_at p (ConfigPath p) of
        NoFile \<Rightarrow> Inr empty_config
      | ReadError \<Rightarrow> Inl (''failed to read '' @ ConfigPath p)
      | ParseError \<Rightarrow> Inl (''failed to parse '' @ ConfigPath p)
      | ConfigFile c \<Rightarrow> Inr c)"

definition MachineName :: "process \<Rightarrow> string" where
  "MachineName p =
     (let own = (case LoadMyceliumConfig p of Inr c \<Rightarrow> trim_space (mc_Machine c) | Inl _ \<Rightarrow> [])
      in if own \<noteq> [] then own
         else case hostname p of
                Some h \<Rightarrow> if h \<noteq> [] then h else ''unknown''
              | None \<Rightarrow> ''unknown'')"

text \<open>The name a claim and a commit are written under is never empty.\<close>

theorem MachineName_nonempty: "MachineName p \<noteq> []"
  by (simp add: MachineName_def Let_def split: option.split sum.split)

end
