(* ===== verification/FlowStore.thy ===== *)
theory FlowStore
  imports FlowRun EnvConfig
begin

text \<open>
  The files of the flows on one machine: \<open>internal/flow/store.go\<close>, \<open>trust.go\<close> and \<open>query.go\<close>.

  \<open>fd_files\<close> holds the regular files below the data directory by their path, \<open>fd_runs\<close> the artifacts of
  each directory below \<open>RunsDir\<close>, \<open>fd_subpaths\<close> the string entries of \<open>imports\<close> in the
  \<open>package.json\<close> of the models, \<open>fd_trust\<close> the pin file. A directory that does not exist reads like an
  empty one, which is what every caller makes of it. Each system call takes the next outcome of the
  script \<open>fd_ops\<close>. An artifact is the record it decodes to, or one that does not decode; that a record
  decodes to what was encoded is the contract of \<open>encoding/json\<close> for text that is UTF-8.
\<close>

datatype artifact = Artifact Run | BrokenArtifact

record flow_disk =
  fd_env :: process
  fd_files :: "(string, string) gomap"
  fd_runs :: "(string, (string, artifact) gomap) gomap"
  fd_subpaths :: "(string, string) gomap"
  fd_trust :: "(string, string) gomap json_file"
  fd_ops :: "outcome list"

datatype store_error =
    InvalidName string
  | NoSuchFlow string
  | StatFailed string
  | NoSuchFile string
  | ReadFailed string
  | Unparsable string flow_error
  | ListFailed string
  | BrokenFlows "store_error list"
  | CreateFailed string
  | WriteFailed string
  | SecureFailed string
  | PruneFailed string
  | InvalidArtifact string
  | NoSuchRun string string
  | NoRuns string
  | FlowExists string
  | TrustUnreadable
  | TrustCorrupt
  | TrustNotWritten

type_synonym 'a flow_io = "(store_error, 'a, flow_disk) io"

definition disk_op :: "flow_disk \<Rightarrow> outcome \<times> flow_disk" where
  "disk_op d = (case fd_ops d of [] \<Rightarrow> (Done, d) | o' # os \<Rightarrow> (o', d\<lparr>fd_ops := os\<rparr>))"

text \<open>A system call that changes nothing the model holds.\<close>

definition disk_call :: "store_error \<Rightarrow> unit flow_io" where
  "disk_call e d = (case disk_op d of (o', d) \<Rightarrow> (if o' = Done then Inr () else Inl e, d))"

definition read_file :: "string \<Rightarrow> string flow_io" where
  "read_file path d =
     (case disk_op d of (o', d) \<Rightarrow>
        (if o' \<noteq> Done then Inl (ReadFailed path)
         else case lookup (fd_files d) path of
                None \<Rightarrow> Inl (NoSuchFile path)
              | Some data \<Rightarrow> Inr data, d))"

definition stat_file :: "string \<Rightarrow> bool flow_io" where
  "stat_file path d =
     (case disk_op d of (o', d) \<Rightarrow>
        (if o' = Done then Inr (lookup (fd_files d) path \<noteq> None) else Inl (StatFailed path), d))"

text \<open>The names of the files in a directory, in the order \<open>os.ReadDir\<close> gives.\<close>

definition dir_names :: "string \<Rightarrow> (string, string) gomap \<Rightarrow> string list" where
  "dir_names dir files =
     sort (remdups (filter (\<lambda>n. CHR ''/'' \<notin> set n)
       (List.map_filter (\<lambda>p. cut_prefix p (dir @ ''/'')) (map_keys files))))"

subsection \<open>Flows: store.go\<close>

definition Extension :: string where "Extension = ''.yml''"
definition runExtension :: string where "runExtension = ''.json''"
definition RunRetention :: nat where "RunRetention = 50"

definition validName :: "string \<Rightarrow> store_error option" where
  "validName name =
     (if name = [] \<or> has_prefix name ''.'' \<or> name \<noteq> path_base (path_Clean name)
      then Some (InvalidName name) else None)"

definition check_name :: "string \<Rightarrow> unit flow_io" where
  "check_name name = (case validName name of Some e \<Rightarrow> io_fail e | None \<Rightarrow> io_return ())"

definition readFlow :: "(string \<Rightarrow> Flow option) \<Rightarrow> string \<Rightarrow> Flow flow_io" where
  "readFlow decode path =
     io_bind (read_file path) (\<lambda>data.
       case Parse decode path data of Inl e \<Rightarrow> io_fail (Unparsable path e) | Inr f \<Rightarrow> io_return f)"

definition flow_path :: "flow_disk \<Rightarrow> string \<Rightarrow> string" where
  "flow_path d name = path_Join [FlowsDir (fd_env d), name @ Extension]"

text \<open>The loop of \<open>List\<close>.\<close>

fun read_flows ::
  "(string \<Rightarrow> Flow option) \<Rightarrow> string list \<Rightarrow> Flow list \<Rightarrow> store_error list \<Rightarrow> flow_disk \<Rightarrow>
   (Flow list \<times> store_error list) \<times> flow_disk"
where
  "read_flows decode [] flows broken d = ((flows, broken), d)"
| "read_flows decode (entry # entries) flows broken d =
     (if path_ext entry \<noteq> Extension then read_flows decode entries flows broken d
      else case readFlow decode (path_Join [FlowsDir (fd_env d), entry]) d of
             (Inl e, d) \<Rightarrow> read_flows decode entries flows (broken @ [e]) d
           | (Inr f, d) \<Rightarrow> read_flows decode entries (flows @ [f]) broken d)"

definition List_flows :: "(string \<Rightarrow> Flow option) \<Rightarrow> flow_disk \<Rightarrow> (Flow list \<times> store_error option) \<times> flow_disk" where
  "List_flows decode d =
     (case disk_call (ListFailed (FlowsDir (fd_env d))) d of
        (Inl e, d) \<Rightarrow> (([], Some e), d)
      | (Inr _, d) \<Rightarrow>
          (case read_flows decode (dir_names (FlowsDir (fd_env d)) (fd_files d)) [] [] d of
             ((flows, broken), d) \<Rightarrow>
               ((sort_by (\<lambda>a b. f_Name a < f_Name b) flows,
                 if broken = [] then None else Some (BrokenFlows broken)), d)))"

definition Load :: "(string \<Rightarrow> Flow option) \<Rightarrow> string \<Rightarrow> Flow flow_io" where
  "Load decode name =
     io_then (check_name name)
       (io_bind (io_get (\<lambda>d. flow_path d name)) (\<lambda>path.
        io_bind (stat_file path) (\<lambda>there.
          if there then readFlow decode path else io_fail (NoSuchFlow name))))"

definition flow_template :: "string \<Rightarrow> string" where
  "flow_template name = str_join [newline]
     [''name: '' @ name,
      ''description: \"\"'',
      [],
      ''# Steps run in order through \"sh -c\". Keep \"run\" to a single invocation and put'',
      ''# any logic in a script, so a bashism cannot break one machine and not another.'',
      ''#'',
      ''# A step can read an earlier step's output. \"needs\" binds an environment'',
      ''# variable to \"<step>.<field>\", where field is stdout, stderr or exit_code:'',
      ''#'',
      ''#   - name: second'',
      ''#     needs:'',
      ''#       VALUE: first.stdout'',
      ''#     run: echo \"first said $VALUE\"'',
      ''steps:'',
      ''  - name: first'',
      ''    run: echo \"replace me\"'',
      []]"

definition put_file :: "string \<Rightarrow> string \<Rightarrow> flow_disk \<Rightarrow> flow_disk" where
  "put_file path data d = d\<lparr>fd_files := AList.update path data (fd_files d)\<rparr>"

text \<open>\<open>os.WriteFile\<close>: a write that breaks off leaves a file of what it had written.\<close>

definition write_file :: "string \<Rightarrow> string \<Rightarrow> unit flow_io" where
  "write_file path data d =
     (case disk_op d of (o', d) \<Rightarrow>
        (case o' of
           Done \<Rightarrow> (Inr (), put_file path data d)
         | Refused \<Rightarrow> (Inl (WriteFailed path), d)
         | Broken t \<Rightarrow> (Inl (WriteFailed path), put_file path t d)
         | Lost \<Rightarrow> (Inl (WriteFailed path), put_file path data d)))"

text \<open>\<open>Scaffold\<close> writes unless the check finds the file: a check that fails finds nothing.\<close>

definition Scaffold :: "string \<Rightarrow> string flow_io" where
  "Scaffold name =
     io_then (check_name name)
       (io_bind (io_get (\<lambda>d. flow_path d name)) (\<lambda>path d.
          case stat_file path d of
            (Inr True, d) \<Rightarrow> (Inl (FlowExists name), d)
          | (_, d) \<Rightarrow>
              io_then (disk_call (CreateFailed (FlowsDir (fd_env d))))
                (io_then (write_file path (flow_template name)) (io_return path)) d))"

subsection \<open>Runs: store.go\<close>

definition newRunID :: "instant \<Rightarrow> string" where
  "newRunID started = map (\<lambda>c. if c = CHR '':'' then CHR ''-'' else c) (format_rfc3339_nano started)"

definition newer :: "Run \<Rightarrow> Run \<Rightarrow> bool" where
  "newer a b =
     (if run_StartedAt a = run_StartedAt b then run_ID b < run_ID a
      else run_StartedAt b < run_StartedAt a)"

definition runs_in :: "flow_disk \<Rightarrow> string \<Rightarrow> (string, artifact) gomap" where
  "runs_in d name = get_or [] (fd_runs d) name"

definition put_runs :: "string \<Rightarrow> (string, artifact) gomap \<Rightarrow> flow_disk \<Rightarrow> flow_disk" where
  "put_runs name arts d = d\<lparr>fd_runs := AList.update name arts (fd_runs d)\<rparr>"

definition run_names :: "(string, artifact) gomap \<Rightarrow> string list" where
  "run_names arts = filter (\<lambda>n. path_ext n = runExtension) (sort (remdups (map_keys arts)))"

definition readRun :: "string \<Rightarrow> string \<Rightarrow> Run flow_io" where
  "readRun name base d =
     (case disk_op d of (o', d) \<Rightarrow>
        (if o' \<noteq> Done then Inl (ReadFailed base)
         else case lookup (runs_in d name) base of
                None \<Rightarrow> Inl (NoSuchFile base)
              | Some BrokenArtifact \<Rightarrow> Inl (InvalidArtifact base)
              | Some (Artifact r) \<Rightarrow> Inr (r\<lparr>run_ID := trim_suffix base (path_ext base)\<rparr>), d))"

text \<open>The loop of \<open>pruneRuns\<close> over the doomed.\<close>

fun remove_runs :: "string \<Rightarrow> string list \<Rightarrow> unit flow_io" where
  "remove_runs name [] = io_return ()"
| "remove_runs name (n # ns) =
     io_then (disk_call (PruneFailed n))
       (io_then (io_modify (\<lambda>d. put_runs name (AList.delete n (runs_in d name)) d)) (remove_runs name ns))"

definition pruneRuns :: "string \<Rightarrow> unit flow_io" where
  "pruneRuns name =
     io_then (disk_call (PruneFailed name))
       (io_bind (io_get (\<lambda>d. run_names (runs_in d name))) (\<lambda>artifacts.
          if length artifacts \<le> RunRetention then io_return ()
          else remove_runs name (drop RunRetention (sort_by (\<lambda>a b. b < a) artifacts))))"

definition put_run :: "string \<Rightarrow> string \<Rightarrow> artifact \<Rightarrow> flow_disk \<Rightarrow> flow_disk" where
  "put_run name base a d = put_runs name (AList.update base a (runs_in d name)) d"

text \<open>\<open>os.WriteFile\<close> of an artifact.\<close>

definition write_run :: "string \<Rightarrow> string \<Rightarrow> Run \<Rightarrow> unit flow_io" where
  "write_run name base r d =
     (case disk_op d of (o', d) \<Rightarrow>
        (case o' of
           Done \<Rightarrow> (Inr (), put_run name base (Artifact r) d)
         | Refused \<Rightarrow> (Inl (WriteFailed base), d)
         | Broken _ \<Rightarrow> (Inl (WriteFailed base), put_run name base BrokenArtifact d)
         | Lost \<Rightarrow> (Inl (WriteFailed base), put_run name base (Artifact r) d)))"

text \<open>\<open>os.MkdirAll\<close> leaves the directory there, with what it held.\<close>

definition make_run_dir :: "string \<Rightarrow> unit flow_io" where
  "make_run_dir name =
     io_then (disk_call (CreateFailed name)) (io_modify (\<lambda>d. put_runs name (runs_in d name) d))"

definition SaveRun :: "Run \<Rightarrow> string flow_io" where
  "SaveRun r =
     (let base = newRunID (run_StartedAt r) @ runExtension; saved = r\<lparr>run_ID := newRunID (run_StartedAt r)\<rparr> in
      io_then (check_name (run_Flow r))
        (io_then (make_run_dir (run_Flow r))
          (io_then (write_run (run_Flow r) base saved)
            (io_then (disk_call (SecureFailed base))
              (io_then (pruneRuns (run_Flow r))
                (io_get (\<lambda>d. path_Join [path_Join [RunsDir (fd_env d), run_Flow r], base])))))))"

text \<open>The loop of \<open>ListRuns\<close> returns at the first artifact it cannot read.\<close>

fun read_runs :: "string \<Rightarrow> string list \<Rightarrow> Run list flow_io" where
  "read_runs name [] = io_return []"
| "read_runs name (n # ns) =
     io_bind (readRun name n) (\<lambda>r. io_bind (read_runs name ns) (\<lambda>rs. io_return (r # rs)))"

definition limit_to :: "int \<Rightarrow> 'a list \<Rightarrow> 'a list" where
  "limit_to n xs = (if 0 < n \<and> n < int (length xs) then take (nat n) xs else xs)"

definition ListRuns :: "string \<Rightarrow> int \<Rightarrow> Run list flow_io" where
  "ListRuns name n =
     io_then (check_name name)
       (io_then (disk_call (ListFailed name))
         (io_bind (io_get (\<lambda>d. run_names (runs_in d name))) (\<lambda>names.
          io_bind (read_runs name names) (\<lambda>runs. io_return (limit_to n (sort_by newer runs))))))"

definition newestRun :: "string \<Rightarrow> Run flow_io" where
  "newestRun name =
     io_bind (ListRuns name 1) (\<lambda>runs. case runs of [] \<Rightarrow> io_fail (NoRuns name) | r # _ \<Rightarrow> io_return r)"

definition LoadRun :: "string \<Rightarrow> string \<Rightarrow> Run flow_io" where
  "LoadRun name runID =
     (if runID = [] then newestRun name
      else io_then (check_name name)
        (io_then (check_name runID)
          (io_then (disk_call (StatFailed runID))
            (io_bind (io_get (\<lambda>d. lookup (runs_in d name) (runID @ runExtension))) (\<lambda>found.
               if found = None then io_fail (NoSuchRun name runID)
               else readRun name (runID @ runExtension))))))"

subsection \<open>Search over every flow: query.go\<close>

record QueryOptions =
  qo_Flow :: string
  qo_Status :: string
  qo_Since :: instant
  qo_Limit :: int

definition run_matches :: "QueryOptions \<Rightarrow> Run \<Rightarrow> bool" where
  "run_matches opts r =
     ((qo_Status opts = [] \<or> equal_fold (run_Status r) (qo_Status opts)) \<and>
      (qo_Since opts = zero_time \<or> \<not> run_StartedAt r < qo_Since opts))"

definition flowsWithRuns :: "string list flow_io" where
  "flowsWithRuns =
     io_then (disk_call (ListFailed ''runs'')) (io_get (\<lambda>d. sort (remdups (map_keys (fd_runs d)))))"

text \<open>The loop of \<open>Query\<close>.\<close>

fun query_flows :: "QueryOptions \<Rightarrow> string list \<Rightarrow> Run list flow_io" where
  "query_flows opts [] = io_return []"
| "query_flows opts (name # names) =
     (if qo_Flow opts \<noteq> [] \<and> name \<noteq> qo_Flow opts then query_flows opts names
      else io_bind (ListRuns name (int RunRetention)) (\<lambda>runs.
        io_bind (query_flows opts names) (\<lambda>found. io_return (filter (run_matches opts) runs @ found))))"

definition Query :: "QueryOptions \<Rightarrow> Run list flow_io" where
  "Query opts =
     io_bind flowsWithRuns (\<lambda>names. io_bind (query_flows opts names) (\<lambda>found.
       io_return (limit_to (qo_Limit opts)
         (sort_by (\<lambda>a b. run_StartedAt b < run_StartedAt a) found))))"

subsection \<open>Pins: trust.go\<close>

definition readTrust :: "(string, string) gomap flow_io" where
  "readTrust d =
     (case disk_op d of (o', d) \<Rightarrow>
        (if o' \<noteq> Done then Inl TrustUnreadable
         else case fd_trust d of
                Absent \<Rightarrow> Inr []
              | Corrupt \<Rightarrow> Inl TrustCorrupt
              | Stored pins \<Rightarrow> Inr pins, d))"

text \<open>\<open>writeTrust\<close> writes a file beside the store, which may fail, and renames it over the store.\<close>

definition writeTrust :: "(string, string) gomap \<Rightarrow> unit flow_io" where
  "writeTrust pins =
     io_then (disk_call TrustNotWritten) (\<lambda>d.
       case disk_op d of (o', d) \<Rightarrow>
         (if o' = Done then Inr () else Inl TrustNotWritten,
          if o' = Done \<or> o' = Lost then d\<lparr>fd_trust := Stored pins\<rparr> else d))"

definition TrustedChecksum :: "string \<Rightarrow> string flow_io" where
  "TrustedChecksum name = io_bind readTrust (\<lambda>pins. io_return (get_or [] pins name))"

definition IsTrusted :: "Flow \<Rightarrow> bool flow_io" where
  "IsTrusted f =
     io_bind (TrustedChecksum (f_Name f)) (\<lambda>pinned. io_return (pinned \<noteq> [] \<and> pinned = f_Checksum f))"

datatype trust_state = TrustTrusted | TrustNotPinned | TrustChanged | TrustUnknown

definition TrustState :: "Flow \<Rightarrow> flow_disk \<Rightarrow> trust_state \<times> flow_disk" where
  "TrustState f d =
     (case TrustedChecksum (f_Name f) d of
        (Inl _, d) \<Rightarrow> (TrustUnknown, d)
      | (Inr pinned, d) \<Rightarrow>
          (if pinned = [] then TrustNotPinned
           else if pinned = f_Checksum f then TrustTrusted else TrustChanged, d))"

definition Trust :: "Flow \<Rightarrow> unit flow_io" where
  "Trust f = io_bind readTrust (\<lambda>pins. writeTrust (AList.update (f_Name f) (f_Checksum f) pins))"

definition Untrust :: "string \<Rightarrow> unit flow_io" where
  "Untrust name =
     io_bind readTrust (\<lambda>pins.
       if lookup pins name = None then io_return () else writeTrust (AList.delete name pins))"

end
