(* ===== verification/FlowModels.thy ===== *)
theory FlowModels
  imports FlowStore
begin

text \<open>
  The extensions that run typed steps: \<open>internal/flow/model.go\<close> and \<open>modelsource.go\<close>, and the part of
  \<open>trust.go\<close> that asks whether a pin still has a file. The runtime that executes an extension is another
  program: what it answers to \<open>describe\<close>, and whether that is JSON, is the parameter \<open>ask\<close>. A Go map is
  iterated in the order of its list; \<open>SlicePanic\<close> is a slice expression out of range, which ends the
  process.
\<close>

datatype model_error =
    BadModelType string
  | OutsideRoot string
  | NoSuchModel string
  | ModelUntrusted string
  | ModelChanged string
  | ImportOutside string string
  | SlicePanic
  | OutOfFuel
  | SourceError store_error
  | NotDescribed string
  | ArgumentMissing string string
  | ArgumentKind string string
  | ArgumentEnum string string
  | ArgumentUnknown string string

type_synonym 'a model_io = "(model_error, 'a, flow_disk) io"

definition store_io :: "'a flow_io \<Rightarrow> 'a model_io" where
  "store_io m d = (case m d of (Inl e, d) \<Rightarrow> (Inl (SourceError e), d) | (Inr x, d) \<Rightarrow> (Inr x, d))"

definition modelPin :: string where "modelPin = ''model:''"
definition modelExt :: string where "modelExt = ''.ts''"

definition ModelPath :: "process \<Rightarrow> string \<Rightarrow> model_error + string" where
  "ModelPath p typeName =
     (let clean = trim_prefix typeName ''@''
      in if clean = [] \<or> has_prefix clean ''/'' \<or> str_contains clean ''..'' then Inl (BadModelType typeName)
         else let root = ModelsDir p; full = path_Join [root, clean @ modelExt]
              in if \<not> has_prefix full (root @ ''/'') then Inl (OutsideRoot typeName) else Inr full)"

subsection \<open>The imports of a file: modelsource.go\<close>

definition word_byte :: "char \<Rightarrow> bool" where
  "word_byte c \<longleftrightarrow> is_lower c \<or> is_upper c \<or> is_digit c \<or> c = CHR ''_''"

definition quote_byte :: "char \<Rightarrow> bool" where
  "quote_byte c \<longleftrightarrow> c = dquote \<or> c = CHR 39 \<or> c = backquote"

text \<open>The white space of \<open>regexp\<close>, which is without the vertical tab.\<close>

definition regexp_space :: "char \<Rightarrow> bool" where
  "regexp_space c \<longleftrightarrow> c \<in> set [CHR 9, CHR 10, CHR 12, CHR 13, CHR 32]"

definition skip_space :: "string \<Rightarrow> string" where
  "skip_space s = dropWhile regexp_space s"

text \<open>A quoted string at the front: what it holds and what follows.\<close>

definition quoted :: "string \<Rightarrow> (string \<times> string) option" where
  "quoted s =
     (if s = [] \<or> \<not> quote_byte (hd s) then None
      else let body = takeWhile (\<lambda>c. \<not> quote_byte c) (tl s); rest = dropWhile (\<lambda>c. \<not> quote_byte c) (tl s)
           in if body = [] \<or> rest = [] then None else Some (body, tl rest))"

fun after_word :: "string list \<Rightarrow> string \<Rightarrow> string option" where
  "after_word [] s = None"
| "after_word (w # ws) s = (case cut_prefix s w of Some r \<Rightarrow> Some r | None \<Rightarrow> after_word ws s)"

text \<open>The two alternatives of \<open>importSpecifier\<close>, at a word boundary.\<close>

definition call_specifier :: "string \<Rightarrow> (string \<times> string) option" where
  "call_specifier s =
     (case after_word [''import'', ''require''] s of
        None \<Rightarrow> None
      | Some r \<Rightarrow>
          (case cut_prefix (skip_space r) ''('' of
             None \<Rightarrow> None
           | Some r \<Rightarrow>
               (case quoted (skip_space r) of
                  None \<Rightarrow> None
                | Some (spec, r) \<Rightarrow>
                    map_option (\<lambda>r. (spec, r)) (cut_prefix (skip_space r) '')''))))"

definition statement_byte :: "char \<Rightarrow> bool" where
  "statement_byte c \<longleftrightarrow> \<not> quote_byte c \<and> c \<notin> set ''();''"

definition statement_specifier :: "string \<Rightarrow> (string \<times> string) option" where
  "statement_specifier s =
     (case after_word [''import'', ''export''] s of
        None \<Rightarrow> None
      | Some r \<Rightarrow>
          if r \<noteq> [] \<and> word_byte (hd r) then None else quoted (dropWhile statement_byte r))"

definition match_specifier :: "char option \<Rightarrow> string \<Rightarrow> (string \<times> string) option" where
  "match_specifier prev s =
     (if (case prev of None \<Rightarrow> False | Some c \<Rightarrow> word_byte c) then None
      else case call_specifier s of Some m \<Rightarrow> Some m | None \<Rightarrow> statement_specifier s)"

lemma cut_prefix_length: "cut_prefix s p = Some r \<Longrightarrow> length s = length p + length r"
  by (auto simp: cut_prefix_def has_prefix_iff split: if_splits)

lemma quoted_length:
  assumes "quoted s = Some (b, r)"
  shows "length r < length s"
proof -
  have r: "s \<noteq> []" "r = tl (dropWhile (\<lambda>c. \<not> quote_byte c) (tl s))"
    using assms by (auto simp: quoted_def Let_def split: if_splits)
  show ?thesis
    using r(1) length_dropWhile_le [of "\<lambda>c. \<not> quote_byte c" "tl s"] unfolding r(2) by (cases s) auto
qed

lemma skip_space_length: "length (skip_space s) \<le> length s"
  by (simp add: skip_space_def length_dropWhile_le)

lemma after_word_length: "after_word ws s = Some r \<Longrightarrow> length r \<le> length s"
  by (induction ws) (auto split: option.splits dest: cut_prefix_length)

lemma call_specifier_length: "call_specifier s = Some (spec, r) \<Longrightarrow> length r < length s"
proof -
  assume m: "call_specifier s = Some (spec, r)"
  obtain r1 r2 r3 where "after_word [''import'', ''require''] s = Some r1"
    "cut_prefix (skip_space r1) ''('' = Some r2" "quoted (skip_space r2) = Some (spec, r3)"
    "cut_prefix (skip_space r3) '')'' = Some r"
    using m unfolding call_specifier_def by (auto split: option.splits)
  then have "length r1 \<le> length s" "length r2 \<le> length (skip_space r1)"
    "length r3 < length (skip_space r2)" "length r \<le> length (skip_space r3)"
    by (auto simp del: after_word.simps dest: after_word_length cut_prefix_length quoted_length)
  then show ?thesis
    using skip_space_length [of r1] skip_space_length [of r2] skip_space_length [of r3] by linarith
qed

lemma statement_specifier_length:
  "statement_specifier s = Some (spec, r) \<Longrightarrow> length r < length s"
proof -
  assume m: "statement_specifier s = Some (spec, r)"
  obtain r1 where "after_word [''import'', ''export''] s = Some r1"
    "quoted (dropWhile statement_byte r1) = Some (spec, r)"
    using m unfolding statement_specifier_def by (auto split: option.splits if_splits)
  then show ?thesis
    using after_word_length quoted_length length_dropWhile_le by (meson less_le_trans)
qed

lemma match_specifier_length: "match_specifier prev s = Some (spec, r) \<Longrightarrow> length r < length s"
  by (auto simp: match_specifier_def split: if_splits option.splits
      dest: call_specifier_length statement_specifier_length)

function specifiers_from :: "char option \<Rightarrow> string \<Rightarrow> string list" where
  "specifiers_from prev [] = []"
| "specifiers_from prev (c # s) =
     (case match_specifier prev (c # s) of
        None \<Rightarrow> specifiers_from (Some c) s
      | Some (spec, r) \<Rightarrow> spec # specifiers_from (Some ((c # s) ! (length s - length r))) r)"
  by pat_completeness auto
termination
  by (relation "measure (\<lambda>(p, s). length s)") (auto dest: match_specifier_length)

definition specifiers :: "string \<Rightarrow> string list" where
  "specifiers src = specifiers_from None src"

definition matches_star :: "string \<Rightarrow> string \<Rightarrow> nat \<Rightarrow> bool" where
  "matches_star spec pattern star \<longleftrightarrow>
     has_prefix spec (take star pattern) \<and> has_suffix spec (drop (star + 1) pattern)"

text \<open>The loop of \<open>matchSubpath\<close> over the patterns.\<close>

fun match_patterns :: "string \<Rightarrow> (string, string) gomap \<Rightarrow> model_error + string option" where
  "match_patterns spec [] = Inr None"
| "match_patterns spec ((pattern, target) # rest) =
     (case str_index pattern ''*'' of
        None \<Rightarrow> match_patterns spec rest
      | Some star \<Rightarrow>
          if \<not> matches_star spec pattern star then match_patterns spec rest
          else let upto = length spec + star + 1 - length pattern
               in if length spec + 1 < length pattern then Inl SlicePanic
                  else let captured = take (upto - star) (drop star spec)
                       in Inr (Some (case str_cut target ''*'' of
                                       None \<Rightarrow> target
                                     | Some (before, behind) \<Rightarrow> before @ captured @ behind)))"

definition matchSubpath :: "string \<Rightarrow> (string, string) gomap \<Rightarrow> model_error + string option" where
  "matchSubpath spec imports =
     (case lookup imports spec of Some target \<Rightarrow> Inr (Some target) | None \<Rightarrow> match_patterns spec imports)"

fun first_file :: "string list \<Rightarrow> flow_disk \<Rightarrow> string option \<times> flow_disk" where
  "first_file [] d = (None, d)"
| "first_file (c # cs) d =
     (case stat_file (path_Clean c) d of (Inr True, d) \<Rightarrow> (Some c, d) | (_, d) \<Rightarrow> first_file cs d)"

definition existingFile :: "string \<Rightarrow> flow_disk \<Rightarrow> string option \<times> flow_disk" where
  "existingFile base = first_file [base, base @ modelExt, path_Join [base, ''index'' @ modelExt]]"

text \<open>\<open>filepath.Rel\<close> of two absolute paths.\<close>

definition path_segments :: "string \<Rightarrow> string list" where
  "path_segments p = clean_steps (has_prefix p ''/'') [] (split_on CHR ''/'' p)"

fun rel_segments :: "string list \<Rightarrow> string list \<Rightarrow> string list" where
  "rel_segments (b # bs) (t # ts) =
     (if b = t then rel_segments bs ts else replicate (length (b # bs)) ''..'' @ t # ts)"
| "rel_segments bs ts = replicate (length bs) ''..'' @ ts"

definition path_Rel :: "string \<Rightarrow> string \<Rightarrow> string" where
  "path_Rel root path =
     (let segs = rel_segments (path_segments root) (path_segments path)
      in if segs = [] then ''.'' else str_join ''/'' segs)"

definition within :: "string \<Rightarrow> string \<Rightarrow> bool" where
  "within path root = (let rel = path_Rel root path in rel \<noteq> ''..'' \<and> \<not> has_prefix rel ''../'')"

definition path_dir :: "string \<Rightarrow> string" where
  "path_dir p =
     (case last_index_byte p (\<lambda>c. c = CHR ''/'') of None \<Rightarrow> ''.'' | Some i \<Rightarrow> path_Clean (take (i + 1) p))"

definition import_candidate ::
  "string \<Rightarrow> string \<Rightarrow> string \<Rightarrow> (string, string) gomap \<Rightarrow> model_error + string option" where
  "import_candidate fromDir spec root imports =
     (if has_prefix spec ''#'' then
        (case matchSubpath spec imports of
           Inl e \<Rightarrow> Inl e
         | Inr None \<Rightarrow> Inr None
         | Inr (Some target) \<Rightarrow> Inr (Some (path_Join [root, trim_prefix target ''./''])))
      else if has_prefix spec ''./'' \<or> has_prefix spec ''../'' then Inr (Some (path_Join [fromDir, spec]))
      else if has_prefix spec ''/'' then Inr (Some spec)
      else Inr None)"

definition resolveImport ::
  "string \<Rightarrow> string \<Rightarrow> string \<Rightarrow> (string, string) gomap \<Rightarrow> string option model_io" where
  "resolveImport fromDir spec root imports d =
     (case import_candidate fromDir spec root imports of
        Inl e \<Rightarrow> (Inl e, d)
      | Inr None \<Rightarrow> (Inr None, d)
      | Inr (Some candidate) \<Rightarrow>
          (case existingFile candidate d of
             (None, d) \<Rightarrow> (Inr None, d)
           | (Some found, d) \<Rightarrow>
               (if within found root then Inr (Some found) else Inl (ImportOutside spec found), d)))"

record ModelSource =
  ms_Rel :: string
  ms_Path :: string
  ms_Data :: string

text \<open>The loop of \<open>readSource\<close> over the specifiers of a file.\<close>

fun resolve_all :: "string \<Rightarrow> string \<Rightarrow> (string, string) gomap \<Rightarrow> string list \<Rightarrow> string list model_io" where
  "resolve_all fromDir root imports [] = io_return []"
| "resolve_all fromDir root imports (spec # specs) =
     io_bind (resolveImport fromDir spec root imports) (\<lambda>found.
       io_bind (resolve_all fromDir root imports specs) (\<lambda>rest.
         io_return (case found of None \<Rightarrow> rest | Some p \<Rightarrow> p # rest)))"

definition readSource ::
  "string \<Rightarrow> string \<Rightarrow> (string, string) gomap \<Rightarrow> (ModelSource \<times> string list) model_io" where
  "readSource path root imports =
     io_bind (store_io (read_file (path_Clean path))) (\<lambda>data.
       io_bind (resolve_all (path_dir path) root imports (specifiers data)) (\<lambda>imported.
         io_return (\<lparr>ms_Rel = path_Rel root path, ms_Path = path, ms_Data = data\<rparr>, imported)))"

text \<open>
  The loop of \<open>ModelSources\<close>. A path that was seen is dropped as it comes off the queue; the first
  argument bounds the files read.
\<close>

fun sources_loop ::
  "nat \<Rightarrow> string \<Rightarrow> (string, string) gomap \<Rightarrow> string list \<Rightarrow> string list \<Rightarrow> ModelSource list model_io"
where
  "sources_loop n root imports seen queue d =
     (case dropWhile (\<lambda>p. p \<in> set seen) queue of
        [] \<Rightarrow> (Inr [], d)
      | path # rest \<Rightarrow>
          (case n of
             0 \<Rightarrow> (Inl OutOfFuel, d)
           | Suc n \<Rightarrow>
               io_bind (readSource path root imports) (\<lambda>(src, imported).
                 io_bind (sources_loop n root imports (path # seen) (rest @ imported)) (\<lambda>out.
                   io_return (src # out))) d))"

declare sources_loop.simps [simp del]

text \<open>Every file can be named by the absolute specifiers of the files and by its own path.\<close>

definition sources_bound :: "flow_disk \<Rightarrow> nat" where
  "sources_bound d = 1 + length (fd_files d) + 3 * length (concat (map (\<lambda>(p, data). specifiers data) (fd_files d)))"

definition ModelSources :: "string \<Rightarrow> ModelSource list model_io" where
  "ModelSources entry d =
     (let (subpaths, d) = (case disk_op d of (o', d) \<Rightarrow> (if o' = Done then fd_subpaths d else [], d))
      in io_bind (sources_loop (sources_bound d) (ModelsDir (fd_env d)) subpaths [] [entry])
           (\<lambda>out. io_return (take 1 out @ sort_by (\<lambda>a b. ms_Rel a < ms_Rel b) (drop 1 out))) d)"

definition source_bytes :: "ModelSource \<Rightarrow> string" where
  "source_bytes s = ms_Rel s @ [CHR 0x00] @ itoa (int (length (ms_Data s))) @ [CHR 0x00] @ ms_Data s"

definition checksumSources :: "ModelSource list \<Rightarrow> string" where
  "checksumSources sources = ''sha256:'' @ sha256_hex (concat (map source_bytes sources))"

subsection \<open>Models and their pins: model.go\<close>

record Model =
  md_Type :: string
  md_Path :: string
  md_Checksum :: string
  md_Sources :: "ModelSource list"

record Argument =
  ar_Type :: string
  ar_Required :: bool
  ar_Enum :: "string list"

record Schema =
  sc_Type :: string
  sc_Arguments :: "(string, Argument) gomap"

text \<open>\<open>os.IsNotExist\<close> asks about any file of the closure, and so does the message.\<close>

definition InspectModel :: "string \<Rightarrow> Model model_io" where
  "InspectModel typeName d =
     (case ModelPath (fd_env d) typeName of
        Inl e \<Rightarrow> (Inl e, d)
      | Inr path \<Rightarrow>
          (case ModelSources path d of
             (Inl (SourceError (NoSuchFile _)), d) \<Rightarrow> (Inl (NoSuchModel typeName), d)
           | (Inl e, d) \<Rightarrow> (Inl e, d)
           | (Inr sources, d) \<Rightarrow>
               (Inr \<lparr>md_Type = typeName, md_Path = path, md_Checksum = checksumSources sources,
                     md_Sources = sources\<rparr>, d)))"

definition LoadModel :: "string \<Rightarrow> Model model_io" where
  "LoadModel typeName =
     io_bind (InspectModel typeName) (\<lambda>m.
       io_bind (store_io (TrustedChecksum (modelPin @ typeName))) (\<lambda>pinned.
         if pinned = [] then io_fail (ModelUntrusted typeName)
         else if pinned \<noteq> md_Checksum m then io_fail (ModelChanged typeName)
         else io_return m))"

definition TrustModel :: "Model \<Rightarrow> unit flow_io" where
  "TrustModel m =
     io_bind readTrust (\<lambda>pins. writeTrust (AList.update (modelPin @ md_Type m) (md_Checksum m) pins))"

definition checkEnum :: "Argument \<Rightarrow> string \<Rightarrow> string \<Rightarrow> string \<Rightarrow> model_error option" where
  "checkEnum a step name val =
     (if ar_Enum a = [] \<or> val \<in> set (ar_Enum a) then None else Some (ArgumentEnum step name))"

definition check_argument :: "Argument \<Rightarrow> string \<Rightarrow> string \<Rightarrow> yaml_value \<Rightarrow> model_error option" where
  "check_argument a step name v =
     (if ar_Type a = ''string'' then
        (case v of YString text \<Rightarrow> checkEnum a step name text | _ \<Rightarrow> Some (ArgumentKind step name))
      else if ar_Type a = ''number'' then
        (if v = YFloat \<or> v = YInt then None else Some (ArgumentKind step name))
      else if ar_Type a = ''boolean'' then
        (if v = YBool then None else Some (ArgumentKind step name))
      else None)"

definition ValidateArguments :: "Schema \<Rightarrow> string \<Rightarrow> (string, yaml_value) gomap \<Rightarrow> model_error option" where
  "ValidateArguments s step given =
     and_then
       (first_error (\<lambda>(name, arg).
            case lookup given name of
              None \<Rightarrow> if ar_Required arg then Some (ArgumentMissing step name) else None
            | Some v \<Rightarrow> check_argument arg step name v)
          (sc_Arguments s))
       (first_error (\<lambda>name.
            if lookup (sc_Arguments s) name = None then Some (ArgumentUnknown step name) else None)
          (map_keys given))"

definition resolveModel :: "(Model \<Rightarrow> Schema option) \<Rightarrow> Flow \<Rightarrow> string \<Rightarrow> Model model_io" where
  "resolveModel ask f typeName =
     io_bind (LoadModel typeName) (\<lambda>m.
       case ask m of
         None \<Rightarrow> io_fail (NotDescribed typeName)
       | Some schema \<Rightarrow>
           (case first_error (\<lambda>step. ValidateArguments schema (s_Name step) (s_With step))
                   (filter (\<lambda>step. s_Type step = typeName) (f_Steps f)) of
              Some e \<Rightarrow> io_fail e
            | None \<Rightarrow> io_return m))"

text \<open>The loop of \<open>preflight\<close>.\<close>

fun preflight_steps ::
  "(Model \<Rightarrow> Schema option) \<Rightarrow> Flow \<Rightarrow> Step list \<Rightarrow> (string, Model) gomap \<Rightarrow> (string, Model) gomap model_io"
where
  "preflight_steps ask f [] models = io_return models"
| "preflight_steps ask f (step # steps) models =
     (if s_Type step = [] \<or> lookup models (s_Type step) \<noteq> None then preflight_steps ask f steps models
      else io_bind (resolveModel ask f (s_Type step)) (\<lambda>m.
        preflight_steps ask f steps (AList.update (s_Type step) m models)))"

definition preflight :: "(Model \<Rightarrow> Schema option) \<Rightarrow> Flow \<Rightarrow> (string, Model) gomap model_io" where
  "preflight ask f = preflight_steps ask f (f_Steps f) []"

subsection \<open>Pins without a file: trust.go\<close>

definition pin_path :: "process \<Rightarrow> string \<Rightarrow> string option" where
  "pin_path p pin =
     (case cut_prefix pin modelPin of
        Some name \<Rightarrow> (case ModelPath p name of Inl _ \<Rightarrow> None | Inr path \<Rightarrow> Some path)
      | None \<Rightarrow> Some (path_Join [FlowsDir p, pin @ Extension]))"

definition pinStillHasAFile :: "string \<Rightarrow> flow_disk \<Rightarrow> bool \<times> flow_disk" where
  "pinStillHasAFile pin d =
     (case pin_path (fd_env d) pin of
        None \<Rightarrow> (False, d)
      | Some path \<Rightarrow> (case stat_file path d of (r, d) \<Rightarrow> (r = Inr True, d)))"

text \<open>The loop of \<open>Prune\<close>.\<close>

fun prune_pins ::
  "string list \<Rightarrow> (string, string) gomap \<Rightarrow> nat \<Rightarrow> flow_disk \<Rightarrow> ((string, string) gomap \<times> nat) \<times> flow_disk"
where
  "prune_pins [] pins removed d = ((pins, removed), d)"
| "prune_pins (name # names) pins removed d =
     (case pinStillHasAFile name d of (there, d) \<Rightarrow>
        if there then prune_pins names pins removed d
        else prune_pins names (AList.delete name pins) (removed + 1) d)"

definition Prune :: "nat flow_io" where
  "Prune =
     io_bind readTrust (\<lambda>pins d.
       case prune_pins (remdups (map_keys pins)) pins 0 d of ((kept, removed), d) \<Rightarrow>
         if removed = 0 then (Inr 0, d)
         else io_then (writeTrust kept) (io_return removed) d)"

subsection \<open>One execution: run.go\<close>

text \<open>\<open>Execute\<close> with its \<open>preflight\<close> on the disk.\<close>

definition Execute_flow ::
  "(Model \<Rightarrow> Schema option) \<Rightarrow> Flow \<Rightarrow> string \<Rightarrow> string \<Rightarrow> int \<Rightarrow> string list \<Rightarrow> bool \<Rightarrow> run_event list \<Rightarrow>
   instant \<Rightarrow> flow_disk \<Rightarrow> Run option \<times> flow_disk"
where
  "Execute_flow ask f machine dir limit environ live events start d =
     (case preflight ask f d of (r, d) \<Rightarrow>
        (Execute f machine dir limit environ live (isl r) events start, d))"

end
