(* ===== verification/FlowCommands.thy ===== *)
theory FlowCommands
  imports FlowModels
begin

text \<open>
  The commands and tools that list, approve and run flows: \<open>cmd/flow.go\<close> with the confirmations of
  \<open>cmd/flow_render.go\<close>, and \<open>internal/mcpserver/flows.go\<close>. What is printed is not modelled, except the
  bytes a person is shown before approving them. \<open>runtime\<close> holds what a command takes from its process:
  the YAML decoder, the answers of the models, the working directory, the environment, the behaviour of
  the commands run and the clock; \<open>terminal\<close> is the person at it.
\<close>

record runtime =
  rt_decode :: "string \<Rightarrow> Flow option"
  rt_ask :: "Model \<Rightarrow> Schema option"
  rt_getwd :: "string option"
  rt_environ :: "string list"
  rt_events :: "run_event list"
  rt_start :: instant

record terminal =
  tt_yes :: bool
  tt_interactive :: bool
  tt_answer :: string
  tt_broken :: bool

datatype command_error =
    StoreError store_error
  | ModelError model_error
  | NotTrusted string
  | NoWorkDir
  | EndedAs string string
  | StoppedShort
  | Unreviewed string
  | NoAnswer
  | NotPinned string
  | PinsUnreadable string
  | NeverApproved string
  | ChangedSince string

subsection \<open>Running a flow\<close>

text \<open>What both ways of running a flow share once it is trusted.\<close>

definition execute_here ::
  "runtime \<Rightarrow> bool \<Rightarrow> string \<Rightarrow> Flow \<Rightarrow> flow_disk \<Rightarrow> Run option \<times> flow_disk" where
  "execute_here rt live dir f d =
     Execute_flow (rt_ask rt) f (MachineName (fd_env d)) dir 0 (rt_environ rt) live (rt_events rt) (rt_start rt) d"

definition reportRun :: "Run \<Rightarrow> command_error option" where
  "reportRun r = (if run_Status r = StatusOK then None else Some (EndedAs (run_Flow r) (run_Status r)))"

text \<open>
  \<open>mycelium flow run\<close>: the record of the execution, if there was one, and the error. \<open>refuseUntrusted\<close>
  reads the pins again for its message.
\<close>

definition flowRun :: "runtime \<Rightarrow> string \<Rightarrow> flow_disk \<Rightarrow> (Run option \<times> command_error option) \<times> flow_disk" where
  "flowRun rt name d =
     (case Load (rt_decode rt) name d of
        (Inl e, d) \<Rightarrow> ((None, Some (StoreError e)), d)
      | (Inr f, d) \<Rightarrow>
          (case IsTrusted f d of
             (Inl e, d) \<Rightarrow> ((None, Some (StoreError e)), d)
           | (Inr False, d) \<Rightarrow>
               (case TrustedChecksum (f_Name f) d of
                  (Inl e, d) \<Rightarrow> ((None, Some (StoreError e)), d)
                | (Inr _, d) \<Rightarrow> ((None, Some (NotTrusted (f_Name f))), d))
           | (Inr True, d) \<Rightarrow>
               (case rt_getwd rt of
                  None \<Rightarrow> ((None, Some NoWorkDir), d)
                | Some dir \<Rightarrow>
                    (case execute_here rt True dir f d of
                       (None, d) \<Rightarrow> ((None, Some StoppedShort), d)
                     | (Some r, d) \<Rightarrow>
                         (case SaveRun r d of
                            (Inl e, d) \<Rightarrow> ((Some r, Some (StoreError e)), d)
                          | (Inr _, d) \<Rightarrow> ((Some r, reportRun r), d))))))"

text \<open>\<open>untrusted\<close> explains a refusal to a model; it reads the pins again.\<close>

definition untrusted :: "Flow \<Rightarrow> store_error option \<Rightarrow> flow_disk \<Rightarrow> command_error \<times> flow_disk" where
  "untrusted f cause d =
     (case TrustedChecksum (f_Name f) d of
        (Inl _, d) \<Rightarrow> (PinsUnreadable (f_Name f), d)
      | (Inr pinned, d) \<Rightarrow>
          (if cause \<noteq> None then PinsUnreadable (f_Name f)
           else if pinned = [] then NeverApproved (f_Name f)
           else ChangedSince (f_Name f), d))"

record stepOutcome =
  so_Name :: string
  so_ExitCode :: int
  so_DurationMS :: int
  so_Stdout :: string
  so_Stderr :: step_text
  so_TimedOut :: bool
  so_Skipped :: bool
  so_NotStarted :: bool

record runFlowOutput =
  ro_Flow :: string
  ro_Status :: string
  ro_Artifact :: string
  ro_Recorded :: "store_error option"
  ro_Steps :: "stepOutcome list"

definition step_outcome_of :: "StepResult \<Rightarrow> stepOutcome" where
  "step_outcome_of s =
     \<lparr>so_Name = sr_Name s, so_ExitCode = sr_ExitCode s, so_DurationMS = sr_DurationMS s,
      so_Stdout = sr_Stdout s, so_Stderr = sr_Stderr s, so_TimedOut = sr_TimedOut s,
      so_Skipped = sr_Skipped s, so_NotStarted = sr_NotStarted s\<rparr>"

text \<open>\<open>runOutput\<close>; \<open>ro_Recorded\<close> is the part of the note that says the run was not recorded.\<close>

definition runOutput :: "Run \<Rightarrow> store_error + string \<Rightarrow> runFlowOutput" where
  "runOutput r saved =
     \<lparr>ro_Flow = run_Flow r, ro_Status = run_Status r,
      ro_Artifact = (case saved of Inl _ \<Rightarrow> [] | Inr path \<Rightarrow> path),
      ro_Recorded = (case saved of Inl e \<Rightarrow> Some e | Inr _ \<Rightarrow> None),
      ro_Steps = map step_outcome_of (run_Steps r)\<rparr>"

text \<open>The tool \<open>run_flow\<close>, and \<open>runFlowByName\<close> with its name.\<close>

definition runFlow ::
  "runtime \<Rightarrow> string \<Rightarrow> flow_disk \<Rightarrow> (command_error + Run \<times> runFlowOutput) \<times> flow_disk" where
  "runFlow rt name d =
     (case Load (rt_decode rt) (trim_space name) d of
        (Inl e, d) \<Rightarrow> (Inl (StoreError e), d)
      | (Inr f, d) \<Rightarrow>
          (case IsTrusted f d of
             (Inl e, d) \<Rightarrow> (case untrusted f (Some e) d of (e, d) \<Rightarrow> (Inl e, d))
           | (Inr False, d) \<Rightarrow> (case untrusted f None d of (e, d) \<Rightarrow> (Inl e, d))
           | (Inr True, d) \<Rightarrow>
               (case rt_getwd rt of
                  None \<Rightarrow> (Inl NoWorkDir, d)
                | Some dir \<Rightarrow>
                    (case execute_here rt False dir f d of
                       (None, d) \<Rightarrow> (Inl StoppedShort, d)
                     | (Some r, d) \<Rightarrow> (case SaveRun r d of (saved, d) \<Rightarrow> (Inr (r, runOutput r saved), d))))))"

record flowSummary =
  su_Name :: string
  su_Description :: string
  su_Steps :: nat
  su_Trust :: trust_state
  su_Runnable :: bool

definition summary :: "Flow \<Rightarrow> flow_disk \<Rightarrow> flowSummary \<times> flow_disk" where
  "summary f d =
     (case TrustState f d of (state, d) \<Rightarrow>
        (\<lparr>su_Name = f_Name f, su_Description = f_Description f, su_Steps = length (f_Steps f),
          su_Trust = state, su_Runnable = (state = TrustTrusted)\<rparr>, d))"

fun summaries :: "Flow list \<Rightarrow> flow_disk \<Rightarrow> flowSummary list \<times> flow_disk" where
  "summaries [] d = ([], d)"
| "summaries (f # fs) d =
     (case summary f d of (s, d) \<Rightarrow> (case summaries fs d of (ss, d) \<Rightarrow> (s # ss, d)))"

text \<open>The tool \<open>list_flows\<close>: the inventory and the files that are broken.\<close>

definition listFlows :: "runtime \<Rightarrow> flow_disk \<Rightarrow> (flowSummary list \<times> store_error option) \<times> flow_disk" where
  "listFlows rt d =
     (case List_flows (rt_decode rt) d of ((flows, broken), d) \<Rightarrow>
        (case summaries flows d of (ss, d) \<Rightarrow> ((ss, broken), d)))"

subsection \<open>Approving\<close>

text \<open>The answer at the prompt, which both confirmations ask for unless \<open>--yes\<close> is given.\<close>

definition answered :: "terminal \<Rightarrow> string \<Rightarrow> command_error option" where
  "answered t name =
     (if tt_yes t then None
      else if \<not> tt_interactive t then Some (Unreviewed name)
      else if tt_broken t \<and> tt_answer t = [] then Some NoAnswer
      else if to_lower (trim_space (tt_answer t)) \<noteq> ''y'' then Some (NotPinned name)
      else None)"

text \<open>\<open>confirmTrust\<close> reads the file again: the bytes shown, and the answer.\<close>

definition confirmTrust :: "terminal \<Rightarrow> Flow \<Rightarrow> (command_error, string, flow_disk) io" where
  "confirmTrust t f d =
     (case read_file (f_Path f) d of
        (Inl e, d) \<Rightarrow> (Inl (StoreError e), d)
      | (Inr data, d) \<Rightarrow> (case answered t (f_Name f) of Some e \<Rightarrow> Inl e | None \<Rightarrow> Inr data, d))"

text \<open>\<open>mycelium flow trust\<close>: the bytes that were shown, nothing when the pin was already there.\<close>

definition flowTrust :: "runtime \<Rightarrow> terminal \<Rightarrow> string \<Rightarrow> (command_error, string option, flow_disk) io" where
  "flowTrust rt t name d =
     (case Load (rt_decode rt) name d of
        (Inl e, d) \<Rightarrow> (Inl (StoreError e), d)
      | (Inr f, d) \<Rightarrow>
          (case TrustedChecksum (f_Name f) d of
             (Inl e, d) \<Rightarrow> (Inl (StoreError e), d)
           | (Inr pinned, d) \<Rightarrow>
               if pinned = f_Checksum f then (Inr None, d)
               else (case confirmTrust t f d of
                       (Inl e, d) \<Rightarrow> (Inl e, d)
                     | (Inr shown, d) \<Rightarrow>
                         (case Trust f d of
                            (Inl e, d) \<Rightarrow> (Inl (StoreError e), d)
                          | (Inr _, d) \<Rightarrow> (Inr (Some shown), d)))))"

text \<open>\<open>confirmModel\<close> shows the bytes that were hashed, so only the answer matters.\<close>

definition flowTrustModel :: "terminal \<Rightarrow> string \<Rightarrow> (command_error, Model, flow_disk) io" where
  "flowTrustModel t typeName d =
     (case InspectModel typeName d of
        (Inl e, d) \<Rightarrow> (Inl (ModelError e), d)
      | (Inr m, d) \<Rightarrow>
          (case answered t (md_Type m) of
             Some e \<Rightarrow> (Inl e, d)
           | None \<Rightarrow>
               (case TrustModel m d of
                  (Inl e, d) \<Rightarrow> (Inl (StoreError e), d)
                | (Inr _, d) \<Rightarrow> (Inr m, d))))"

definition flowUntrust :: "string option \<Rightarrow> unit flow_io" where
  "flowUntrust arg =
     (case arg of None \<Rightarrow> io_bind Prune (\<lambda>_. io_return ()) | Some name \<Rightarrow> Untrust name)"

subsection \<open>Reading the history\<close>

definition failedSteps :: "Run \<Rightarrow> string list" where
  "failedSteps r =
     map sr_Name (filter (\<lambda>s. \<not> (sr_Skipped s \<or> sr_ExitCode s = 0 \<and> \<not> sr_TimedOut s)) (run_Steps r))"

fun latest_run :: "Run option \<Rightarrow> Run list \<Rightarrow> Run option" where
  "latest_run latest [] = latest"
| "latest_run latest (r # rs) =
     latest_run (case latest of
         None \<Rightarrow> Some r
       | Some l \<Rightarrow> if run_StartedAt l < run_StartedAt r then Some r else latest) rs"

definition resolveRun :: "int \<Rightarrow> string \<Rightarrow> string option \<Rightarrow> Run flow_io" where
  "resolveRun limit name runID =
     (case runID of
        Some i \<Rightarrow> LoadRun name i
      | None \<Rightarrow>
          io_bind (ListRuns name limit) (\<lambda>runs.
            case latest_run None runs of None \<Rightarrow> io_fail (NoRuns name) | Some r \<Rightarrow> io_return r))"

end
