(* ===== verification/PathFacts.thy ===== *)
theory PathFacts
  imports Prelude
begin

text \<open>
  What \<open>filepath.Clean\<close> and \<open>filepath.Join\<close> do with a path that is a directory and a name below it.
\<close>

definition plain_segment :: "string \<Rightarrow> bool" where
  "plain_segment s \<longleftrightarrow> s \<noteq> [] \<and> s \<noteq> ''.'' \<and> s \<noteq> ''..'' \<and> CHR ''/'' \<notin> set s"

definition abs_path :: "string list \<Rightarrow> string" where
  "abs_path segs = CHR ''/'' # str_join ''/'' segs"

lemma clean_steps_plain:
  "list_all plain_segment segs \<Longrightarrow> clean_steps rooted acc segs = rev acc @ segs"
  by (induction segs arbitrary: acc) (auto simp: plain_segment_def)

text \<open>One step of the loop of \<open>Clean\<close>.\<close>

definition clean_acc :: "bool \<Rightarrow> string list \<Rightarrow> string \<Rightarrow> string list" where
  "clean_acc rooted acc seg =
     (if seg = [] \<or> seg = ''.'' then acc
      else if seg = ''..'' then
        (case acc of
           [] \<Rightarrow> if rooted then [] else [seg]
         | seg' # below \<Rightarrow> if seg' = ''..'' then seg # acc else below)
      else seg # acc)"

lemma clean_steps_Cons: "clean_steps rooted acc (seg # segs) = clean_steps rooted (clean_acc rooted acc seg) segs"
  by (cases acc) (simp_all add: clean_acc_def)

lemma clean_steps_append:
  assumes "list_all plain_segment ys"
  shows "clean_steps rooted acc (xs @ ys) = clean_steps rooted acc xs @ ys"
proof (induction xs arbitrary: acc)
  case Nil
  show ?case by (simp add: clean_steps_plain assms)
next
  case (Cons seg xs)
  show ?case by (simp only: append_Cons clean_steps_Cons Cons.IH)
qed

lemma clean_acc_plain:
  "list_all plain_segment acc \<Longrightarrow> CHR ''/'' \<notin> set seg \<Longrightarrow> list_all plain_segment (clean_acc True acc seg)"
  by (cases acc) (simp_all add: clean_acc_def plain_segment_def)

lemma clean_steps_rooted:
  "list_all plain_segment acc \<Longrightarrow> list_all (\<lambda>s. CHR ''/'' \<notin> set s) segs \<Longrightarrow>
   list_all plain_segment (clean_steps True acc segs)"
  by (induction segs arbitrary: acc)
    (simp_all add: clean_steps_Cons clean_acc_plain list_all_rev del: clean_steps.simps(2))

lemma split_plain: "plain_segment s \<Longrightarrow> split_on CHR ''/'' s = [s]"
  by (simp add: plain_segment_def split_on_word)

lemma split_segments: "list_all (\<lambda>s. CHR ''/'' \<notin> set s) (split_on CHR ''/'' p)"
  by (simp add: list_all_iff split_on_no_sep)

lemma split_join_plain:
  "list_all plain_segment segs \<Longrightarrow> segs \<noteq> [] \<Longrightarrow> split_on CHR ''/'' (str_join ''/'' segs) = segs"
  by (intro split_join) (auto simp: list_all_iff plain_segment_def)

text \<open>An absolute path, cleaned, is a slash and its segments.\<close>

lemma path_Clean_rooted:
  "has_prefix p ''/'' \<Longrightarrow>
   \<exists>segs. list_all plain_segment segs \<and> path_Clean p = abs_path segs"
  using clean_steps_rooted [OF _ split_segments, of "[]" p]
  by (auto simp: path_Clean_def Let_def abs_path_def)

lemma path_Clean_abs: "list_all plain_segment segs \<Longrightarrow> path_Clean (abs_path segs) = abs_path segs"
proof (cases "segs = []")
  case True
  then show ?thesis by (simp add: path_Clean_def abs_path_def)
next
  case False
  assume segs: "list_all plain_segment segs"
  have "split_on CHR ''/'' (abs_path segs) = [] # segs"
    using split_on_append [of "CHR ''/''" "[]"] split_join_plain [OF segs False]
    by (simp add: abs_path_def)
  then show ?thesis
    using clean_steps_plain [OF segs, of True "[]"] by (simp add: path_Clean_def Let_def abs_path_def)
qed

lemma join_snoc: "str_join ''/'' (xs @ [y]) = (if xs = [] then y else str_join ''/'' xs @ ''/'' @ y)"
  by (induction xs rule: induct_list012) auto

lemma join_append:
  "xs \<noteq> [] \<Longrightarrow> ys \<noteq> [] \<Longrightarrow> str_join ''/'' (xs @ ys) = str_join ''/'' xs @ ''/'' @ str_join ''/'' ys"
  by (induction xs rule: induct_list012) (auto simp: neq_Nil_conv)

text \<open>A directory and a name below it.\<close>

lemma path_Join_below:
  assumes "list_all plain_segment segs" and "list_all plain_segment rest" and "rest \<noteq> []"
  shows "path_Join [abs_path segs, str_join ''/'' rest] = abs_path (segs @ rest)"
proof -
  have nonempty: "str_join ''/'' rest \<noteq> []"
    using assms(2,3) by (cases rest; cases "tl rest") (auto simp: plain_segment_def)
  have "split_on CHR ''/'' (abs_path segs @ CHR ''/'' # str_join ''/'' rest) = split_on CHR ''/'' (abs_path segs) @ rest"
    using split_on_append split_join_plain [OF assms(2,3)] by simp
  moreover have "clean_steps True [] (split_on CHR ''/'' (abs_path segs)) = segs"
  proof (cases "segs = []")
    case True
    then show ?thesis by (simp add: abs_path_def)
  next
    case False
    then have "split_on CHR ''/'' (abs_path segs) = [] # segs"
      using split_on_append [of "CHR ''/''" "[]"] split_join_plain [OF assms(1)] by (simp add: abs_path_def)
    then show ?thesis using clean_steps_plain [OF assms(1), of True "[]"] by simp
  qed
  ultimately have "clean_steps True [] (split_on CHR ''/'' (abs_path segs @ CHR ''/'' # str_join ''/'' rest)) = segs @ rest"
    using clean_steps_append [OF assms(2)] by simp
  moreover have "has_prefix (abs_path segs @ r) ''/''" for r
    by (simp add: abs_path_def)
  ultimately show ?thesis
    using nonempty by (simp add: path_Join_def path_Clean_def Let_def abs_path_def)
qed

text \<open>Whatever the directory, the name stays the base of the path.\<close>

lemma trim_right_none: "s = [] \<or> \<not> P (last s) \<Longrightarrow> trim_right P s = s"
  by (cases s rule: rev_cases) (auto simp: trim_right_def)

lemma plain_last: "plain_segment n \<Longrightarrow> n \<noteq> [] \<and> last n \<noteq> CHR ''/''"
  unfolding plain_segment_def using last_in_set [of n] by metis

lemma path_base_snoc:
  "plain_segment n \<Longrightarrow> path_base (x @ CHR ''/'' # n) = n"
  using trim_right_none [of "x @ CHR ''/'' # n" "\<lambda>c. c = CHR ''/''"]
  by (simp add: path_base_def Let_def split_on_append split_plain plain_last)

lemma path_base_plain: "plain_segment n \<Longrightarrow> path_base n = n"
  using trim_right_none [of n "\<lambda>c. c = CHR ''/''"]
  by (simp add: path_base_def Let_def split_plain plain_last)

lemma path_Join_name:
  assumes "plain_segment n" and "dir \<noteq> []"
  shows "path_base (path_Join [dir, n]) = n"
proof -
  have n: "n \<noteq> []" using assms(1) by (simp add: plain_segment_def)
  have "clean_steps r [] (split_on CHR ''/'' (dir @ CHR ''/'' # n)) =
    clean_steps r [] (split_on CHR ''/'' dir) @ [n]" for r
    using clean_steps_append [of "[n]"] assms(1) by (simp add: split_on_append split_plain)
  then have "\<exists>x. path_Join [dir, n] = x @ CHR ''/'' # n \<or> path_Join [dir, n] = n"
    using n assms(2) by (auto simp: path_Join_def path_Clean_def Let_def join_snoc)
  then show ?thesis
    using path_base_snoc path_base_plain assms(1) by auto
qed

end
