(* ===== verification/FlowDisk.thy ===== *)
theory FlowDisk
  imports FlowCommands PathFacts FlowChecked
begin

text \<open>
  What the operations on the flow files leave alone, and what they read. An operation that only reads
  keeps \<open>same_disk\<close>: it uses up outcomes of the script and nothing else.
\<close>

definition same_disk :: "flow_disk \<Rightarrow> flow_disk \<Rightarrow> bool" where
  "same_disk d d' \<longleftrightarrow> (\<exists>os. d' = d\<lparr>fd_ops := os\<rparr>)"

lemma same_disk_refl [simp]: "same_disk d d"
  unfolding same_disk_def by (rule exI [of _ "fd_ops d"]) simp

lemma same_disk_trans: "same_disk a b \<Longrightarrow> same_disk b c \<Longrightarrow> same_disk a c"
  by (auto simp: same_disk_def)

lemma same_diskD:
  "same_disk d d' \<Longrightarrow> fd_files d' = fd_files d \<and> fd_env d' = fd_env d \<and> fd_trust d' = fd_trust d \<and>
   fd_runs d' = fd_runs d \<and> fd_subpaths d' = fd_subpaths d"
  by (auto simp: same_disk_def)

lemma same_disk_op: "same_disk d (snd (disk_op d))"
  by (auto simp: disk_op_def same_disk_def split: list.split intro: exI [of _ "[]"])

text \<open>A disk without faults ahead.\<close>

lemma disk_op_calm [simp]: "fd_ops d = [] \<Longrightarrow> disk_op d = (Done, d)"
  by (simp add: disk_op_def)

text \<open>Reads, as invariants of a disk they started from.\<close>

abbreviation quiet :: "('e, 'a, flow_disk) io \<Rightarrow> bool" where
  "quiet m \<equiv> (\<forall>d0. io_keeps (same_disk d0) m)"

named_theorems quiet_rules "operations that only read"

lemma quiet_disk: "(\<And>d. same_disk d (snd (m d))) \<Longrightarrow> quiet m"
  by (auto intro!: io_keepsI intro: same_disk_trans)

lemma quietD: "quiet m \<Longrightarrow> m d = (r, d') \<Longrightarrow> same_disk d d'"
  by (metis io_keepsD same_disk_refl)

lemma quiet_snd: "quiet m \<Longrightarrow> same_disk d (snd (m d))"
  by (simp add: io_keeps_def)

lemma disk_opD: "disk_op d = (o', d') \<Longrightarrow> same_disk d d'"
  using same_disk_op [of d] by simp

lemma quiet_disk_call [quiet_rules]: "quiet (disk_call e)"
  by (rule quiet_disk) (auto simp: disk_call_def dest: disk_opD split: prod.split)

lemma quiet_read_file [quiet_rules]: "quiet (read_file p)"
  by (rule quiet_disk) (auto simp: read_file_def dest: disk_opD split: prod.split)

lemma quiet_stat_file [quiet_rules]: "quiet (stat_file p)"
  by (rule quiet_disk) (auto simp: stat_file_def dest: disk_opD split: prod.split)

lemma quiet_readTrust [quiet_rules]: "quiet readTrust"
  by (rule quiet_disk) (auto simp: readTrust_def dest: disk_opD split: prod.split)

lemma quiet_check_name [quiet_rules]: "quiet (check_name n)"
  by (auto simp: check_name_def intro: io_keeps split: option.split)

lemma quiet_readFlow [quiet_rules]: "quiet (readFlow decode p)"
  unfolding readFlow_def
  by (intro allI io_keeps quiet_read_file [rule_format]) (auto intro: io_keeps split: sum.split)

lemma quiet_Load [quiet_rules]: "quiet (Load decode n)"
  unfolding Load_def
  by (intro allI io_keeps quiet_check_name [rule_format] quiet_stat_file [rule_format] quiet_readFlow [rule_format])

lemma quiet_TrustedChecksum [quiet_rules]: "quiet (TrustedChecksum n)"
  unfolding TrustedChecksum_def by (intro allI io_keeps quiet_readTrust [rule_format])

lemma quiet_IsTrusted [quiet_rules]: "quiet (IsTrusted f)"
  unfolding IsTrusted_def by (intro allI io_keeps quiet_TrustedChecksum [rule_format])

subsection \<open>What a read finds\<close>

lemma read_file_Inr: "read_file p d = (Inr data, d') \<Longrightarrow> lookup (fd_files d) p = Some data"
  using disk_opD [THEN same_diskD] by (fastforce simp: read_file_def split: prod.splits if_splits option.splits)

lemma readTrust_Inr: "readTrust d = (Inr pins, d') \<Longrightarrow> pins = stored_or_empty (fd_trust d) \<and> fd_trust d \<noteq> Corrupt"
  using disk_opD [THEN same_diskD]
  by (fastforce simp: readTrust_def stored_or_empty_def split: prod.splits if_splits json_file.splits)

definition pins_of_disk :: "flow_disk \<Rightarrow> string \<rightharpoonup> string" where
  "pins_of_disk d = lookup (stored_or_empty (fd_trust d))"

lemma TrustedChecksum_Inr:
  "TrustedChecksum n d = (Inr c, d') \<Longrightarrow> c = (case pins_of_disk d n of None \<Rightarrow> [] | Some c \<Rightarrow> c)"
  by (auto simp: TrustedChecksum_def pins_of_disk_def get_or_def io_defs split: prod.splits sum.splits dest!: readTrust_Inr)

lemma IsTrusted_Inr:
  "IsTrusted f d = (Inr b, d') \<Longrightarrow> b \<longleftrightarrow> f_Checksum f \<noteq> [] \<and> pins_of_disk d (f_Name f) = Some (f_Checksum f)"
  by (auto simp: IsTrusted_def io_defs split: prod.splits sum.splits option.splits dest!: TrustedChecksum_Inr)

lemma Load_Inr:
  assumes "Load decode name d = (Inr f, d')"
  shows "validName name = None \<and>
    (\<exists>data. lookup (fd_files d) (flow_path d name) = Some data \<and> Parse decode (flow_path d name) data = Inr f)"
proof -
  obtain d1 d2 data where steps: "validName name = None" "stat_file (flow_path d name) d = (Inr True, d1)"
    "read_file (flow_path d name) d1 = (Inr data, d2)" "Parse decode (flow_path d name) data = Inr f"
    using assms
    by (auto simp: Load_def readFlow_def check_name_def io_get_def io_defs
        split: option.splits prod.splits sum.splits if_splits)
  have "fd_files d1 = fd_files d"
    using quietD [OF quiet_stat_file steps(2)] same_diskD by blast
  then show ?thesis using steps read_file_Inr [OF steps(3)] by auto
qed

lemma Parse_checksum: "Parse decode path data = Inr f \<Longrightarrow> f_Checksum f = Checksum data \<and> f_Path f = path"
  by (auto simp: Parse_def Let_def split: option.splits)

lemma Checksum_nonempty [simp]: "Checksum data \<noteq> []"
  by (simp add: Checksum_def)

end
