(* ===== verification/Approval.thy ===== *)
theory Approval
  imports Prelude
begin

text \<open>
  A store of pins that decides what may be used: the flows and models a machine runs, the pages of the
  wiki that are standards. The contract of the operations of such a program is that one of them leaves a
  pin only where it was before or where a person approves it in that operation; the consequence is that
  whatever is pinned after any sequence of operations goes back to an approval.
\<close>

fun approvals_of :: "('a \<Rightarrow> 'w \<Rightarrow> 'w) \<Rightarrow> ('a \<Rightarrow> 'w \<Rightarrow> ('k \<times> 'v) set) \<Rightarrow> 'a list \<Rightarrow> 'w \<Rightarrow> ('k \<times> 'v) set" where
  "approvals_of step approved [] w = {}"
| "approvals_of step approved (a # as) w = approved a w \<union> approvals_of step approved as (step a w)"

locale approval =
  fixes pinned :: "'w \<Rightarrow> 'k \<Rightarrow> 'v option"
    and step :: "'a \<Rightarrow> 'w \<Rightarrow> 'w"
    and approved :: "'a \<Rightarrow> 'w \<Rightarrow> ('k \<times> 'v) set"
  assumes pin_approved: "pinned (step a w) k = Some v \<Longrightarrow> pinned w k = Some v \<or> (k, v) \<in> approved a w"
begin

lemma pins_approved:
  "pinned (fold step as w) k = Some v \<Longrightarrow> pinned w k = Some v \<or> (k, v) \<in> approvals_of step approved as w"
proof (induction as arbitrary: w)
  case (Cons a as)
  then show ?case using pin_approved by fastforce
qed simp

lemma pins_from_nothing:
  "(\<And>k. pinned w k = None) \<Longrightarrow> pinned (fold step as w) k = Some v \<Longrightarrow> (k, v) \<in> approvals_of step approved as w"
  using pins_approved by fastforce

end

end
