(* ===== verification/FlowTrust.thy ===== *)
theory FlowTrust
  imports FlowDisk Approval
begin

text \<open>
  What runs on a machine was approved on it. The pins only ever hold what a person approved, an
  execution needs the pin of the flow, and each of its models needs a pin of its own.
\<close>

subsection \<open>Operations that write\<close>

lemma disk_call_same: "disk_call e d = (r, d') \<Longrightarrow> same_disk d d'"
  using quietD [OF quiet_disk_call] .

lemma writeTrust_cases:
  assumes "writeTrust pins d = (r, d')"
  obtains (kept) "same_disk d d'" "r \<noteq> Inr ()"
    | (written) d1 where "same_disk d d1" "d' = d1\<lparr>fd_trust := Stored pins\<rparr>"
proof -
  obtain r1 d1 where call: "disk_call TrustNotWritten d = (r1, d1)" by fastforce
  obtain o2 d2 where op: "disk_op d1 = (o2, d2)" by fastforce
  have same: "same_disk d d1" "same_disk d1 d2"
    using disk_call_same [OF call] disk_opD [OF op] .
  show ?thesis
  proof (cases r1)
    case (Inl e)
    then show ?thesis using assms call same by (intro kept) (auto simp: writeTrust_def io_defs)
  next
    case (Inr u)
    then have end': "r = (if o2 = Done then Inr () else Inl TrustNotWritten)"
        "d' = (if o2 = Done \<or> o2 = Lost then d2\<lparr>fd_trust := Stored pins\<rparr> else d2)"
      using assms call op by (auto simp: writeTrust_def io_defs)
    show ?thesis
    proof (cases "o2 = Done \<or> o2 = Lost")
      case True
      then show ?thesis using end' same same_disk_trans by (intro written [of d2]) auto
    next
      case False
      then show ?thesis using end' same same_disk_trans by (intro kept) auto
    qed
  qed
qed

lemma pins_same_disk: "same_disk d d' \<Longrightarrow> pins_of_disk d' = pins_of_disk d"
  by (auto simp: pins_of_disk_def same_disk_def)

lemma pins_written [simp]: "pins_of_disk (d\<lparr>fd_trust := Stored pins\<rparr>) = lookup pins"
  by (simp add: pins_of_disk_def stored_or_empty_def)

lemma readTrust_pins: "readTrust d = (Inr pins, d') \<Longrightarrow> lookup pins = pins_of_disk d \<and> same_disk d d'"
  using readTrust_Inr quietD [OF quiet_readTrust] by (simp add: pins_of_disk_def)

text \<open>A change of the pins: read, change, write.\<close>

lemma change_pins:
  assumes "io_bind readTrust (\<lambda>pins. writeTrust (change pins)) d = (r, d')"
    and "\<And>pins k c. lookup (change pins) k = Some c \<Longrightarrow> lookup pins k = Some c \<or> (k, c) \<in> A"
    and "pins_of_disk d' k = Some c"
  shows "pins_of_disk d k = Some c \<or> (k, c) \<in> A"
  using assms(1)
proof (cases rule: io_bindE)
  case (fail e)
  then show ?thesis using assms(3) pins_same_disk [OF quietD [OF quiet_readTrust fail(1)]] by simp
next
  case (run pins d1)
  note read = readTrust_pins [OF run(1)]
  from run(2) show ?thesis
  proof (cases rule: writeTrust_cases)
    case kept
    then show ?thesis using assms(3) read pins_same_disk same_disk_trans by metis
  next
    case (written d2)
    then show ?thesis using assms(2) [of pins k c] assms(3) read by simp
  qed
qed

lemma Trust_pins:
  "Trust f d = (r, d') \<Longrightarrow> pins_of_disk d' k = Some c \<Longrightarrow>
   pins_of_disk d k = Some c \<or> (k, c) = (f_Name f, f_Checksum f)"
  unfolding Trust_def
  by (drule change_pins [where A = "{(f_Name f, f_Checksum f)}"]) (auto split: if_splits)

lemma TrustModel_pins:
  "TrustModel m d = (r, d') \<Longrightarrow> pins_of_disk d' k = Some c \<Longrightarrow>
   pins_of_disk d k = Some c \<or> (k, c) = (modelPin @ md_Type m, md_Checksum m)"
  unfolding TrustModel_def
  by (drule change_pins [where A = "{(modelPin @ md_Type m, md_Checksum m)}"]) (auto split: if_splits)

lemma writeTrust_pins:
  "writeTrust pins d = (r, d') \<Longrightarrow> pins_of_disk d' k = Some c \<Longrightarrow> pins_of_disk d k = Some c \<or> lookup pins k = Some c"
  by (erule writeTrust_cases) (auto dest: pins_same_disk)

lemma Untrust_pins:
  assumes "Untrust n d = (r, d')" and "pins_of_disk d' k = Some c"
  shows "pins_of_disk d k = Some c"
  using assms(1) unfolding Untrust_def
proof (cases rule: io_bindE)
  case (fail e)
  then show ?thesis using assms(2) pins_same_disk [OF quietD [OF quiet_readTrust fail(1)]] by simp
next
  case (run pins d1)
  note read = readTrust_pins [OF run(1)]
  then have pins: "lookup pins = pins_of_disk d1" using pins_same_disk by metis
  show ?thesis
  proof (cases "lookup pins n = None")
    case True
    then show ?thesis using assms(2) run(2) read pins by (simp add: io_return_def)
  next
    case False
    then have "writeTrust (AList.delete n pins) d1 = (r, d')" using run(2) by (simp only: if_False)
    then have "pins_of_disk d1 k = Some c \<or> lookup (AList.delete n pins) k = Some c"
      using writeTrust_pins assms(2) by blast
    then show ?thesis using pins pins_same_disk read by (auto split: if_splits)
  qed
qed

text \<open>After it reports success the name is not pinned.\<close>

lemma writeTrust_Inr: "writeTrust pins d = (Inr u, d') \<Longrightarrow> pins_of_disk d' = lookup pins"
  by (erule writeTrust_cases) auto

lemma Untrust_Inr:
  assumes "Untrust n d = (Inr u, d')"
  shows "pins_of_disk d' n = None"
  using assms unfolding Untrust_def
proof (cases rule: io_bindE)
  case (run pins d1)
  moreover have "lookup pins = pins_of_disk d1"
    using readTrust_pins [OF run(1)] pins_same_disk by metis
  ultimately show ?thesis
  proof (cases "lookup pins n = None")
    case False
    then have "writeTrust (AList.delete n pins) d1 = (Inr u, d')" using run(2) by (simp only: if_False)
    then show ?thesis using writeTrust_Inr by fastforce
  qed (simp add: io_return_def)
qed auto

lemma pinStillHasAFile_same: "pinStillHasAFile pin d = (b, d') \<Longrightarrow> same_disk d d'"
  using quietD [OF quiet_stat_file] by (auto simp: pinStillHasAFile_def split: option.splits prod.splits)

lemma prune_pins_keeps:
  "prune_pins names pins n d = ((kept, m), d') \<Longrightarrow> same_disk d d' \<and> (lookup kept k = Some c \<longrightarrow> lookup pins k = Some c)"
proof (induction names arbitrary: pins n d)
  case (Cons name names)
  obtain b d1 where there: "pinStillHasAFile name d = (b, d1)" by fastforce
  note same = pinStillHasAFile_same [OF there]
  show ?case
    using Cons.prems Cons.IH there same same_disk_trans [OF same] by (cases b) (fastforce split: if_splits)+
qed simp

lemma Prune_pins:
  assumes "Prune d = (r, d')" and "pins_of_disk d' k = Some c"
  shows "pins_of_disk d k = Some c"
  using assms(1) unfolding Prune_def
proof (cases rule: io_bindE)
  case (fail e)
  then show ?thesis using assms(2) pins_same_disk [OF quietD [OF quiet_readTrust fail(1)]] by simp
next
  case (run pins d1)
  note read = readTrust_pins [OF run(1)]
  then have pins: "lookup pins = pins_of_disk d1" using pins_same_disk by metis
  obtain kept m d2 where prune: "prune_pins (remdups (map_keys pins)) pins 0 d1 = ((kept, m), d2)"
    by (metis surj_pair)
  note keeps = prune_pins_keeps [OF prune]
  show ?thesis
  proof (cases "m = 0")
    case True
    then have "same_disk d1 d'" using run(2) prune keeps by auto
    then show ?thesis using assms(2) pins_same_disk read by metis
  next
    case False
    then obtain r1 where "writeTrust kept d2 = (r1, d')"
      using run(2) prune by (auto simp: io_defs split: prod.splits sum.splits)
    then have "pins_of_disk d2 k = Some c \<or> lookup kept k = Some c"
      using writeTrust_pins assms(2) by blast
    moreover have "pins_of_disk d2 = pins_of_disk d" using keeps read pins_same_disk by metis
    ultimately show ?thesis using keeps read by auto
  qed
qed

subsection \<open>Models are only read\<close>

lemma quiet_store_io [quiet_rules]: "quiet m \<Longrightarrow> quiet (store_io m)"
  by (rule quiet_disk) (auto simp: store_io_def dest: quietD split: prod.split sum.split)

lemma first_file_same: "first_file cs d = (r, d') \<Longrightarrow> same_disk d d'"
proof (induction cs arbitrary: d)
  case (Cons c cs)
  obtain b d1 where "stat_file (path_Clean c) d = (b, d1)" by fastforce
  then show ?case
    using Cons quietD [OF quiet_stat_file] same_disk_trans by (fastforce split: sum.splits bool.splits)
qed simp

lemma existingFile_same: "existingFile base d = (r, d') \<Longrightarrow> same_disk d d'"
  unfolding existingFile_def by (rule first_file_same)

lemma quiet_resolveImport [quiet_rules]: "quiet (resolveImport fromDir spec root imports)"
  by (rule quiet_disk)
    (auto simp: resolveImport_def dest: existingFile_same split: prod.splits sum.splits option.splits)

lemma quiet_resolve_all [quiet_rules]: "quiet (resolve_all fromDir root imports specs)"
proof (induction specs)
  case (Cons spec specs)
  show ?case
    unfolding resolve_all.simps using quiet_resolveImport Cons by (intro allI io_keeps) auto
qed (auto intro: io_keeps)

lemma quiet_readSource [quiet_rules]: "quiet (readSource path root imports)"
  unfolding readSource_def
  by (intro allI io_keeps quiet_store_io [OF quiet_read_file, rule_format] quiet_resolve_all [rule_format])

lemma quiet_sources_loop [quiet_rules]: "quiet (sources_loop n root imports seen queue)"
proof (induction n arbitrary: seen queue)
  case 0
  show ?case
    by (rule quiet_disk) (auto simp: sources_loop.simps [of 0] split: list.split)
next
  case (Suc n)
  show ?case
  proof (rule quiet_disk)
    fix d
    have "quiet (io_bind (readSource path root imports) (\<lambda>(src, imported).
        io_bind (sources_loop n root imports (path # seen) (rest @ imported)) (\<lambda>out. io_return (src # out))))"
      for path rest
      using quiet_readSource Suc by (intro allI io_keeps) auto
    then show "same_disk d (snd (sources_loop (Suc n) root imports seen queue d))"
      by (auto simp: sources_loop.simps [of "Suc n"] io_keeps_def split: list.split)
  qed
qed

lemma ModelSources_alt:
  "ModelSources entry d =
     (case disk_op d of (o', d1) \<Rightarrow>
        io_bind (sources_loop (sources_bound d1) (ModelsDir (fd_env d1)) (if o' = Done then fd_subpaths d1 else [])
            [] [entry])
          (\<lambda>out. io_return (take 1 out @ sort_by (\<lambda>a b. ms_Rel a < ms_Rel b) (drop 1 out))) d1)"
  by (simp add: ModelSources_def Let_def split: prod.split)

lemma quiet_ModelSources [quiet_rules]: "quiet (ModelSources entry)"
proof (rule quiet_disk)
  fix d
  obtain o' d1 where op: "disk_op d = (o', d1)" by fastforce
  let ?m = "io_bind (sources_loop (sources_bound d1) (ModelsDir (fd_env d1)) (if o' = Done then fd_subpaths d1 else [])
            [] [entry]) (\<lambda>out. io_return (take 1 out @ sort_by (\<lambda>a b. ms_Rel a < ms_Rel b) (drop 1 out)))"
  have "quiet ?m" by (intro allI io_keeps quiet_sources_loop [rule_format])
  then have "same_disk d1 (snd (?m d1))" by (rule quiet_snd)
  then show "same_disk d (snd (ModelSources entry d))"
    using same_disk_trans [OF disk_opD [OF op]] by (simp only: ModelSources_alt op prod.case)
qed

lemma InspectModel_cases:
  assumes "InspectModel typeName d = (r, d')"
  shows "same_disk d d' \<and> (\<forall>m. r = Inr m \<longrightarrow>
    (\<exists>path sources. ModelPath (fd_env d) typeName = Inr path \<and> ModelSources path d = (Inr sources, d') \<and>
       m = \<lparr>md_Type = typeName, md_Path = path, md_Checksum = checksumSources sources, md_Sources = sources\<rparr>))"
proof (cases "ModelPath (fd_env d) typeName")
  case (Inl e)
  then show ?thesis using assms by (auto simp: InspectModel_def)
next
  case (Inr path)
  obtain r1 d1 where src: "ModelSources path d = (r1, d1)" by fastforce
  then show ?thesis
    using assms Inr quietD [OF quiet_ModelSources src]
    by (auto simp: InspectModel_def split: sum.splits model_error.splits store_error.splits)
qed

lemma quiet_InspectModel [quiet_rules]: "quiet (InspectModel t)"
  by (rule quiet_disk) (metis InspectModel_cases surjective_pairing)

lemma quiet_LoadModel [quiet_rules]: "quiet (LoadModel t)"
  unfolding LoadModel_def
  by (intro allI io_keeps quiet_InspectModel [rule_format] quiet_store_io [OF quiet_TrustedChecksum, rule_format])

lemma store_io_Inr: "store_io m d = (Inr x, d') \<longleftrightarrow> m d = (Inr x, d')"
  by (auto simp: store_io_def split: prod.splits sum.splits)

text \<open>The gate of a model: its pin is the checksum of every file it runs.\<close>

lemma LoadModel_Inr:
  assumes "LoadModel typeName d = (Inr m, d')"
  shows "\<exists>d1. InspectModel typeName d = (Inr m, d1) \<and> pins_of_disk d (modelPin @ typeName) = Some (md_Checksum m)"
proof -
  obtain d1 pinned where steps: "InspectModel typeName d = (Inr m, d1)"
    "TrustedChecksum (modelPin @ typeName) d1 = (Inr pinned, d')" "pinned = md_Checksum m" "pinned \<noteq> []"
    using assms by (auto simp: LoadModel_def io_defs store_io_Inr split: prod.splits sum.splits if_splits)
  then show ?thesis
    using TrustedChecksum_Inr [OF steps(2)] pins_same_disk InspectModel_cases [OF steps(1)]
    by (auto split: option.splits)
qed

lemma resolveModel_Inr:
  assumes "resolveModel ask f t d = (Inr m, d')"
  shows "\<exists>d1 schema. LoadModel t d = (Inr m, d1) \<and> ask m = Some schema \<and> d' = d1 \<and>
    (\<forall>step\<in>set (f_Steps f). s_Type step = t \<longrightarrow> ValidateArguments schema (s_Name step) (s_With step) = None)"
  using assms
  by (auto simp: resolveModel_def io_defs split: prod.splits sum.splits option.splits)

lemma quiet_resolveModel [quiet_rules]: "quiet (resolveModel ask f t)"
  unfolding resolveModel_def using quiet_LoadModel by (intro allI io_keeps) (auto intro: io_keeps)

lemma quiet_preflight_steps: "quiet (preflight_steps ask f steps models)"
proof (induction steps arbitrary: models)
  case (Cons step steps)
  show ?case
    unfolding preflight_steps.simps using quiet_resolveModel Cons by (intro allI io_keeps) auto
qed (auto intro: io_keeps)

definition model_gate :: "flow_disk \<Rightarrow> string \<Rightarrow> Model \<Rightarrow> bool" where
  "model_gate d t m \<longleftrightarrow>
     pins_of_disk d (modelPin @ t) = Some (md_Checksum m) \<and>
     (\<exists>d1 d2. same_disk d d1 \<and> InspectModel t d1 = (Inr m, d2))"

lemma model_gate_same:
  assumes same: "same_disk d d1" and gate: "model_gate d1 t m"
  shows "model_gate d t m"
proof -
  obtain d2 d3 where "same_disk d1 d2" "InspectModel t d2 = (Inr m, d3)"
    using gate unfolding model_gate_def by blast
  then show ?thesis
    using gate pins_same_disk [OF same] same_disk_trans [OF same] unfolding model_gate_def by auto
qed

lemma preflight_steps_pins:
  assumes "preflight_steps ask f steps models d = (Inr out, d')"
  shows "(\<forall>t m. lookup models t = Some m \<longrightarrow> lookup out t = Some m) \<and>
    (\<forall>step\<in>set steps. s_Type step \<noteq> [] \<longrightarrow> lookup out (s_Type step) \<noteq> None) \<and>
    (\<forall>t m. lookup out t = Some m \<longrightarrow> lookup models t = Some m \<or> model_gate d t m)"
  using assms
proof (induction steps arbitrary: models d)
  case Nil
  then show ?case by (simp add: io_return_def)
next
  case (Cons step steps)
  show ?case
  proof (cases "s_Type step = [] \<or> lookup models (s_Type step) \<noteq> None")
    case True
    then have "preflight_steps ask f steps models d = (Inr out, d')" using Cons.prems by simp
    then show ?thesis using Cons.IH True by fastforce
  next
    case False
    then obtain m d1 where run: "resolveModel ask f (s_Type step) d = (Inr m, d1)"
      "preflight_steps ask f steps (AList.update (s_Type step) m models) d1 = (Inr out, d')"
      using Cons.prems by (auto simp: io_defs split: prod.splits sum.splits)
    have same: "same_disk d d1" by (rule quietD [OF quiet_resolveModel run(1)])
    have gate: "model_gate d (s_Type step) m"
      using resolveModel_Inr [OF run(1)] LoadModel_Inr same_disk_refl unfolding model_gate_def by meson
    note ih = Cons.IH [OF run(2)]
    have new: "lookup (AList.update (s_Type step) m models) t = (if t = s_Type step then Some m else lookup models t)"
      for t by simp
    show ?thesis
    proof (intro conjI allI impI ballI)
      fix t m' assume "lookup models t = Some m'"
      then show "lookup out t = Some m'" using ih False new [of t] by (cases "t = s_Type step") auto
    next
      fix st assume "st \<in> set (step # steps)" "s_Type st \<noteq> []"
      then show "lookup out (s_Type st) \<noteq> None" using ih new [of "s_Type st"] by (cases "st = step") auto
    next
      fix t m' assume "lookup out t = Some m'"
      then have "(if t = s_Type step then Some m else lookup models t) = Some m' \<or> model_gate d1 t m'"
        using ih new by metis
      then show "lookup models t = Some m' \<or> model_gate d t m'"
        using gate model_gate_same [OF same] by (auto split: if_splits)
    qed
  qed
qed

lemma preflight_gates:
  assumes "preflight ask f d = (Inr models, d')" and "step \<in> set (f_Steps f)" and "s_Type step \<noteq> []"
  shows "\<exists>m. model_gate d (s_Type step) m"
proof -
  obtain m where "lookup models (s_Type step) = Some m"
    using preflight_steps_pins [OF assms(1) [unfolded preflight_def]] assms(2,3) by blast
  then show ?thesis
    using preflight_steps_pins [OF assms(1) [unfolded preflight_def]] by auto
qed

end
