(* ===== verification/FlowApproved.thy ===== *)
theory FlowApproved
  imports FlowTrust FlowFacts
begin

text \<open>
  The commands a machine is given, in any order and between any changes to its files, and what of them
  can run: the history of the pins, and the two gates that read them.
\<close>

datatype flow_action =
    ChangeFiles "(string, string) gomap" "outcome list"
  | TrustFlow runtime terminal string
  | TrustExtension terminal string
  | UntrustFlow "string option"
  | AddFlow string
  | RunFlow runtime string
  | RunTool runtime string

text \<open>\<open>ChangeFiles\<close> is everything else that happens to the files: edits, syncs, and faults to come.\<close>

definition flow_action_step :: "flow_action \<Rightarrow> flow_disk \<Rightarrow> flow_disk" where
  "flow_action_step a d =
     (case a of
        ChangeFiles files ops \<Rightarrow> d\<lparr>fd_files := files, fd_ops := ops\<rparr>
      | TrustFlow rt t name \<Rightarrow> snd (flowTrust rt t name d)
      | TrustExtension t typeName \<Rightarrow> snd (flowTrustModel t typeName d)
      | UntrustFlow arg \<Rightarrow> snd (flowUntrust arg d)
      | AddFlow name \<Rightarrow> snd (Scaffold name d)
      | RunFlow rt name \<Rightarrow> snd (flowRun rt name d)
      | RunTool rt name \<Rightarrow> snd (runFlow rt name d))"

text \<open>What a person approves in one action: a pin and the checksum of what was loaded.\<close>

definition flow_approves :: "flow_action \<Rightarrow> flow_disk \<Rightarrow> (string \<times> string) set" where
  "flow_approves a d =
     (case a of
        TrustFlow rt t name \<Rightarrow>
          (case fst (Load (rt_decode rt) name d) of
             Inl _ \<Rightarrow> {}
           | Inr f \<Rightarrow> if answered t (f_Name f) = None then {(f_Name f, f_Checksum f)} else {})
      | TrustExtension t typeName \<Rightarrow>
          (case fst (InspectModel typeName d) of
             Inl _ \<Rightarrow> {}
           | Inr m \<Rightarrow> if answered t (md_Type m) = None then {(modelPin @ md_Type m, md_Checksum m)} else {})
      | _ \<Rightarrow> {})"

subsection \<open>Each command keeps the pins or approves one\<close>

definition same_pins :: "flow_disk \<Rightarrow> flow_disk \<Rightarrow> bool" where
  "same_pins d d' \<longleftrightarrow> pins_of_disk d' = pins_of_disk d"

lemma same_pins_trans: "same_pins a b \<Longrightarrow> same_pins b c \<Longrightarrow> same_pins a c"
  by (simp add: same_pins_def)

lemma same_disk_pins: "same_disk d d' \<Longrightarrow> same_pins d d'"
  by (simp add: same_pins_def pins_same_disk)

lemma pins_kept: "io_keeps (same_pins d) m \<Longrightarrow> m d = (r, d') \<Longrightarrow> same_pins d d'"
  by (metis io_keepsD same_pins_def)

lemma keeps_pins_snd: "io_keeps (same_pins d) m \<Longrightarrow> same_pins d (snd (m d))"
  by (simp add: io_keeps_def same_pins_def)

lemma keeps_pins_quiet: "quiet m \<Longrightarrow> io_keeps (same_pins d) m"
  by (rule io_keepsI) (metis quiet_snd same_disk_pins same_pins_trans)

lemma keeps_pins_state: "(\<And>d. same_pins d (snd (m d))) \<Longrightarrow> io_keeps (same_pins d0) m"
  by (rule io_keepsI) (metis same_pins_trans)

lemma same_pins_files: "pins_of_disk (d\<lparr>fd_files := x\<rparr>) = pins_of_disk d" "pins_of_disk (d\<lparr>fd_runs := y\<rparr>) = pins_of_disk d"
  "pins_of_disk (d\<lparr>fd_ops := z\<rparr>) = pins_of_disk d"
  by (simp_all add: pins_of_disk_def)

lemma disk_op_pins: "disk_op d = (o', d') \<Longrightarrow> pins_of_disk d' = pins_of_disk d"
  by (rule pins_same_disk) (rule disk_opD)

lemma keeps_write_file: "io_keeps (same_pins d0) (write_file p data)"
  by (rule keeps_pins_state)
    (auto simp: write_file_def put_file_def same_pins_def same_pins_files dest: disk_op_pins
      split: prod.split outcome.split)

lemma keeps_disk_call: "io_keeps (same_pins d0) (disk_call e)"
  by (rule keeps_pins_quiet) (rule quiet_disk_call)

lemma keeps_check_name: "io_keeps (same_pins d0) (check_name n)"
  by (rule keeps_pins_quiet) (rule quiet_check_name)

lemma keeps_write_run: "io_keeps (same_pins d0) (write_run n b r)"
  by (rule keeps_pins_state)
    (auto simp: write_run_def put_run_def put_runs_def same_pins_def same_pins_files dest: disk_op_pins
      split: prod.split outcome.split)

lemma keeps_put_runs: "io_keeps (same_pins d0) (io_modify (\<lambda>d. put_runs n (g d) d))"
  by (rule io_keeps_modify) (simp add: put_runs_def same_pins_def same_pins_files)

lemma keeps_remove_runs: "io_keeps (same_pins d0) (remove_runs n ns)"
  by (induction ns) (auto intro!: io_keeps keeps_disk_call keeps_put_runs)

lemma keeps_SaveRun: "io_keeps (same_pins d0) (SaveRun r)"
  unfolding SaveRun_def Let_def make_run_dir_def pruneRuns_def
  by (intro io_keeps keeps_check_name keeps_disk_call keeps_put_runs keeps_write_run keeps_remove_runs)

lemma keeps_scaffold_end:
  "io_keeps (same_pins d0) (io_then (disk_call e) (io_then (write_file p data) (io_return x)))"
  by (intro io_keeps keeps_disk_call keeps_write_file)

lemma Scaffold_pins: "same_pins d (snd (Scaffold n d))"
proof -
  let ?after = "\<lambda>path d. case stat_file path d of
      (Inr True, d) \<Rightarrow> (Inl (FlowExists n), d)
    | (_, d) \<Rightarrow> io_then (disk_call (CreateFailed (FlowsDir (fd_env d))))
        (io_then (write_file path (flow_template n)) (io_return path)) d"
  have "same_pins d (snd (?after path d))" for path d
  proof -
    obtain r d1 where stat: "stat_file path d = (r, d1)" by fastforce
    then have "same_pins d d1" using quietD [OF quiet_stat_file] same_disk_pins by blast
    moreover have "same_pins d1 (snd (io_then (disk_call (CreateFailed (FlowsDir (fd_env d1))))
        (io_then (write_file path (flow_template n)) (io_return path)) d1))"
      by (rule keeps_pins_snd) (rule keeps_scaffold_end)
    ultimately show ?thesis using stat same_pins_trans by (auto split: sum.split bool.split)
  qed
  then have "io_keeps (same_pins d) (?after path)" for path by (rule keeps_pins_state)
  then have "io_keeps (same_pins d) (Scaffold n)"
    unfolding Scaffold_def by (intro io_keeps keeps_check_name)
  then show ?thesis by (rule keeps_pins_snd)
qed

lemma snd_same_pins: "m d = (r, d') \<Longrightarrow> quiet m \<Longrightarrow> same_pins d d'"
  using quietD same_disk_pins by blast

lemma SaveRun_pins: "SaveRun r d = (x, d') \<Longrightarrow> same_pins d d'"
  using pins_kept [OF keeps_SaveRun] .

lemma execute_here_pins: "execute_here rt live dir f d = (r, d') \<Longrightarrow> same_disk d d'"
  using quietD [OF quiet_preflight_steps]
  by (auto simp: execute_here_def Execute_flow_def preflight_def split: prod.splits)

text \<open>What a run of a flow passed through, whichever command started it.\<close>

definition ran :: "runtime \<Rightarrow> bool \<Rightarrow> string \<Rightarrow> flow_disk \<Rightarrow> Run \<Rightarrow> bool" where
  "ran rt live name d r \<longleftrightarrow>
     (\<exists>f dir d1 d2 d3. Load (rt_decode rt) name d = (Inr f, d1) \<and> IsTrusted f d1 = (Inr True, d2) \<and>
        execute_here rt live dir f d2 = (Some r, d3))"

lemma flowRun_cases:
  assumes "flowRun rt name d = ((out, err), d')"
  shows "same_pins d d' \<and> (\<forall>r. out = Some r \<longrightarrow> ran rt True name d r)"
proof -
  obtain l d1 where load: "Load (rt_decode rt) name d = (l, d1)" by fastforce
  note keeps1 = snd_same_pins [OF load quiet_Load]
  show ?thesis
  proof (cases l)
    case (Inl e)
    then show ?thesis using assms load keeps1 by (auto simp: flowRun_def)
  next
    case (Inr f)
    obtain t d2 where trust: "IsTrusted f d1 = (t, d2)" by fastforce
    note keeps2 = same_pins_trans [OF keeps1 snd_same_pins [OF trust quiet_IsTrusted]]
    consider (failed) e where "t = Inl e" | (refused) "t = Inr False" | (trusted) "t = Inr True"
      by (cases t) auto
    then show ?thesis
    proof cases
      case failed
      then show ?thesis using assms load Inr trust keeps2 by (auto simp: flowRun_def)
    next
      case refused
      obtain c d3 where again: "TrustedChecksum (f_Name f) d2 = (c, d3)" by fastforce
      show ?thesis
        using assms load Inr trust refused again
          same_pins_trans [OF keeps2 snd_same_pins [OF again quiet_TrustedChecksum]]
        by (cases c) (auto simp: flowRun_def)
    next
      case trusted
      show ?thesis
      proof (cases "rt_getwd rt")
        case None
        then show ?thesis using assms load Inr trust trusted keeps2 by (auto simp: flowRun_def)
      next
        case (Some dir)
        obtain r d3 where exec: "execute_here rt True dir f d2 = (r, d3)" by fastforce
        note keeps3 = same_pins_trans [OF keeps2 same_disk_pins [OF execute_here_pins [OF exec]]]
        show ?thesis
        proof (cases r)
          case None
          then show ?thesis using assms load Inr trust trusted Some exec keeps3 by (auto simp: flowRun_def)
        next
          case (Some run)
          obtain saved d4 where save: "SaveRun run d3 = (saved, d4)" by fastforce
          have "ran rt True name d run"
            unfolding ran_def using load Inr trust trusted exec Some by blast
          then show ?thesis
            using assms load Inr trust trusted \<open>rt_getwd rt = Some dir\<close> exec Some save
              same_pins_trans [OF keeps3 SaveRun_pins [OF save]]
            by (cases saved) (auto simp: flowRun_def)
        qed
      qed
    qed
  qed
qed

lemma untrusted_pins: "untrusted f c d = (e, d') \<Longrightarrow> same_pins d d'"
  using snd_same_pins [OF _ quiet_TrustedChecksum]
  by (auto simp: untrusted_def split: prod.splits sum.splits)

lemma runFlow_cases:
  assumes "runFlow rt name d = (out, d')"
  shows "same_pins d d' \<and> (\<forall>r o1. out = Inr (r, o1) \<longrightarrow> ran rt False (trim_space name) d r)"
proof -
  obtain l d1 where load: "Load (rt_decode rt) (trim_space name) d = (l, d1)" by fastforce
  note keeps1 = snd_same_pins [OF load quiet_Load]
  show ?thesis
  proof (cases l)
    case (Inl e)
    then show ?thesis using assms load keeps1 by (auto simp: runFlow_def)
  next
    case (Inr f)
    obtain t d2 where trust: "IsTrusted f d1 = (t, d2)" by fastforce
    note keeps2 = same_pins_trans [OF keeps1 snd_same_pins [OF trust quiet_IsTrusted]]
    consider (failed) e where "t = Inl e" | (refused) "t = Inr False" | (trusted) "t = Inr True"
      by (cases t) auto
    then show ?thesis
    proof cases
      case failed
      then show ?thesis
        using assms load Inr trust same_pins_trans [OF keeps2 untrusted_pins]
        by (auto simp: runFlow_def split: prod.splits)
    next
      case refused
      then show ?thesis
        using assms load Inr trust same_pins_trans [OF keeps2 untrusted_pins]
        by (auto simp: runFlow_def split: prod.splits)
    next
      case trusted
      show ?thesis
      proof (cases "rt_getwd rt")
        case None
        then show ?thesis using assms load Inr trust trusted keeps2 by (auto simp: runFlow_def)
      next
        case (Some dir)
        obtain r d3 where exec: "execute_here rt False dir f d2 = (r, d3)" by fastforce
        note keeps3 = same_pins_trans [OF keeps2 same_disk_pins [OF execute_here_pins [OF exec]]]
        show ?thesis
        proof (cases r)
          case None
          then show ?thesis using assms load Inr trust trusted Some exec keeps3 by (auto simp: runFlow_def)
        next
          case (Some run)
          have "ran rt False (trim_space name) d run"
            unfolding ran_def using load Inr trust trusted exec Some by blast
          then show ?thesis
            using assms load Inr trust trusted \<open>rt_getwd rt = Some dir\<close> exec Some
              same_pins_trans [OF keeps3 SaveRun_pins]
            by (auto simp: runFlow_def split: prod.splits)
        qed
      qed
    qed
  qed
qed

lemma flowTrust_pins:
  assumes "flowTrust rt t name d = (r, d')" and "pins_of_disk d' k = Some c"
  shows "pins_of_disk d k = Some c \<or> (k, c) \<in> flow_approves (TrustFlow rt t name) d"
proof -
  obtain l d1 where load: "Load (rt_decode rt) name d = (l, d1)" by fastforce
  note keeps1 = snd_same_pins [OF load quiet_Load]
  show ?thesis
  proof (cases l)
    case (Inl e)
    then show ?thesis using assms load keeps1 by (auto simp: flowTrust_def same_pins_def)
  next
    case (Inr f)
    obtain p d2 where sum: "TrustedChecksum (f_Name f) d1 = (p, d2)" by fastforce
    note keeps2 = same_pins_trans [OF keeps1 snd_same_pins [OF sum quiet_TrustedChecksum]]
    obtain b d3 where read: "read_file (f_Path f) d2 = (b, d3)" by fastforce
    note keeps3 = same_pins_trans [OF keeps2 snd_same_pins [OF read quiet_read_file]]
    show ?thesis
    proof (cases "\<exists>pinned data. p = Inr pinned \<and> pinned \<noteq> f_Checksum f \<and> b = Inr data \<and> answered t (f_Name f) = None")
      case True
      then obtain r2 where "Trust f d3 = (r2, d')"
        using assms(1) load Inr sum read
        by (auto simp: flowTrust_def confirmTrust_def split: prod.splits sum.splits)
      then have "pins_of_disk d3 k = Some c \<or> (k, c) = (f_Name f, f_Checksum f)"
        using Trust_pins assms(2) by blast
      then show ?thesis using keeps3 True load Inr by (auto simp: flow_approves_def same_pins_def)
    next
      case False
      then have "d' = d2 \<or> d' = d3"
        using assms(1) load Inr sum read
        by (auto simp: flowTrust_def confirmTrust_def split: prod.splits sum.splits option.splits if_splits)
      then show ?thesis using assms(2) keeps2 keeps3 by (auto simp: same_pins_def)
    qed
  qed
qed

lemma flowTrustModel_pins:
  assumes "flowTrustModel t typeName d = (r, d')" and "pins_of_disk d' k = Some c"
  shows "pins_of_disk d k = Some c \<or> (k, c) \<in> flow_approves (TrustExtension t typeName) d"
proof -
  obtain i d1 where load: "InspectModel typeName d = (i, d1)" by fastforce
  note keeps1 = snd_same_pins [OF load quiet_InspectModel]
  show ?thesis
  proof (cases "\<exists>m. i = Inr m \<and> answered t (md_Type m) = None")
    case True
    then obtain m where m: "i = Inr m" "answered t (md_Type m) = None" by blast
    then obtain r2 where "TrustModel m d1 = (r2, d')"
      using assms(1) load by (auto simp: flowTrustModel_def split: prod.splits sum.splits)
    then have "pins_of_disk d1 k = Some c \<or> (k, c) = (modelPin @ md_Type m, md_Checksum m)"
      using TrustModel_pins assms(2) by blast
    then show ?thesis using keeps1 m load by (auto simp: flow_approves_def same_pins_def)
  next
    case False
    then have "d' = d1"
      using assms(1) load by (auto simp: flowTrustModel_def split: prod.splits sum.splits option.splits)
    then show ?thesis using assms(2) keeps1 by (auto simp: same_pins_def)
  qed
qed

lemma flowUntrust_pins:
  assumes "pins_of_disk (snd (flowUntrust arg d)) k = Some c"
  shows "pins_of_disk d k = Some c"
proof (cases arg)
  case None
  obtain r d1 where "Prune d = (r, d1)" by fastforce
  then show ?thesis
    using assms None Prune_pins by (auto simp: flowUntrust_def io_defs split: sum.splits)
next
  case (Some n)
  then show ?thesis using assms Untrust_pins [of n d] by (cases "Untrust n d") (auto simp: flowUntrust_def)
qed

interpretation flow_pins: approval pins_of_disk flow_action_step flow_approves
proof
  fix a d k c
  assume pin: "pins_of_disk (flow_action_step a d) k = Some c"
  show "pins_of_disk d k = Some c \<or> (k, c) \<in> flow_approves a d"
  proof (cases a)
    case (ChangeFiles files ops)
    then show ?thesis using pin by (simp add: flow_action_step_def pins_of_disk_def)
  next
    case (TrustFlow rt t name)
    then show ?thesis
      using pin flowTrust_pins [of rt t name d] by (cases "flowTrust rt t name d") (auto simp: flow_action_step_def)
  next
    case (TrustExtension t ty)
    then show ?thesis
      using pin flowTrustModel_pins [of t ty d] by (cases "flowTrustModel t ty d") (auto simp: flow_action_step_def)
  next
    case (UntrustFlow arg)
    then have "pins_of_disk (snd (flowUntrust arg d)) k = Some c" using pin by (simp add: flow_action_step_def)
    then show ?thesis using flowUntrust_pins by blast
  next
    case (AddFlow n)
    then show ?thesis using pin Scaffold_pins [of d n] by (simp add: flow_action_step_def same_pins_def)
  next
    case (RunFlow rt n)
    then show ?thesis
      using pin flowRun_cases [of rt n d]
      by (cases "flowRun rt n d") (auto simp: flow_action_step_def same_pins_def)
  next
    case (RunTool rt n)
    then show ?thesis
      using pin runFlow_cases [of rt n d]
      by (cases "runFlow rt n d") (auto simp: flow_action_step_def same_pins_def)
  qed
qed

subsection \<open>The gates\<close>

lemma Execute_record:
  "Execute f machine dir lim environ live refused events start = Some r \<Longrightarrow>
   run_Flow r = f_Name f \<and> run_FlowChecksum r = f_Checksum f \<and> (refused \<longrightarrow> run_Steps r = [])"
  by (auto simp: Execute_def Let_def split: if_splits)

lemma ran_gates:
  assumes "ran rt live name d r"
  shows "\<exists>data f. lookup (fd_files d) (flow_path d name) = Some data \<and>
    Parse (rt_decode rt) (flow_path d name) data = Inr f \<and> run_Flow r = f_Name f \<and>
    run_FlowChecksum r = Checksum data \<and> pins_of_disk d (f_Name f) = Some (Checksum data) \<and>
    (run_Steps r \<noteq> [] \<longrightarrow> (\<forall>step\<in>set (f_Steps f). s_Type step \<noteq> [] \<longrightarrow> (\<exists>m. model_gate d (s_Type step) m)))"
proof -
  obtain f dir d1 d2 d3 where steps: "Load (rt_decode rt) name d = (Inr f, d1)" "IsTrusted f d1 = (Inr True, d2)"
    "execute_here rt live dir f d2 = (Some r, d3)"
    using assms unfolding ran_def by blast
  obtain data where data: "lookup (fd_files d) (flow_path d name) = Some data"
    "Parse (rt_decode rt) (flow_path d name) data = Inr f"
    using Load_Inr [OF steps(1)] by blast
  have same: "same_disk d d1" "same_disk d d2"
    using quietD [OF quiet_Load steps(1)] quietD [OF quiet_IsTrusted steps(2)] same_disk_trans by blast+
  have pin: "pins_of_disk d (f_Name f) = Some (f_Checksum f)"
    using IsTrusted_Inr [OF steps(2)] pins_same_disk [OF same(1)] by simp
  obtain p d4 where pre: "preflight (rt_ask rt) f d2 = (p, d4)" by fastforce
  then have "Execute f (MachineName (fd_env d2)) dir 0 (rt_environ rt) live (isl p) (rt_events rt) (rt_start rt) = Some r"
    using steps(3) by (simp add: execute_here_def Execute_flow_def)
  note record' = Execute_record [OF this]
  have "\<exists>m. model_gate d (s_Type step) m"
    if "run_Steps r \<noteq> []" "step \<in> set (f_Steps f)" "s_Type step \<noteq> []" for step
  proof -
    obtain models where "p = Inr models" using record' \<open>run_Steps r \<noteq> []\<close> by (cases p) auto
    then show ?thesis using preflight_gates pre that(2,3) model_gate_same [OF same(2)] by blast
  qed
  then show ?thesis using data pin record' Parse_checksum [OF data(2)] by auto
qed

lemma started_nothing: "fd_trust d0 = Absent \<Longrightarrow> pins_of_disk d0 k = None"
  by (simp add: pins_of_disk_def stored_or_empty_def)

text \<open>
  C5: on a machine that starts without pins, whatever is done to it, a command that runs a flow runs
  the very bytes, up to their hash, that a person at this machine approved in an earlier \<open>trust\<close>; and when
  a step of it gets to run, every extension its typed steps use was approved too, with all the files the
  extension imports.
\<close>

theorem runs_were_approved:
  assumes "fd_trust d0 = Absent" and "d = fold flow_action_step acts d0"
    and "flowRun rt name d = ((Some r, err), d') \<or> runFlow rt name d = (Inr (r, out), d')"
  shows "\<exists>n data f. n \<in> {name, trim_space name} \<and> lookup (fd_files d) (flow_path d n) = Some data \<and>
    Parse (rt_decode rt) (flow_path d n) data = Inr f \<and> run_FlowChecksum r = Checksum data \<and>
    (f_Name f, Checksum data) \<in> approvals_of flow_action_step flow_approves acts d0 \<and>
    (run_Steps r \<noteq> [] \<longrightarrow> (\<forall>step\<in>set (f_Steps f). s_Type step \<noteq> [] \<longrightarrow>
       (\<exists>m d1 d2. InspectModel (s_Type step) d1 = (Inr m, d2) \<and> same_disk d d1 \<and>
          md_Checksum m = checksumSources (md_Sources m) \<and>
          (modelPin @ s_Type step, md_Checksum m) \<in> approvals_of flow_action_step flow_approves acts d0)))"
proof -
  have approved: "(k, c) \<in> approvals_of flow_action_step flow_approves acts d0"
    if "pins_of_disk d k = Some c" for k c
    using flow_pins.pins_from_nothing [OF started_nothing [OF assms(1)]] that unfolding assms(2) .
  have checksum: "md_Checksum m = checksumSources (md_Sources m)" if "InspectModel t d1 = (Inr m, d2)" for t d1 d2 m
    using InspectModel_cases [OF that] by auto
  obtain n live where n: "n \<in> {name, trim_space name}" "ran rt live n d r"
    using assms(3) flowRun_cases [of rt name d "Some r" err d'] runFlow_cases [of rt name d "Inr (r, out)" d']
    by (elim disjE) auto
  obtain data f where gates: "lookup (fd_files d) (flow_path d n) = Some data"
    "Parse (rt_decode rt) (flow_path d n) data = Inr f" "run_FlowChecksum r = Checksum data"
    "pins_of_disk d (f_Name f) = Some (Checksum data)"
    "run_Steps r \<noteq> [] \<longrightarrow> (\<forall>step\<in>set (f_Steps f). s_Type step \<noteq> [] \<longrightarrow> (\<exists>m. model_gate d (s_Type step) m))"
    using ran_gates [OF n(2)] by blast
  have model: "\<exists>m d1 d2. InspectModel t d1 = (Inr m, d2) \<and> same_disk d d1 \<and>
      md_Checksum m = checksumSources (md_Sources m) \<and>
      (modelPin @ t, md_Checksum m) \<in> approvals_of flow_action_step flow_approves acts d0"
    if "model_gate d t m" for t m
    using that approved checksum unfolding model_gate_def by blast
  have models: "run_Steps r \<noteq> [] \<longrightarrow> (\<forall>step\<in>set (f_Steps f). s_Type step \<noteq> [] \<longrightarrow>
       (\<exists>m d1 d2. InspectModel (s_Type step) d1 = (Inr m, d2) \<and> same_disk d d1 \<and>
          md_Checksum m = checksumSources (md_Sources m) \<and>
          (modelPin @ s_Type step, md_Checksum m) \<in> approvals_of flow_action_step flow_approves acts d0))"
    using gates(5) model by meson
  show ?thesis
    by (rule exI [of _ n], rule exI [of _ data], rule exI [of _ f])
      (intro conjI n(1) gates(1-3) models approved [OF gates(4)])
qed

subsection \<open>A machine the witnesses run on\<close>

definition demo_env :: process where
  "demo_env = \<lparr>getenv = (\<lambda>n. if n = ''DATA_DIR'' then ''/d'' else []), home_dir = ''/h'', hostname = None,
     config_at = (\<lambda>_. NoFile)\<rparr>"

definition demo_disk :: flow_disk where
  "demo_disk = \<lparr>fd_env = demo_env, fd_files = [(''/d/flows/gate.yml'', ''name: gate'')], fd_runs = [],
     fd_subpaths = [], fd_trust = Absent, fd_ops = []\<rparr>"

definition demo_runtime :: runtime where
  "demo_runtime = \<lparr>rt_decode = (\<lambda>_. Some demo_flow), rt_ask = (\<lambda>_. None), rt_getwd = Some ''/w'',
     rt_environ = [], rt_events = [], rt_start = 5\<rparr>"

definition demo_yes :: terminal where
  "demo_yes = \<lparr>tt_yes = True, tt_interactive = False, tt_answer = [], tt_broken = False\<rparr>"

definition demo_loaded :: Flow where
  "demo_loaded = demo_flow\<lparr>f_Path := ''/d/flows/gate.yml'', f_Checksum := Checksum ''name: gate''\<rparr>"

lemma demo_flow_paths [simp]:
  "flow_path demo_disk ''gate'' = ''/d/flows/gate.yml''" "validName ''gate'' = None"
  "NameFromPath ''/d/flows/gate.yml'' = ''gate''"
  by code_simp+

lemma demo_parses: "Parse (\<lambda>_. Some demo_flow) ''/d/flows/gate.yml'' ''name: gate'' = Inr demo_loaded"
proof -
  have "validate ''gate'' demo_flow = None" by code_simp
  moreover have "validate s (f\<lparr>f_Path := p, f_Checksum := c\<rparr>) = validate s f" for s f p c
    by (simp add: validate_def validateSteps_def validateGraph_def findCycle_def dependencies_def)
  ultimately show ?thesis by (simp add: Parse_def demo_loaded_def)
qed

lemma demo_loads:
  "fd_env d = demo_env \<Longrightarrow> fd_files d = fd_files demo_disk \<Longrightarrow> fd_ops d = [] \<Longrightarrow>
   Load (rt_decode demo_runtime) ''gate'' d = (Inr demo_loaded, d)"
  using demo_flow_paths(1,2) demo_parses
  by (simp add: Load_def check_name_def io_get_def io_defs stat_file_def read_file_def readFlow_def disk_op_def
      demo_disk_def demo_runtime_def flow_path_def)

definition demo_trusted :: flow_disk where
  "demo_trusted = demo_disk\<lparr>fd_trust := Stored [(''gate'', Checksum ''name: gate'')]\<rparr>"

lemma demo_disk_fields [simp]:
  "fd_ops demo_disk = []" "fd_trust demo_disk = Absent" "fd_env demo_disk = demo_env"
  "f_Name demo_loaded = ''gate''" "f_Checksum demo_loaded = Checksum ''name: gate''"
  "f_Path demo_loaded = ''/d/flows/gate.yml''" "lookup (fd_files demo_disk) ''/d/flows/gate.yml'' = Some ''name: gate''"
  by (simp_all add: demo_disk_def demo_loaded_def demo_flow_def)

lemma demo_trusts: "flow_action_step (TrustFlow demo_runtime demo_yes ''gate'') demo_disk = demo_trusted"
  using Checksum_nonempty [of "''name: gate''", symmetric]
  by (simp add: flow_action_step_def flowTrust_def demo_loads TrustedChecksum_def readTrust_def disk_op_def
      confirmTrust_def read_file_def answered_def demo_yes_def Trust_def writeTrust_def disk_call_def io_defs
      get_or_def demo_trusted_def)

lemma demo_run_dirs: "\<exists>r err d'. flowRun demo_runtime ''gate'' demo_trusted = ((Some r, err), d')"
proof -
  obtain r where run: "Execute demo_loaded (MachineName demo_env) ''/w'' 0 [] True False [] 5 = Some r"
    using Execute_result [OF Parse_orderly [OF demo_parses]] by blast
  have here: "execute_here demo_runtime True ''/w'' demo_loaded d = (Some r, d)" if "fd_env d = demo_env" for d
    using run that
    by (simp add: execute_here_def Execute_flow_def preflight_def demo_loaded_def demo_flow_def shell_step_def
        no_step_def io_return_def demo_runtime_def)
  have fields: "fd_env demo_trusted = demo_env" "fd_files demo_trusted = fd_files demo_disk" "fd_ops demo_trusted = []"
    "fd_trust demo_trusted = Stored [(''gate'', Checksum ''name: gate'')]"
    by (simp_all add: demo_trusted_def)
  have trusted: "IsTrusted demo_loaded demo_trusted = (Inr True, demo_trusted)"
    by (simp add: IsTrusted_def TrustedChecksum_def readTrust_def disk_op_def fields io_defs get_or_def)
  have getwd: "rt_getwd demo_runtime = Some ''/w''" by (simp add: demo_runtime_def)
  obtain saved d' where save: "SaveRun r demo_trusted = (saved, d')" by fastforce
  show ?thesis
    using save by (cases saved) (simp_all add: flowRun_def demo_loads fields trusted here getwd)
qed

theorem runs_were_approved_witness:
  "(''gate'', Checksum ''name: gate'') \<in> approvals_of flow_action_step flow_approves
      [TrustFlow demo_runtime demo_yes ''gate''] demo_disk"
proof -
  obtain r err d' where run: "flowRun demo_runtime ''gate'' demo_trusted = ((Some r, err), d')"
    using demo_run_dirs by blast
  have history: "demo_trusted = fold flow_action_step [TrustFlow demo_runtime demo_yes ''gate''] demo_disk"
    by (simp add: demo_trusts)
  have same: "flow_path demo_trusted ''gate'' = ''/d/flows/gate.yml''" "trim_space ''gate'' = ''gate''"
    "lookup (fd_files demo_trusted) ''/d/flows/gate.yml'' = Some ''name: gate''"
    "rt_decode demo_runtime = (\<lambda>_. Some demo_flow)"
    using demo_flow_paths(1) by (simp add: demo_trusted_def flow_path_def, code_simp, simp_all add: demo_trusted_def demo_runtime_def)
  obtain n data f where "n \<in> {''gate'', trim_space ''gate''}" "lookup (fd_files demo_trusted) (flow_path demo_trusted n) = Some data"
    "Parse (rt_decode demo_runtime) (flow_path demo_trusted n) data = Inr f"
    "(f_Name f, Checksum data) \<in> approvals_of flow_action_step flow_approves [TrustFlow demo_runtime demo_yes ''gate''] demo_disk"
    using runs_were_approved [OF demo_disk_fields(2) history disjI1 [OF run]] by metis
  then show ?thesis using same demo_parses by (simp del: approvals_of.simps)
qed

end
