(* ===== verification/FlowListing.thy ===== *)
theory FlowListing
  imports FlowApproved
begin

text \<open>The inventory a model is given, and what the tool that runs flows does with its entries.\<close>

lemma path_Clean_nonempty: "path_Clean p \<noteq> []"
  by (simp add: path_Clean_def Let_def)

lemma FlowsDir_nonempty: "FlowsDir p \<noteq> []"
  by (simp add: FlowsDir_def path_Join_def path_Clean_nonempty)

lemma path_ext_plain:
  assumes "CHR ''/'' \<notin> set n" and "path_ext n = e" and "e \<noteq> []"
  shows "\<exists>stem. n = stem @ e \<and> trim_suffix n e = stem"
proof -
  obtain i where i: "last_index_byte n (\<lambda>c. c = CHR ''.'') = Some i" "e = drop i n"
    using assms by (auto simp: path_ext_def split_on_word split: option.splits)
  then have "n = take i n @ e" by simp
  then show ?thesis by (metis append_eq_append_conv has_suffix_append trim_suffix_def append_take_drop_id
      append_same_eq length_append diff_add_inverse2 append_eq_conv_conj)
qed

lemma entry_plain:
  assumes "CHR ''/'' \<notin> set n" and "path_ext n = Extension"
  shows "plain_segment n"
proof -
  have "path_ext n \<noteq> ''.yml''" if "n \<in> {[], ''.'', ''..''}"
    using that by (auto simp: path_ext_def)
  then show ?thesis using assms unfolding plain_segment_def Extension_def by blast
qed

lemma dir_names_plain: "n \<in> set (dir_names dir files) \<Longrightarrow> CHR ''/'' \<notin> set n"
  by (simp add: dir_names_def)

lemma read_entry_name:
  assumes "Parse decode (path_Join [FlowsDir p, n]) data = Inr f" and "CHR ''/'' \<notin> set n" "path_ext n = Extension"
  shows "n = f_Name f @ Extension"
proof -
  have base: "path_base (path_Join [FlowsDir p, n]) = n"
    using path_Join_name [OF entry_plain [OF assms(2,3)] FlowsDir_nonempty] .
  have "f_Name f = NameFromPath (path_Join [FlowsDir p, n])"
    using assms(1) by (auto simp: Parse_def Let_def validate_def split: option.splits if_splits)
  then have "f_Name f = trim_suffix n Extension"
    by (simp add: NameFromPath_def base assms(3))
  then show ?thesis
    using path_ext_plain [OF assms(2,3)] by (auto simp: Extension_def)
qed

text \<open>On a disk without faults ahead.\<close>

lemma readFlow_calm:
  "fd_ops d = [] \<Longrightarrow> readFlow decode p d = (r, d') \<Longrightarrow> d' = d \<and>
   (\<forall>f. r = Inr f \<longrightarrow> (\<exists>data. lookup (fd_files d) p = Some data \<and> Parse decode p data = Inr f))"
  by (auto simp: readFlow_def read_file_def io_defs split: option.splits sum.splits)

lemma read_flows_calm:
  assumes "fd_ops d = []" and "read_flows decode entries flows broken d = ((out, b), d')"
  shows "d' = d \<and> (\<forall>f\<in>set out. f \<in> set flows \<or> (\<exists>n\<in>set entries. path_ext n = Extension \<and>
    (\<exists>data. lookup (fd_files d) (path_Join [FlowsDir (fd_env d), n]) = Some data \<and>
       Parse decode (path_Join [FlowsDir (fd_env d), n]) data = Inr f)))"
  using assms(2)
proof (induction entries arbitrary: flows broken)
  case (Cons n ns)
  show ?case
  proof (cases "path_ext n = Extension")
    case True
    obtain r d1 where r: "readFlow decode (path_Join [FlowsDir (fd_env d), n]) d = (r, d1)" by fastforce
    note calm = readFlow_calm [OF assms(1) r]
    show ?thesis
    proof (cases r)
      case (Inl e)
      then have "read_flows decode ns flows (broken @ [e]) d = ((out, b), d')"
        using Cons.prems True r calm by simp
      then show ?thesis using Cons.IH by fastforce
    next
      case (Inr f)
      then have "read_flows decode ns (flows @ [f]) broken d = ((out, b), d')"
        using Cons.prems True r calm by simp
      from Cons.IH [OF this] show ?thesis using True calm Inr by auto
    qed
  next
    case False
    then show ?thesis using Cons.IH [of flows broken] Cons.prems by auto
  qed
qed simp

lemma summary_calm:
  "fd_ops d = [] \<Longrightarrow> summary f d =
     (\<lparr>su_Name = f_Name f, su_Description = f_Description f, su_Steps = length (f_Steps f),
       su_Trust = fst (TrustState f d), su_Runnable = (fst (TrustState f d) = TrustTrusted)\<rparr>, d)"
  by (auto simp: summary_def TrustState_def TrustedChecksum_def readTrust_def io_defs split: json_file.split)

lemma summaries_calm: "fd_ops d = [] \<Longrightarrow> summaries fs d = (map (\<lambda>f. fst (summary f d)) fs, d)"
  by (induction fs) (simp_all add: summary_calm)

lemma TrustState_IsTrusted:
  "fd_ops d = [] \<Longrightarrow> fst (TrustState f d) = TrustTrusted \<longleftrightarrow> IsTrusted f d = (Inr True, d)"
  by (auto simp: TrustState_def IsTrusted_def TrustedChecksum_def readTrust_def io_defs get_or_def
      split: json_file.split option.split)

lemma IsTrusted_calm: "fd_ops d = [] \<Longrightarrow> snd (IsTrusted f d) = d"
  by (auto simp: IsTrusted_def TrustedChecksum_def readTrust_def io_defs split: json_file.split)

lemma Load_calm:
  "fd_ops d = [] \<Longrightarrow> validName n = None \<Longrightarrow> lookup (fd_files d) (flow_path d n) = Some data \<Longrightarrow>
   Parse decode (flow_path d n) data = Inr f \<Longrightarrow> Load decode n d = (Inr f, d)"
  by (simp add: Load_def check_name_def io_get_def io_defs stat_file_def read_file_def readFlow_def)


lemma demo_listed:
  "listFlows demo_runtime demo_trusted =
     (([\<lparr>su_Name = ''gate'', su_Description = [], su_Steps = 2, su_Trust = TrustTrusted, su_Runnable = True\<rparr>], None),
      demo_trusted)"
proof -
  have fields: "fd_env demo_trusted = demo_env" "fd_files demo_trusted = [(''/d/flows/gate.yml'', ''name: gate'')]"
    "fd_ops demo_trusted = []" "fd_trust demo_trusted = Stored [(''gate'', Checksum ''name: gate'')]"
    by (simp_all add: demo_trusted_def demo_disk_def)
  have paths: "dir_names (FlowsDir demo_env) [(''/d/flows/gate.yml'', ''name: gate'')] = [''gate.yml'']"
    "path_ext ''gate.yml'' = Extension" "path_Join [FlowsDir demo_env, ''gate.yml''] = ''/d/flows/gate.yml''"
    by code_simp+
  have "readFlow (rt_decode demo_runtime) ''/d/flows/gate.yml'' demo_trusted = (Inr demo_loaded, demo_trusted)"
    using demo_parses by (simp add: readFlow_def read_file_def io_defs fields demo_runtime_def)
  moreover have "length (f_Steps demo_loaded) = 2" "f_Description demo_loaded = []"
    by (simp_all add: demo_loaded_def demo_flow_def)
  moreover have "fst (TrustState demo_loaded demo_trusted) = TrustTrusted"
    by (simp add: TrustState_def TrustedChecksum_def readTrust_def io_defs get_or_def fields)
  ultimately show ?thesis
    by (simp add: listFlows_def List_flows_def disk_call_def fields paths summary_calm)
qed


end
