(* ===== verification/FlowHistory.thy ===== *)
theory FlowHistory
  imports FlowDisk GoTimeFacts
begin

text \<open>The recorded runs: what is kept, what loads again, and what a search over every flow finds.\<close>

subsection \<open>Names of artifacts\<close>

lemma set_run_names: "set (run_names arts) = {n. lookup arts n \<noteq> None \<and> path_ext n = runExtension}"
  by (auto simp: run_names_def set_map_keys dom_def)

lemma distinct_run_names [simp]: "distinct (run_names arts)"
  by (simp add: run_names_def)

lemma pad_digits_chars: "c \<in> set (pad_digits k n) \<Longrightarrow> is_digit c"
  using pad_digits_all by (fastforce simp: list_all_iff)

definition stamp_char :: "char \<Rightarrow> bool" where
  "stamp_char c \<longleftrightarrow> is_digit c \<or> c \<in> set ''-:TZ.''"

lemma stamp_chars: "c \<in> set (format_rfc3339_nano t) \<Longrightarrow> stamp_char c"
proof -
  have "set (trim_right P s) \<subseteq> set s" for P s
    by (auto simp: trim_right_def dest: set_dropWhileD)
  then have "c \<in> set (format_fraction t) \<Longrightarrow> stamp_char c"
    using pad_digits_chars by (fastforce simp: format_fraction_def Let_def stamp_char_def split: if_splits)
  then show "c \<in> set (format_rfc3339_nano t) \<Longrightarrow> stamp_char c"
    by (auto simp: format_rfc3339_nano_def format_day_def format_clock_def stamp_char_def Let_def
        dest: pad_digits_chars split: prod.splits)
qed

lemma stamp_starts: "\<exists>c r. format_rfc3339_nano t = c # r \<and> is_digit c"
proof -
  obtain y m d where date: "date_of t = (y, m, d)" by (metis surj_pair)
  obtain c r where "pad_digits 4 y = c # r" using pad_digits_length [of 4 y] by (cases "pad_digits 4 y") auto
  moreover then have "is_digit c" using pad_digits_chars [of c 4 y] by simp
  ultimately show ?thesis by (simp add: format_rfc3339_nano_def format_day_def date)
qed

lemma run_id_plain: "plain_segment (newRunID t)" "\<not> has_prefix (newRunID t) ''.''"
proof -
  have digit: "is_digit c \<Longrightarrow> c \<noteq> CHR ''/'' \<and> c \<noteq> CHR ''.'' \<and> c \<noteq> CHR '':''" for c
    by (auto simp: is_digit_def)
  obtain c r where start: "format_rfc3339_nano t = c # r" "is_digit c" using stamp_starts by blast
  then have "\<exists>r. newRunID t = c # r" using digit [of c] by (simp add: newRunID_def)
  moreover have "CHR ''/'' \<notin> set (newRunID t)"
    using stamp_chars [of _ t] digit by (auto simp: newRunID_def stamp_char_def)
  ultimately show "plain_segment (newRunID t)" "\<not> has_prefix (newRunID t) ''.''"
    using digit [OF start(2)] by (auto simp: plain_segment_def)
qed

lemma valid_plain: "plain_segment n \<Longrightarrow> \<not> has_prefix n ''.'' \<Longrightarrow> validName n = None"
proof -
  assume n: "plain_segment n" "\<not> has_prefix n ''.''"
  then have "path_Clean n = n"
    using clean_steps_plain [of "[n]"] split_plain [OF n(1)]
    by (auto simp: path_Clean_def Let_def plain_segment_def has_prefix_iff)
  then show ?thesis using n path_base_plain by (simp add: validName_def plain_segment_def)
qed

lemma run_base:
  "path_ext (newRunID t @ runExtension) = runExtension"
  "trim_suffix (newRunID t @ runExtension) runExtension = newRunID t"
proof -
  have "CHR ''/'' \<notin> set (newRunID t @ runExtension)"
    using run_id_plain(1) [of t] by (simp add: plain_segment_def runExtension_def)
  then show "path_ext (newRunID t @ runExtension) = runExtension"
    using last_index_byte_last [of "\<lambda>c. c = CHR ''.''" "CHR ''.''" "''json''" "newRunID t"]
    by (simp add: path_ext_def split_on_word runExtension_def)
  show "trim_suffix (newRunID t @ runExtension) runExtension = newRunID t"
    by (simp add: trim_suffix_def)
qed

subsection \<open>Removing\<close>

lemma runs_put: "runs_in (put_runs n arts d) m = (if m = n then arts else runs_in d m)"
  by (simp add: runs_in_def put_runs_def get_or_def)

lemma runs_in_same: "same_disk d d' \<Longrightarrow> runs_in d' n = runs_in d n"
  by (auto simp: runs_in_def same_disk_def)

lemma disk_call_Inr: "disk_call e d = (Inr u, d') \<Longrightarrow> same_disk d d'"
  using quietD [OF quiet_disk_call] .

lemma remove_runs_Inr:
  assumes "remove_runs n ns d = (Inr u, d')"
  shows "lookup (runs_in d' m) k = (if m = n \<and> k \<in> set ns then None else lookup (runs_in d m) k)"
  using assms
proof (induction ns arbitrary: d)
  case Nil
  then show ?case by (simp add: io_return_def)
next
  case (Cons k' ns)
  obtain d1 where call: "disk_call (PruneFailed k') d = (Inr (), d1)"
    and rest: "remove_runs n ns (put_runs n (AList.delete k' (runs_in d1 n)) d1) = (Inr u, d')"
    using Cons.prems by (auto simp: io_then_def io_bind_def io_modify_def split: prod.splits sum.splits)
  show ?case
    using Cons.IH [OF rest] runs_in_same [OF disk_call_Inr [OF call]] by (auto simp: runs_put)
qed

lemma take_largest:
  assumes "sorted_wrt (\<lambda>a b. \<not> b > (a::'a::linorder)) xs" and "distinct xs" and "x \<in> set xs"
    and "length (filter (\<lambda>y. x < y) xs) < k"
  shows "x \<in> set (take k xs)"
proof (rule ccontr)
  assume no: "x \<notin> set (take k xs)"
  then have "x \<in> set (drop k xs)"
    using assms(3) by (metis Un_iff append_take_drop_id set_append)
  moreover have sorted: "sorted_wrt (\<lambda>a b. \<not> b > a) (take k xs @ drop k xs)"
    using assms(1) by simp
  ultimately have "\<forall>y\<in>set (take k xs). \<not> x > y"
    unfolding sorted_wrt_append by blast
  then have "\<forall>y\<in>set (take k xs). x < y" using no by (metis not_less_iff_gr_or_eq)
  then have "filter (\<lambda>y. x < y) (take k xs) = take k xs" by simp
  moreover have "k \<le> length xs" using \<open>x \<in> set (drop k xs)\<close> by (cases "k \<le> length xs") auto
  moreover have "filter (\<lambda>y. x < y) xs = filter (\<lambda>y. x < y) (take k xs) @ filter (\<lambda>y. x < y) (drop k xs)"
    by (metis append_take_drop_id filter_append)
  ultimately show False using assms(4) by simp
qed

lemma sorted_descending: "sorted_wrt (\<lambda>a b. \<not> b > (a::'a::linorder)) (sort_by (\<lambda>a b. b < a) xs)"
  by (rule sorted_sort_by) auto

lemma pruneRuns_Inr:
  assumes "pruneRuns n d = (Inr u, d')"
  shows "(\<exists>doomed. doomed = set (drop RunRetention (sort_by (\<lambda>a b. b < a) (run_names (runs_in d n)))) \<and>
      (\<forall>m k. lookup (runs_in d' m) k = (if m = n \<and> k \<in> doomed then None else lookup (runs_in d m) k)))"
proof -
  let ?names = "run_names (runs_in d n)"
  obtain d1 where call: "disk_call (PruneFailed n) d = (Inr (), d1)"
    and rest: "(if length (run_names (runs_in d1 n)) \<le> RunRetention then io_return ()
      else remove_runs n (drop RunRetention (sort_by (\<lambda>a b. b < a) (run_names (runs_in d1 n))))) d1 = (Inr u, d')"
    using assms by (auto simp: pruneRuns_def io_then_def io_bind_def io_get_def split: prod.splits sum.splits)
  note same = runs_in_same [OF disk_call_Inr [OF call]]
  show ?thesis
  proof (cases "length ?names \<le> RunRetention")
    case True
    then have "drop RunRetention (sort_by (\<lambda>a b. b < a) ?names) = []" by simp
    then show ?thesis using True rest same by (simp add: io_return_def)
  next
    case False
    then have "remove_runs n (drop RunRetention (sort_by (\<lambda>a b. b < a) ?names)) d1 = (Inr u, d')"
      using rest same by simp
    from remove_runs_Inr [OF this] show ?thesis using same by auto
  qed
qed

subsection \<open>A run that was saved\<close>

lemma write_run_Inr:
  assumes "write_run n b r d = (Inr u, d')"
  shows "runs_in d' m = (if m = n then AList.update b (Artifact r) (runs_in d n) else runs_in d m)"
proof -
  obtain o' d1 where op: "disk_op d = (o', d1)" by fastforce
  then have "d' = put_run n b (Artifact r) d1"
    using assms by (auto simp: write_run_def split: outcome.splits)
  then show ?thesis using runs_in_same [OF disk_opD [OF op]] by (simp add: put_run_def runs_put)
qed

lemma make_run_dir_Inr: "make_run_dir n d = (Inr u, d') \<Longrightarrow> runs_in d' m = runs_in d m"
  using runs_in_same [OF disk_call_Inr [of _ d]]
  by (auto simp: make_run_dir_def io_then_def io_bind_def io_modify_def runs_put split: prod.splits sum.splits)

abbreviation run_file :: "Run \<Rightarrow> string" where
  "run_file r \<equiv> newRunID (run_StartedAt r) @ runExtension"

definition with_id :: "Run \<Rightarrow> Run" where
  "with_id r = r\<lparr>run_ID := newRunID (run_StartedAt r)\<rparr>"

lemma SaveRun_Inr:
  assumes "SaveRun r d = (Inr path, d')"
  defines "arts \<equiv> AList.update (run_file r) (Artifact (with_id r)) (runs_in d (run_Flow r))"
  shows "validName (run_Flow r) = None \<and>
    (\<forall>m k. lookup (runs_in d' m) k =
      (if m \<noteq> run_Flow r then lookup (runs_in d m) k
       else if k \<in> set (drop RunRetention (sort_by (\<lambda>a b. b < a) (run_names arts))) then None
       else lookup arts k))"
proof -
  obtain d1 d2 d3 d4 where steps: "validName (run_Flow r) = None" "make_run_dir (run_Flow r) d = (Inr (), d1)"
    "write_run (run_Flow r) (run_file r) (with_id r) d1 = (Inr (), d2)"
    "disk_call (SecureFailed (run_file r)) d2 = (Inr (), d3)" "pruneRuns (run_Flow r) d3 = (Inr (), d4)" "d' = d4"
    using assms(1)
    by (auto simp: SaveRun_def Let_def check_name_def io_then_def io_bind_def io_return_def io_fail_def io_get_def with_id_def
        split: prod.splits sum.splits option.splits)
  have "runs_in d3 m = (if m = run_Flow r then arts else runs_in d m)" for m
    using runs_in_same [OF disk_call_Inr [OF steps(4)]] write_run_Inr [OF steps(3)] make_run_dir_Inr [OF steps(2)]
    by (simp add: arts_def)
  then show ?thesis using pruneRuns_Inr [OF steps(5)] steps(1,6) by auto
qed

lemma card_descending: "distinct xs \<Longrightarrow> card (set xs - set (drop k (sort_by lt xs))) \<le> k"
proof -
  assume xs: "distinct xs"
  have "set (sort_by lt xs) = set (take k (sort_by lt xs)) \<union> set (drop k (sort_by lt xs))"
    by (metis append_take_drop_id set_append)
  then have "set xs - set (drop k (sort_by lt xs)) \<subseteq> set (take k (sort_by lt xs))" by auto
  then have "card (set xs - set (drop k (sort_by lt xs))) \<le> card (set (take k (sort_by lt xs)))"
    by (rule card_mono [rotated]) simp
  also have "\<dots> \<le> k" using card_length le_trans length_take by (metis min.cobounded2)
  finally show ?thesis .
qed


definition history_disk :: "outcome list \<Rightarrow> flow_disk" where
  "history_disk ops = \<lparr>fd_env = \<lparr>getenv = (\<lambda>_. ''/d''), home_dir = ''/h'', hostname = None, config_at = (\<lambda>_. NoFile)\<rparr>,
     fd_files = [], fd_runs = [], fd_subpaths = [], fd_trust = Absent, fd_ops = ops\<rparr>"

definition history_run :: Run where
  "history_run = \<lparr>run_Flow = ''gate'', run_FlowChecksum = ''c'', run_Machine = ''m'', run_WorkDir = ''/w'',
     run_StartedAt = 5, run_Status = ''ok'', run_Steps = [], run_ID = []\<rparr>"

lemma history_saved: "fst (SaveRun history_run (history_disk [])) = Inr ''/d/runs/gate/1970-01-01T00-00-00.000000005Z.json''"
  by code_simp


subsection \<open>Lists and searches\<close>

definition identified :: "string \<Rightarrow> Run \<Rightarrow> Run" where
  "identified base r = r\<lparr>run_ID := trim_suffix base (path_ext base)\<rparr>"

lemma readRun_cases:
  assumes "readRun n b d = (x, d')"
  shows "same_disk d d' \<and> (\<forall>r. x = Inr r \<longrightarrow> (\<exists>r0. lookup (runs_in d n) b = Some (Artifact r0) \<and> r = identified b r0))"
  using assms runs_in_same [OF disk_opD]
  by (auto simp: readRun_def identified_def dest: disk_opD split: prod.splits if_splits option.splits artifact.splits)

lemma quiet_readRun: "quiet (readRun n b)"
  by (rule quiet_disk) (metis readRun_cases surjective_pairing)

lemma quiet_read_runs: "quiet (read_runs n bs)"
proof (induction bs)
  case (Cons b bs)
  then show ?case unfolding read_runs.simps using quiet_readRun by (intro allI io_keeps) auto
qed (auto intro: io_keeps)

lemma read_runs_Inr:
  assumes "read_runs n bs d = (Inr rs, d')"
  shows "set rs = {identified b r |b r. b \<in> set bs \<and> lookup (runs_in d n) b = Some (Artifact r)} \<and>
    length rs = length bs \<and> (\<forall>b\<in>set bs. lookup (runs_in d n) b \<noteq> Some BrokenArtifact)"
  using assms
proof (induction bs arbitrary: d rs)
  case Nil
  then show ?case by (simp add: io_return_def)
next
  case (Cons b bs)
  obtain r d1 rs' where steps: "readRun n b d = (Inr r, d1)" "read_runs n bs d1 = (Inr rs', d')" "rs = r # rs'"
    using Cons.prems by (auto simp: io_defs split: prod.splits sum.splits)
  obtain r0 where r0: "lookup (runs_in d n) b = Some (Artifact r0)" "r = identified b r0" "same_disk d d1"
    using readRun_cases [OF steps(1)] by blast
  show ?case using Cons.IH [OF steps(2)] runs_in_same [OF r0(3)] r0 steps(3) by auto
qed

lemma quiet_ListRuns: "quiet (ListRuns n k)"
  unfolding ListRuns_def
  by (intro allI io_keeps quiet_check_name [rule_format] quiet_disk_call [rule_format] quiet_read_runs [rule_format])

definition recorded :: "flow_disk \<Rightarrow> string \<Rightarrow> Run set" where
  "recorded d n = {identified b r |b r. lookup (runs_in d n) b = Some (Artifact r) \<and> path_ext b = runExtension}"

lemma ListRuns_Inr:
  assumes "ListRuns n k d = (Inr rs, d')"
  shows "\<exists>all. set all = recorded d n \<and> length all = length (run_names (runs_in d n)) \<and>
    rs = limit_to k (sort_by newer all) \<and> (\<forall>b. path_ext b = runExtension \<longrightarrow> lookup (runs_in d n) b \<noteq> Some BrokenArtifact)"
proof -
  obtain d1 all where steps: "disk_call (ListFailed n) d = (Inr (), d1)"
    "read_runs n (run_names (runs_in d1 n)) d1 = (Inr all, d')" "rs = limit_to k (sort_by newer all)"
    using assms
    by (auto simp: ListRuns_def check_name_def io_get_def io_defs split: prod.splits sum.splits option.splits)
  note same = runs_in_same [OF disk_call_Inr [OF steps(1)]]
  have "set all = recorded d n"
    using read_runs_Inr [OF steps(2)] same by (auto simp: recorded_def set_run_names)
  moreover have "lookup (runs_in d n) b \<noteq> Some BrokenArtifact" if "path_ext b = runExtension" for b
    using read_runs_Inr [OF steps(2)] same that by (cases "lookup (runs_in d n) b") (auto simp: set_run_names)
  moreover have "length all = length (run_names (runs_in d n))"
    using read_runs_Inr [OF steps(2)] same by simp
  ultimately show ?thesis using steps(3) by blast
qed

lemma query_flows_Inr:
  assumes "query_flows opts names d = (Inr found, d')"
    and "\<forall>n. length (run_names (runs_in d n)) \<le> RunRetention"
  shows "set found = {r. run_matches opts r \<and> (\<exists>n\<in>set names. (qo_Flow opts = [] \<or> n = qo_Flow opts) \<and> r \<in> recorded d n)} \<and>
    (\<forall>n\<in>set names. qo_Flow opts = [] \<or> n = qo_Flow opts \<longrightarrow>
       (\<forall>b. path_ext b = runExtension \<longrightarrow> lookup (runs_in d n) b \<noteq> Some BrokenArtifact))"
  using assms
proof (induction names arbitrary: d found)
  case Nil
  then show ?case by (simp add: io_return_def)
next
  case (Cons n names)
  show ?case
  proof (cases "qo_Flow opts \<noteq> [] \<and> n \<noteq> qo_Flow opts")
    case True
    then have "query_flows opts names d = (Inr found, d')" using Cons.prems(1) by simp
    from Cons.IH [OF this Cons.prems(2)] show ?thesis using True by auto
  next
    case False
    then obtain runs d1 rest where steps: "ListRuns n (int RunRetention) d = (Inr runs, d1)"
      "query_flows opts names d1 = (Inr rest, d')" "found = filter (run_matches opts) runs @ rest"
      using Cons.prems(1) by (auto simp: io_defs split: prod.splits sum.splits)
    obtain all where all: "set all = recorded d n" "length all = length (run_names (runs_in d n))"
      "runs = limit_to (int RunRetention) (sort_by newer all)"
      "\<forall>b. path_ext b = runExtension \<longrightarrow> lookup (runs_in d n) b \<noteq> Some BrokenArtifact"
      using ListRuns_Inr [OF steps(1)] by blast
    have "length all \<le> RunRetention" using all(2) Cons.prems(2) by simp
    then have "set runs = recorded d n" using all(1,3) by (simp add: limit_to_def)
    moreover have same: "runs_in d1 m = runs_in d m" for m
      using runs_in_same quietD [OF quiet_ListRuns steps(1)] by blast
    moreover have "recorded d1 m = recorded d m" for m by (simp add: recorded_def same)
    ultimately show ?thesis
      using Cons.IH [OF steps(2)] Cons.prems(2) False steps(3) all(4) by auto
  qed
qed

lemma recorded_flow: "r \<in> recorded d n \<Longrightarrow> n \<in> set (map_keys (fd_runs d))"
  by (auto simp: recorded_def runs_in_def get_or_def set_map_keys split: option.splits)

text \<open>
  C17: a search over the history of every flow that succeeds finds exactly the recorded runs that match,
  newest first by the time they started, of which it returns as many as the limit allows; while no flow
  has more artifacts than are kept, no run is overlooked.
\<close>

theorem query_finds_all:
  assumes "Query opts d = (Inr runs, d')" and "list_all (\<lambda>n. length (run_names (runs_in d n)) \<le> RunRetention) (map_keys (fd_runs d))"
  shows "\<exists>all. runs = limit_to (qo_Limit opts) all \<and>
    sorted_wrt (\<lambda>a b. run_StartedAt b \<le> run_StartedAt a) all \<and>
    set all = {r. run_matches opts r \<and> (\<exists>n. (qo_Flow opts = [] \<or> n = qo_Flow opts) \<and> r \<in> recorded d n)}"
proof -
  have few: "\<forall>n. length (run_names (runs_in d n)) \<le> RunRetention"
  proof
    fix n
    show "length (run_names (runs_in d n)) \<le> RunRetention"
    proof (cases "n \<in> set (map_keys (fd_runs d))")
      case True
      then show ?thesis using assms(2) by (simp add: list_all_iff)
    next
      case False
      then have "runs_in d n = []" by (simp add: runs_in_def get_or_def set_map_keys domIff)
      then show ?thesis by (simp add: run_names_def map_keys_def)
    qed
  qed
  obtain d1 found where steps: "disk_call (ListFailed ''runs'') d = (Inr (), d1)"
    "query_flows opts (sort (remdups (map_keys (fd_runs d1)))) d1 = (Inr found, d')"
    "runs = limit_to (qo_Limit opts) (sort_by (\<lambda>a b. run_StartedAt b < run_StartedAt a) found)"
    using assms(1)
    by (auto simp: Query_def flowsWithRuns_def io_get_def io_defs split: prod.splits sum.splits)
  note same = disk_call_Inr [OF steps(1)]
  have d1: "runs_in d1 m = runs_in d m" "recorded d1 m = recorded d m" "fd_runs d1 = fd_runs d" for m
    using runs_in_same [OF same] same_diskD [OF same] by (simp_all add: recorded_def)
  let ?all = "sort_by (\<lambda>a b. run_StartedAt b < run_StartedAt a) found"
  have "sorted_wrt (\<lambda>a b. \<not> run_StartedAt a < run_StartedAt b) ?all"
    by (rule sorted_sort_by) auto
  then have "sorted_wrt (\<lambda>a b. run_StartedAt b \<le> run_StartedAt a) ?all"
    by (simp add: not_less)
  moreover have "set ?all = {r. run_matches opts r \<and> (\<exists>n. (qo_Flow opts = [] \<or> n = qo_Flow opts) \<and> r \<in> recorded d n)}"
    using query_flows_Inr [OF steps(2)] few d1 recorded_flow by auto
  ultimately show ?thesis using steps(3) by blast
qed

definition any_run :: QueryOptions where
  "any_run = \<lparr>qo_Flow = [], qo_Status = ''OK'', qo_Since = zero_time, qo_Limit = 20\<rparr>"

definition history_after :: flow_disk where
  "history_after = snd (SaveRun history_run (history_disk []))"

lemma history_found:
  "fst (Query any_run history_after) = Inr [with_id history_run]"
  "list_all (\<lambda>n. length (run_names (runs_in history_after n)) \<le> RunRetention) (map_keys (fd_runs history_after))"
  by code_simp+

theorem query_finds_all_witness:
  "\<exists>all. [with_id history_run] = limit_to 20 all \<and>
    set all = {r. run_matches any_run r \<and> (\<exists>n. r \<in> recorded history_after n)}"
proof -
  obtain d' where "Query any_run history_after = (Inr [with_id history_run], d')"
    using history_found(1) by (metis fst_conv surj_pair)
  from query_finds_all [OF this history_found(2)] obtain all
    where all: "[with_id history_run] = limit_to (qo_Limit any_run) all"
      "set all = {r. run_matches any_run r \<and> (\<exists>n. (qo_Flow any_run = [] \<or> n = qo_Flow any_run) \<and> r \<in> recorded history_after n)}"
    by blast
  have "qo_Limit any_run = 20" "qo_Flow any_run = []" by (simp_all add: any_run_def)
  then show ?thesis using all by (intro exI [of _ all]) simp
qed

text \<open>
  C28: one artifact cut short hides the history of every flow. A write that breaks off leaves a file that
  does not decode, and from then on the list of the runs of that flow and every search that is not
  limited to another flow fail.
\<close>

theorem torn_run_hides_history:
  assumes "validName (run_Flow r) = None" and "qo_Flow opts = [] \<or> qo_Flow opts = run_Flow r"
  shows "case SaveRun r (d\<lparr>fd_ops := [Done, Broken cut_off]\<rparr>) of (out, d') \<Rightarrow>
    out = Inl (WriteFailed (run_file r)) \<and> isl (fst (ListRuns (run_Flow r) n (d'\<lparr>fd_ops := os\<rparr>))) \<and>
    isl (fst (Query opts (d'\<lparr>fd_ops := os\<rparr>)))"
proof -
  let ?dir = "run_Flow r" and ?base = "run_file r"
  obtain d' where run: "SaveRun r (d\<lparr>fd_ops := [Done, Broken cut_off]\<rparr>) = (Inl (WriteFailed ?base), d')"
    and torn: "lookup (runs_in d' ?dir) ?base = Some BrokenArtifact"
    using assms(1)
    by (simp add: SaveRun_def Let_def check_name_def make_run_dir_def disk_call_def disk_op_def io_modify_def io_defs
        write_run_def put_run_def put_runs_def runs_in_def get_or_def)
  let ?d = "d'\<lparr>fd_ops := os\<rparr>"
  have broken: "lookup (runs_in ?d ?dir) ?base = Some BrokenArtifact" using torn by (simp add: runs_in_def)
  have list: "isl (fst (ListRuns ?dir k e))" if "lookup (runs_in e ?dir) ?base = Some BrokenArtifact" for k e
    using ListRuns_Inr [of ?dir k e] that run_base(1) by (cases "ListRuns ?dir k e"; cases "fst (ListRuns ?dir k e)") auto
  have hidden: "isl (fst (query_flows opts names e))"
    if "?dir \<in> set names" "lookup (runs_in e ?dir) ?base = Some BrokenArtifact" for names e
    using that
  proof (induction names arbitrary: e)
    case (Cons n names)
    show ?case
    proof (cases "?dir = n")
      case True
      then have "isl (fst (ListRuns n (int RunRetention) e))" using list Cons.prems(2) by simp
      then obtain x e1 where "ListRuns n (int RunRetention) e = (Inl x, e1)"
        by (cases "ListRuns n (int RunRetention) e"; cases "fst (ListRuns n (int RunRetention) e)") auto
      then show ?thesis using True assms(2) by (auto simp: io_defs)
    next
      case False
      then have other: "?dir \<in> set names" using Cons.prems(1) by simp
      obtain x e1 where l: "ListRuns n (int RunRetention) e = (x, e1)" by fastforce
      have "isl (fst (query_flows opts names e1))"
        using Cons.IH [OF other] runs_in_same [OF quietD [OF quiet_ListRuns l]] Cons.prems(2) by simp
      moreover have "isl (fst (query_flows opts names e))" using Cons.IH [OF other Cons.prems(2)] .
      ultimately show ?thesis
        using l by (cases x; cases "query_flows opts names e1"; cases "fst (query_flows opts names e1)") (simp_all add: io_defs)
    qed
  qed simp
  have query: "isl (fst (query_flows opts (sort (remdups (map_keys (fd_runs e)))) e))"
    if "lookup (runs_in e ?dir) ?base = Some BrokenArtifact" for e
  proof -
    have "?dir \<in> set (map_keys (fd_runs e))"
      using that by (auto simp: runs_in_def get_or_def set_map_keys split: option.splits)
    then show ?thesis using hidden [OF _ that] by simp
  qed
  have "isl (fst (Query opts ?d))"
  proof -
    obtain x e where call: "disk_call (ListFailed ''runs'') ?d = (x, e)" by fastforce
    then have "lookup (runs_in e ?dir) ?base = Some BrokenArtifact"
      using broken runs_in_same [OF quietD [OF quiet_disk_call call]] by simp
    from query [OF this] show ?thesis
      using call by (auto simp: Query_def flowsWithRuns_def io_get_def io_defs split: prod.splits sum.splits)
  qed
  then show ?thesis using run list [OF broken] by simp
qed

theorem torn_run_hides_history_witness:
  "case SaveRun history_run (history_after\<lparr>fd_ops := [Done, Broken ''{'']\<rparr>) of (out, d') \<Rightarrow>
     out = Inl (WriteFailed (run_file history_run)) \<and> isl (fst (ListRuns (run_Flow history_run) 0 (d'\<lparr>fd_ops := []\<rparr>))) \<and>
     isl (fst (Query any_run (d'\<lparr>fd_ops := []\<rparr>)))"
  by (rule torn_run_hides_history) (code_simp, simp add: any_run_def)

end
