(* ===== verification/FlowModelFacts.thy ===== *)
theory FlowModelFacts
  imports FlowTrust
begin

text \<open>
  Extensions: where a type name can lead, which files a pin covers, that finding them ends, what the
  hashed bytes say, and which arguments pass.
\<close>

subsection \<open>Where a type leads\<close>

lemma clean_steps_no_up:
  "list_all (\<lambda>s. s \<noteq> ''..'') segs \<Longrightarrow>
   clean_steps rooted acc segs = rev acc @ filter (\<lambda>s. s \<noteq> [] \<and> s \<noteq> ''.'') segs"
  by (induction segs arbitrary: acc) (simp_all add: clean_steps_Cons clean_acc_def del: clean_steps.simps(2))

lemma split_contains: "w \<in> set (split_on c s) \<Longrightarrow> str_contains s w"
proof (induction s arbitrary: w)
  case Nil
  then show ?case by (simp add: str_contains_iff)
next
  case (Cons d s)
  obtain v vs where split: "split_on c s = v # vs" using split_on_nonempty [of c s] by (cases "split_on c s") auto
  have "str_contains s v" using Cons.IH split by simp
  moreover have "\<exists>r. s = v @ r"
  proof -
    have "str_join [c] (v # vs) = s" using join_split_on [of c s] split by simp
    then show ?thesis by (cases vs) auto
  qed
  ultimately show ?case
    using Cons split
    by (auto simp: str_contains_iff split: if_splits) (metis append_Cons append_Nil)+
qed

lemma split_suffix:
  "c \<notin> set t \<Longrightarrow> split_on c (s @ t) = butlast (split_on c s) @ [last (split_on c s) @ t]"
proof (induction s)
  case Nil
  then show ?case by (simp add: split_on_word)
next
  case (Cons d s)
  obtain v vs where "split_on c s = v # vs" using split_on_nonempty [of c s] by (cases "split_on c s") auto
  then show ?case using Cons by (auto split: list.splits)
qed

lemma ModelsDir_abs:
  assumes "has_prefix (DataDir p) ''/''"
  shows "\<exists>rs. rs \<noteq> [] \<and> list_all plain_segment rs \<and> ModelsDir p = abs_path rs"
proof -
  let ?up = "[''extensions'', ''models'']" and ?dir = "split_on CHR ''/'' (DataDir p)"
  have nonempty: "DataDir p \<noteq> []" using assms by auto
  have "split_on CHR ''/'' (DataDir p @ CHR ''/'' # ''extensions/models'') = ?dir @ ?up"
    unfolding split_on_append by simp
  moreover have "list_all plain_segment ?up" by (simp add: plain_segment_def)
  ultimately have "clean_steps True [] (split_on CHR ''/'' (DataDir p @ CHR ''/'' # ''extensions/models'')) =
      clean_steps True [] ?dir @ ?up"
    using clean_steps_append by metis
  moreover have "has_prefix (DataDir p @ r) ''/''" for r
    using assms by (rule has_prefix_append_mono)
  ultimately have "ModelsDir p = abs_path (clean_steps True [] ?dir @ ?up)"
    using nonempty by (simp add: ModelsDir_def path_Join_def path_Clean_def Let_def abs_path_def)
  moreover have "list_all plain_segment (clean_steps True [] ?dir @ ?up)"
    using clean_steps_rooted [OF _ split_segments, of "[]" "DataDir p"] by (simp add: plain_segment_def)
  ultimately show ?thesis by blast
qed

text \<open>
  C26: a type leads to a file below the directory of the models and nowhere else. On a machine whose
  data directory is an absolute path, what \<open>ModelPath\<close> accepts is that directory followed by proper
  segments, none of them a step up, and ends in \<open>.ts\<close>.
\<close>

theorem model_below_root:
  assumes "has_prefix (DataDir p) ''/''" and "ModelPath p typeName = Inr path"
  shows "\<exists>segs. segs \<noteq> [] \<and> list_all plain_segment segs \<and> path = ModelsDir p @ ''/'' @ str_join ''/'' segs \<and>
    has_suffix path ''.ts''"
proof -
  define c where "c = trim_prefix typeName ''@'' @ ''.ts''"
  obtain rs where rs: "list_all plain_segment rs" "ModelsDir p = abs_path rs" "rs \<noteq> []"
    using ModelsDir_abs [OF assms(1)] by blast
  have ok: "\<not> str_contains (trim_prefix typeName ''@'') ''..''" "path = path_Join [abs_path rs, c]"
    "has_prefix path (abs_path rs @ ''/'')"
    using assms(2) by (auto simp: ModelPath_def Let_def rs(2) c_def modelExt_def split: if_splits)
  define segs where "segs = filter (\<lambda>s. s \<noteq> [] \<and> s \<noteq> ''.'') (split_on CHR ''/'' c)"
  let ?d = "split_on CHR ''/'' (trim_prefix typeName ''@'')"
  have split: "split_on CHR ''/'' c = butlast ?d @ [last ?d @ ''.ts'']"
    unfolding c_def by (rule split_suffix) simp
  have "s \<noteq> ''..''" if "s \<in> set ?d" for s
    using split_contains [OF that] ok(1) by auto
  then have no_up: "list_all (\<lambda>s. s \<noteq> ''..'') (split_on CHR ''/'' c)"
    unfolding split by (auto simp: list_all_iff dest: in_set_butlastD)
  have plain: "list_all plain_segment segs"
    using no_up split_segments [of c] by (auto simp: segs_def plain_segment_def list_all_iff)
  have last: "segs = filter (\<lambda>s. s \<noteq> [] \<and> s \<noteq> ''.'') (butlast ?d) @ [last ?d @ ''.ts'']"
    unfolding segs_def split by auto
  have "split_on CHR ''/'' (abs_path rs @ CHR ''/'' # c) = split_on CHR ''/'' (abs_path rs) @ split_on CHR ''/'' c"
    by (rule split_on_append)
  moreover have "clean_steps True [] (split_on CHR ''/'' (abs_path rs) @ split_on CHR ''/'' c) = rs @ segs"
  proof -
    have "path_Clean (abs_path rs) = abs_path rs" by (rule path_Clean_abs [OF rs(1)])
    have "list_all (\<lambda>s. s \<noteq> ''..'') rs" using rs(1) by (auto simp: list_all_iff plain_segment_def)
    moreover have "filter (\<lambda>s. s \<noteq> [] \<and> s \<noteq> ''.'') rs = rs"
      using rs(1) by (auto simp: list_all_iff plain_segment_def filter_id_conv)
    moreover have "split_on CHR ''/'' (abs_path rs) = [] # (if rs = [] then [[]] else rs)"
      using split_on_append [of "CHR ''/''" "[]" "str_join ''/'' rs"] split_join_plain [OF rs(1)]
      by (simp add: abs_path_def)
    ultimately show ?thesis
      using clean_steps_no_up [of "split_on CHR ''/'' (abs_path rs) @ split_on CHR ''/'' c" True "[]"] no_up
      by (auto simp: segs_def)
  qed
  moreover have "c \<noteq> []" "abs_path rs \<noteq> []" "has_prefix (abs_path rs @ CHR ''/'' # c) ''/''"
    by (simp_all add: c_def abs_path_def)
  ultimately have path: "path = abs_path (rs @ segs)"
    unfolding ok(2) by (simp add: path_Join_def path_Clean_def Let_def abs_path_def)
  moreover have "segs \<noteq> []" using last by simp
  ultimately have "path = ModelsDir p @ ''/'' @ str_join ''/'' segs"
    using rs(2,3) by (simp add: abs_path_def join_append)
  moreover have "has_suffix (str_join ''/'' segs) ''.ts''"
    using last by (auto simp: join_snoc has_suffix_iff)
  then have "has_suffix (ModelsDir p @ ''/'' @ str_join ''/'' segs) ''.ts''"
    unfolding has_suffix_iff by (metis append.assoc)
  ultimately show ?thesis using plain \<open>segs \<noteq> []\<close> by auto
qed

definition model_env :: process where
  "model_env = \<lparr>getenv = (\<lambda>_. ''/d''), home_dir = ''/h'', hostname = None, config_at = (\<lambda>_. NoFile)\<rparr>"

lemma model_env_path: "ModelPath model_env ''@git/tag'' = Inr ''/d/extensions/models/git/tag.ts''"
  by code_simp

theorem model_below_root_witness:
  "\<exists>segs. segs \<noteq> [] \<and> list_all plain_segment segs \<and>
     ''/d/extensions/models/git/tag.ts'' = ModelsDir model_env @ ''/'' @ str_join ''/'' segs"
proof -
  have "has_prefix (DataDir model_env) ''/''" by code_simp
  from model_below_root [OF this model_env_path] show ?thesis by blast
qed

subsection \<open>What the hashed bytes say\<close>

lemma nat_digits_no_nul: "CHR 0x00 \<notin> set (nat_digits n)"
proof (induction n rule: nat_digits.induct)
  case (1 n)
  have digit: "CHR 0x00 \<noteq> char_of (48 + k)" if "k < 10" for k :: nat
  proof
    assume "CHR 0x00 = char_of (48 + k)"
    then have "char_of (48 + k) = CHR 0x00" by simp
    then show False using that by (simp add: char_of_eq_iff take_bit_eq_mod)
  qed
  show ?case
    using 1 digit [of n] digit [of "n mod 10"]
    by (cases "n < 10") (subst nat_digits.simps, simp del: nat_digits.simps)+
qed

lemma split_at_nul:
  "CHR 0x00 \<notin> set a \<Longrightarrow> CHR 0x00 \<notin> set b \<Longrightarrow> a @ CHR 0x00 # x = b @ CHR 0x00 # y \<Longrightarrow> a = b \<and> x = y"
proof (induction a arbitrary: b)
  case Nil
  then show ?case by (cases b) auto
next
  case (Cons c a)
  then show ?case by (cases b) auto
qed

lemma source_bytes_first:
  assumes "source_bytes s @ x = source_bytes t @ y"
    and "CHR 0x00 \<notin> set (ms_Rel s)" "CHR 0x00 \<notin> set (ms_Rel t)"
  shows "ms_Rel s = ms_Rel t \<and> ms_Data s = ms_Data t \<and> x = y"
proof -
  let ?n = "\<lambda>s. nat_digits (length (ms_Data s))"
  have bytes: "source_bytes s @ x = ms_Rel s @ CHR 0x00 # (?n s @ CHR 0x00 # (ms_Data s @ x))" for s x
    by (simp add: source_bytes_def itoa_def)
  have rel: "ms_Rel s = ms_Rel t" "?n s @ CHR 0x00 # (ms_Data s @ x) = ?n t @ CHR 0x00 # (ms_Data t @ y)"
    using split_at_nul [OF assms(2,3)] assms(1) unfolding bytes by blast+
  have "?n s = ?n t" "ms_Data s @ x = ms_Data t @ y"
    using split_at_nul [OF nat_digits_no_nul nat_digits_no_nul rel(2)] by blast+
  then show ?thesis using rel(1) nat_digits_inj by (auto simp: append_eq_append_conv)
qed

text \<open>
  C25: the bytes that are hashed for a model say which files it runs and what is in each. Two lists of
  files give the same bytes exactly when they have the same names and contents in the same order, so no
  file can change, move or take over a part of another without the bytes changing.
\<close>

theorem source_bytes_faithful:
  assumes "list_all (\<lambda>s. CHR 0x00 \<notin> set (ms_Rel s)) xs" and "list_all (\<lambda>s. CHR 0x00 \<notin> set (ms_Rel s)) ys"
  shows "concat (map source_bytes xs) = concat (map source_bytes ys) \<longleftrightarrow>
    map (\<lambda>s. (ms_Rel s, ms_Data s)) xs = map (\<lambda>s. (ms_Rel s, ms_Data s)) ys"
proof
  assume "map (\<lambda>s. (ms_Rel s, ms_Data s)) xs = map (\<lambda>s. (ms_Rel s, ms_Data s)) ys"
  then have "map (\<lambda>(n, d). n @ [CHR 0x00] @ itoa (int (length d)) @ [CHR 0x00] @ d) (map (\<lambda>s. (ms_Rel s, ms_Data s)) xs) =
      map (\<lambda>(n, d). n @ [CHR 0x00] @ itoa (int (length d)) @ [CHR 0x00] @ d) (map (\<lambda>s. (ms_Rel s, ms_Data s)) ys)"
    by simp
  then have "map source_bytes xs = map source_bytes ys" by (simp add: source_bytes_def [abs_def] comp_def)
  then show "concat (map source_bytes xs) = concat (map source_bytes ys)" by simp
next
  assume "concat (map source_bytes xs) = concat (map source_bytes ys)"
  then show "map (\<lambda>s. (ms_Rel s, ms_Data s)) xs = map (\<lambda>s. (ms_Rel s, ms_Data s)) ys"
    using assms
  proof (induction xs arbitrary: ys)
    case Nil
    then show ?case by (cases ys) (auto simp: source_bytes_def)
  next
    case (Cons s xs)
    then obtain t ys' where ys: "ys = t # ys'" by (cases ys) (auto simp: source_bytes_def)
    have "ms_Rel s = ms_Rel t \<and> ms_Data s = ms_Data t \<and> concat (map source_bytes xs) = concat (map source_bytes ys')"
      by (rule source_bytes_first) (use Cons.prems ys in simp_all)
    then show ?case using Cons.IH [of ys'] Cons.prems ys by simp
  qed
qed

definition source_of :: "string \<Rightarrow> string \<Rightarrow> ModelSource" where
  "source_of name data = \<lparr>ms_Rel = name, ms_Path = name, ms_Data = data\<rparr>"

theorem source_bytes_faithful_witness:
  "concat (map source_bytes [source_of ''a.ts'' ''b'', source_of ''c.ts'' ''d'']) \<noteq>
   concat (map source_bytes [source_of ''a.ts'' ''bd'', source_of ''c.ts'' []])"
  by (subst source_bytes_faithful) (simp_all add: source_of_def)

subsection \<open>Arguments\<close>

definition argument_fits :: "Argument \<Rightarrow> yaml_value \<Rightarrow> bool" where
  "argument_fits a v \<longleftrightarrow>
     (ar_Type a = ''string'' \<longrightarrow> (\<exists>text. v = YString text \<and> (ar_Enum a = [] \<or> text \<in> set (ar_Enum a)))) \<and>
     (ar_Type a = ''number'' \<longrightarrow> v = YInt \<or> v = YFloat) \<and>
     (ar_Type a = ''boolean'' \<longrightarrow> v = YBool)"

lemma check_argument_None: "check_argument a step name v = None \<longleftrightarrow> argument_fits a v"
  by (cases v) (auto simp: check_argument_def checkEnum_def argument_fits_def)

text \<open>
  C27: the arguments of a step pass exactly when every required one is given, every one given is known,
  and each has the kind the model declares, among its choices where it declares some.
\<close>

theorem arguments_checked:
  "ValidateArguments s step given = None \<longleftrightarrow>
     list_all (\<lambda>(name, a). case lookup given name of None \<Rightarrow> \<not> ar_Required a | Some v \<Rightarrow> argument_fits a v)
       (sc_Arguments s) \<and>
     dom (lookup given) \<subseteq> dom (lookup (sc_Arguments s))"
proof -
  have "first_error (\<lambda>name. if lookup (sc_Arguments s) name = None then Some (ArgumentUnknown step name) else None)
      (map_keys given) = None \<longleftrightarrow> dom (lookup given) \<subseteq> dom (lookup (sc_Arguments s))"
    by (auto simp: set_map_keys)
  then show ?thesis
    by (auto simp: ValidateArguments_def list_all_iff check_argument_None split: option.split)
qed

subsection \<open>A pattern that ends the process\<close>

text \<open>
  When what follows the star of a pattern overlaps what comes before it, a specifier that both match
  but that is shorter than the two together makes the slice expression fail.
\<close>

theorem overlapping_pattern_panics:
  assumes "lookup [(before @ ''*'' @ behind, target)] spec = None" and "CHR ''*'' \<notin> set before"
    and "has_prefix spec before" and "has_suffix spec behind" and "length spec < length before + length behind"
  shows "matchSubpath spec [(before @ ''*'' @ behind, target)] = Inl SlicePanic"
proof -
  have "str_index (before @ CHR ''*'' # behind) ''*'' = Some (length before)"
    by (rule str_index_sep [OF assms(2)])
  then show ?thesis
    using assms by (simp add: matchSubpath_def matches_star_def)
qed

theorem overlapping_pattern_panics_witness:
  "matchSubpath ''#lib/'' [(''#lib/*/'', ''./lib/*/index.ts'')] = Inl SlicePanic"
  using overlapping_pattern_panics [of "''#lib/''" "''/''" "''./lib/*/index.ts''" "''#lib/''"] by code_simp

end
