(* ===== verification/FlowClosure.thy ===== *)
theory FlowClosure
  imports FlowModelFacts
begin

text \<open>
  The walk over the imports of a model: it ends, and what it returns is closed under imports. The
  invariant of the loop is that of a worklist: every import of a file that was read is among those read
  or still to read.
\<close>

subsection \<open>The walk ends\<close>

text \<open>Every name a file can be reached by, apart from the entry.\<close>

definition all_specifiers :: "flow_disk \<Rightarrow> string list" where
  "all_specifiers d = concat (map (\<lambda>(p, data). specifiers data) (fd_files d))"

definition reachable_names :: "flow_disk \<Rightarrow> string set" where
  "reachable_names d =
     set (map_keys (fd_files d)) \<union> set (all_specifiers d) \<union> (\<lambda>s. s @ modelExt) ` set (all_specifiers d)"

lemma reachable_finite: "finite (reachable_names d)"
  by (simp add: reachable_names_def)

lemma reachable_bound: "card (insert entry (reachable_names d)) \<le> sources_bound d"
proof -
  let ?n = "length (all_specifiers d)"
  have "card (reachable_names d) \<le> card (set (map_keys (fd_files d)) \<union> set (all_specifiers d)) +
      card ((\<lambda>s. s @ modelExt) ` set (all_specifiers d))"
    unfolding reachable_names_def by (rule card_Un_le)
  also have "\<dots> \<le> (card (set (map_keys (fd_files d))) + card (set (all_specifiers d))) + card (set (all_specifiers d))"
    by (intro add_mono card_Un_le card_image_le) simp
  also have "\<dots> \<le> length (fd_files d) + ?n + ?n"
    using card_length [of "map_keys (fd_files d)"] card_length [of "all_specifiers d"]
    by (simp add: map_keys_def)
  finally have "card (reachable_names d) \<le> length (fd_files d) + 2 * ?n" by simp
  then show ?thesis
    using card_insert_le_m1 [of "card (reachable_names d) + 1" "reachable_names d" entry] card_insert_if [OF reachable_finite, of entry d]
    by (simp add: sources_bound_def all_specifiers_def split: if_splits)
qed

lemma reachable_same: "same_disk d d' \<Longrightarrow> reachable_names d' = reachable_names d \<and> sources_bound d' = sources_bound d"
  using same_diskD [of d d'] by (simp add: reachable_names_def all_specifiers_def sources_bound_def)

lemma stat_file_True: "stat_file p d = (Inr True, d') \<Longrightarrow> p \<in> set (map_keys (fd_files d))"
  using same_diskD [OF disk_opD]
  by (fastforce simp: stat_file_def set_map_keys split: prod.splits if_splits)

lemma first_file_Some:
  "first_file cs d = (Some f, d') \<Longrightarrow> f \<in> set cs \<and> path_Clean f \<in> set (map_keys (fd_files d))"
proof (induction cs arbitrary: d)
  case (Cons c cs)
  obtain r d1 where stat: "stat_file (path_Clean c) d = (r, d1)" by fastforce
  show ?case
  proof (cases "r = Inr True")
    case True
    then show ?thesis using Cons.prems stat stat_file_True by auto
  next
    case False
    then have "first_file cs d1 = (Some f, d')"
      using Cons.prems stat by (cases r) (auto split: bool.splits)
    have "fd_files d1 = fd_files d" using same_diskD [OF quietD [OF quiet_stat_file stat]] by blast
    then show ?thesis using Cons.IH [OF \<open>first_file cs d1 = (Some f, d')\<close>] by simp
  qed
qed simp

lemma abs_ext:
  assumes "list_all plain_segment segs"
  shows "\<exists>segs'. list_all plain_segment segs' \<and> abs_path segs @ modelExt = abs_path segs'"
proof (cases segs rule: rev_cases)
  case Nil
  then show ?thesis
    by (intro exI [of _ "[modelExt]"]) (simp add: abs_path_def modelExt_def plain_segment_def)
next
  case (snoc xs y)
  then show ?thesis
    using assms
    by (intro exI [of _ "xs @ [y @ modelExt]"]) (auto simp: abs_path_def join_snoc modelExt_def plain_segment_def)
qed

lemma Join_abs:
  assumes "has_prefix dir ''/''"
  shows "\<exists>segs. list_all plain_segment segs \<and> path_Join [dir, n] = abs_path segs"
proof -
  have "dir \<noteq> []" using assms by auto
  then have "path_Join [dir, n] = path_Clean (if n = [] then dir else dir @ ''/'' @ n)"
    by (simp add: path_Join_def)
  then show ?thesis using path_Clean_rooted has_prefix_append_mono [OF assms] assms by (metis (full_types))
qed

lemma abs_rooted [simp]: "has_prefix (abs_path segs) ''/''"
  by (simp add: abs_path_def)

text \<open>What an absolute candidate resolves to.\<close>

lemma existingFile_names:
  assumes "existingFile base d = (Some f, d')" and "has_prefix base ''/''"
  shows "has_prefix f ''/'' \<and> (f \<in> set (map_keys (fd_files d)) \<or> f = base \<or> f = base @ modelExt) \<and>
    (path_Clean base = base \<longrightarrow> f \<in> set (map_keys (fd_files d)))"
proof -
  have f: "f \<in> {base, base @ modelExt, path_Join [base, ''index'' @ modelExt]}"
    "path_Clean f \<in> set (map_keys (fd_files d))"
    using first_file_Some assms(1) unfolding existingFile_def by fastforce+
  obtain segs where index: "list_all plain_segment segs" "path_Join [base, ''index'' @ modelExt] = abs_path segs"
    using Join_abs [OF assms(2)] by blast
  obtain bs where bs: "list_all plain_segment bs" "path_Clean base = abs_path bs"
    using path_Clean_rooted [OF assms(2)] by blast
  have "path_Clean (base @ modelExt) = base @ modelExt" if "path_Clean base = base"
    using abs_ext [OF bs(1)] path_Clean_abs bs(2) that by metis
  then show ?thesis
    using f index path_Clean_abs [OF index(1)] has_prefix_append_mono [OF assms(2)] assms(2) by auto
qed

lemma resolveImport_names:
  assumes "resolveImport fromDir spec root imports d = (Inr (Some f), d')"
    and "has_prefix fromDir ''/''" "has_prefix root ''/''"
  shows "has_prefix f ''/'' \<and> (f \<in> set (map_keys (fd_files d)) \<or> f = spec \<or> f = spec @ modelExt)"
proof -
  obtain c d1 where c: "import_candidate fromDir spec root imports = Inr (Some c)" "existingFile c d = (Some f, d1)"
    using assms(1) by (auto simp: resolveImport_def split: sum.splits option.splits prod.splits if_splits)
  consider (joined) dir n where "has_prefix dir ''/''" "c = path_Join [dir, n]" | (absolute) "c = spec" "has_prefix spec ''/''"
    using c(1) assms(2,3) by (auto simp: import_candidate_def split: if_splits sum.splits option.splits)
  then show ?thesis
  proof cases
    case joined
    obtain segs where segs: "list_all plain_segment segs" "c = abs_path segs" using Join_abs [OF joined(1)] joined(2) by blast
    then have "path_Clean c = c" "has_prefix c ''/''" using path_Clean_abs by simp_all
    then show ?thesis using existingFile_names [OF c(2)] by blast
  next
    case absolute
    then show ?thesis using existingFile_names [OF c(2)] by blast
  qed
qed

lemma resolve_all_names:
  assumes "resolve_all fromDir root imports specs d = (Inr found, d')"
    and "has_prefix fromDir ''/''" "has_prefix root ''/''" "f \<in> set found"
  shows "has_prefix f ''/'' \<and> (f \<in> set (map_keys (fd_files d)) \<or> f \<in> set specs \<or> f \<in> (\<lambda>s. s @ modelExt) ` set specs)"
  using assms(1,4)
proof (induction specs arbitrary: d found)
  case Nil
  then show ?case by (simp add: io_return_def)
next
  case (Cons spec specs)
  obtain x d1 rest where steps: "resolveImport fromDir spec root imports d = (Inr x, d1)"
    "resolve_all fromDir root imports specs d1 = (Inr rest, d')" "found = (case x of None \<Rightarrow> rest | Some p \<Rightarrow> p # rest)"
    using Cons.prems(1) by (auto simp: io_defs split: prod.splits sum.splits)
  have files: "fd_files d1 = fd_files d" using same_diskD [OF quietD [OF quiet_resolveImport steps(1)]] by blast
  show ?case
  proof (cases "x = Some f")
    case True
    then have "has_prefix f ''/'' \<and> (f \<in> set (map_keys (fd_files d)) \<or> f = spec \<or> f = spec @ modelExt)"
      using resolveImport_names [OF _ assms(2,3)] steps(1) by blast
    then show ?thesis by auto
  next
    case False
    then have "f \<in> set rest" using Cons.prems(2) steps(3) by (auto split: option.splits)
    then show ?thesis using Cons.IH [OF steps(2)] files by auto
  qed
qed

lemma path_dir_abs: "has_prefix p ''/'' \<Longrightarrow> has_prefix (path_dir p) ''/''"
proof -
  assume p: "has_prefix p ''/''"
  then obtain r where r: "p = CHR ''/'' # r" by (auto simp: has_prefix_iff)
  have "last_index_byte p (\<lambda>c. c = CHR ''/'') \<noteq> None" unfolding r by (auto split: option.split)
  then obtain i where i: "last_index_byte p (\<lambda>c. c = CHR ''/'') = Some i" by blast
  have "has_prefix (take (i + 1) p) ''/''" by (simp add: r)
  then show ?thesis using path_Clean_rooted i by (fastforce simp: path_dir_def)
qed

lemma readSource_Inr:
  assumes "readSource path root imports d = (Inr (src, imported), d')"
  shows "\<exists>data d1. lookup (fd_files d) (path_Clean path) = Some data \<and> same_disk d d1 \<and>
    src = \<lparr>ms_Rel = path_Rel root path, ms_Path = path, ms_Data = data\<rparr> \<and>
    resolve_all (path_dir path) root imports (specifiers data) d1 = (Inr imported, d')"
proof -
  obtain data d1 where "read_file (path_Clean path) d = (Inr data, d1)"
    "src = \<lparr>ms_Rel = path_Rel root path, ms_Path = path, ms_Data = data\<rparr>"
    "resolve_all (path_dir path) root imports (specifiers data) d1 = (Inr imported, d')"
    using assms by (auto simp: readSource_def io_bind_def io_return_def store_io_Inr split: prod.splits sum.splits)
  then show ?thesis using read_file_Inr quietD [OF quiet_read_file] by blast
qed

lemma readSource_names:
  assumes "readSource path root imports d = (Inr (src, imported), d')"
    and "has_prefix path ''/''" "has_prefix root ''/''" "f \<in> set imported"
  shows "has_prefix f ''/'' \<and> f \<in> reachable_names d"
proof -
  obtain data d1 where src: "lookup (fd_files d) (path_Clean path) = Some data" "same_disk d d1"
    "resolve_all (path_dir path) root imports (specifiers data) d1 = (Inr imported, d')"
    using readSource_Inr [OF assms(1)] by blast
  have "set (specifiers data) \<subseteq> set (all_specifiers d)"
    using map_of_SomeD [OF src(1)] by (force simp: all_specifiers_def)
  then show ?thesis
    using resolve_all_names [OF src(3) path_dir_abs [OF assms(2)] assms(3,4)] same_diskD [OF src(2)]
    by (auto simp: reachable_names_def)
qed

lemma dropWhile_in: "dropWhile (\<lambda>p. p \<in> A) queue = path # rest \<Longrightarrow> path \<notin> A \<and> path \<in> set queue \<and> set rest \<subseteq> set queue"
  by (metis hd_dropWhile list.distinct(1) list.sel(1) list.set_intros(1) set_dropWhileD set_subset_Cons subset_iff)

lemma match_patterns_error: "match_patterns spec subs = Inl e \<Longrightarrow> e = SlicePanic"
  by (induction spec subs rule: match_patterns.induct) (auto simp: Let_def split: option.splits if_splits)

lemma resolveImport_error: "resolveImport fromDir spec root subs d = (Inl e, d') \<Longrightarrow> e \<noteq> OutOfFuel"
  by (auto simp: resolveImport_def import_candidate_def matchSubpath_def dest: match_patterns_error
      split: sum.splits option.splits if_splits prod.splits)

lemma resolve_all_error: "resolve_all fromDir root subs specs d = (Inl e, d') \<Longrightarrow> e \<noteq> OutOfFuel"
proof (induction specs arbitrary: d)
  case (Cons spec specs)
  obtain x d1 where one: "resolveImport fromDir spec root subs d = (x, d1)" by fastforce
  obtain y d2 where rest: "resolve_all fromDir root subs specs d1 = (y, d2)" by fastforce
  show ?case
    using Cons.prems one rest Cons.IH [of d1] resolveImport_error [of fromDir spec root subs d]
    by (cases x; cases y) (auto simp: io_bind_def io_return_def)
qed (simp add: io_return_def)

lemma readSource_error: "readSource path root imports d = (Inl e, d') \<Longrightarrow> e \<noteq> OutOfFuel"
  by (auto simp: readSource_def io_bind_def io_return_def store_io_def dest: resolve_all_error
      split: prod.splits sum.splits)

lemma sources_loop_done:
  "dropWhile (\<lambda>p. p \<in> set seen) queue = [] \<Longrightarrow> sources_loop n root subs seen queue d = (Inr [], d)"
  by (subst sources_loop.simps) (simp only: list.case)

lemma sources_loop_next:
  "dropWhile (\<lambda>p. p \<in> set seen) queue = path # rest \<Longrightarrow> sources_loop (Suc n) root subs seen queue d =
     io_bind (readSource path root subs) (\<lambda>(src, imported).
       io_bind (sources_loop n root subs (path # seen) (rest @ imported)) (\<lambda>out. io_return (src # out))) d"
  by (subst sources_loop.simps) (simp only: list.case nat.case)

lemma sources_loop_ends:
  assumes "has_prefix root ''/''" "A = insert entry (reachable_names d)"
    and "distinct seen" "set seen \<subseteq> A" "set queue \<subseteq> A" "list_all (\<lambda>p. has_prefix p ''/'') queue"
    and "card A \<le> n + length seen"
  shows "fst (sources_loop n root imports seen queue d) \<noteq> Inl OutOfFuel"
  using assms
proof (induction n arbitrary: seen queue d)
  case 0
  have "finite A" unfolding 0(2) using reachable_finite by simp
  moreover have "card A \<le> card (set seen)" using distinct_card [OF 0(3)] 0(7) by simp
  ultimately have "set seen = A" using card_seteq 0(4) by metis
  then have "dropWhile (\<lambda>p. p \<in> set seen) queue = []" using 0(5) by (simp add: dropWhile_eq_Nil_conv subset_iff)
  then show ?case by (simp only: sources_loop_done fst_conv) simp
next
  case (Suc n)
  show ?case
  proof (cases "dropWhile (\<lambda>p. p \<in> set seen) queue")
    case Nil
    then show ?thesis by (simp only: sources_loop_done fst_conv) simp
  next
    case (Cons path rest)
    note pick = dropWhile_in [OF Cons]
    obtain x d1 where read: "readSource path root imports d = (x, d1)" by fastforce
    show ?thesis
    proof (cases x)
      case (Inl e)
      have "e \<noteq> OutOfFuel" using readSource_error read Inl by blast
      then show ?thesis using read Inl by (simp add: sources_loop_next [OF Cons] io_bind_def)
    next
      case (Inr y)
      obtain src imported where y: "y = (src, imported)" by (cases y)
      note names = readSource_names [OF read [unfolded Inr y] _ Suc.prems(1)]
      have path: "has_prefix path ''/''" using pick Suc.prems(6) by (auto simp: list_all_iff)
      have "fst (sources_loop n root imports (path # seen) (rest @ imported) d1) \<noteq> Inl OutOfFuel"
      proof (rule Suc.IH)
        show "A = insert entry (reachable_names d1)"
          using Suc.prems(2) reachable_same [OF quietD [OF quiet_readSource read]] by simp
        show "set (rest @ imported) \<subseteq> A" using pick Suc.prems(2,5) names [OF path] by auto
        show "list_all (\<lambda>p. has_prefix p ''/'') (rest @ imported)"
          using pick Suc.prems(6) names [OF path] by (auto simp: list_all_iff)
      qed (use pick Suc.prems in auto)
      then show ?thesis
        using read Inr y
        by (auto simp: sources_loop_next [OF Cons] io_bind_def io_return_def split: prod.splits sum.splits)
    qed
  qed
qed

text \<open>
  C24: finding the files of a model ends, whatever imports what, in a circle too: when the data directory
  is an absolute path the walk never needs more rounds than there are names a file can be reached by.
\<close>

theorem import_walk_ends:
  assumes "has_prefix (DataDir (fd_env d)) ''/''" and "ModelPath (fd_env d) typeName = Inr entry"
  shows "fst (ModelSources entry d) \<noteq> Inl OutOfFuel"
proof -
  obtain o' d1 where op: "disk_op d = (o', d1)" by fastforce
  note same = same_diskD [OF disk_opD [OF op]]
  let ?root = "ModelsDir (fd_env d1)" and ?subs = "if o' = Done then fd_subpaths d1 else []"
  have root: "has_prefix ?root ''/''"
    using ModelsDir_abs [OF assms(1)] same by (auto simp: abs_path_def)
  moreover have "has_prefix entry (?root @ ''/'')"
    using assms(2) same by (auto simp: ModelPath_def Let_def split: if_splits)
  ultimately have entry: "has_prefix entry ''/''" using has_prefix_trans has_prefix_append_mono by metis
  have "fst (sources_loop (sources_bound d1) ?root ?subs [] [entry] d1) \<noteq> Inl OutOfFuel"
    by (rule sources_loop_ends [OF root refl]) (use entry reachable_bound in auto)
  then show ?thesis
    by (auto simp: ModelSources_alt op io_bind_def io_return_def split: prod.splits sum.splits)
qed

definition walk_disk :: flow_disk where
  "walk_disk = \<lparr>fd_env = model_env,
     fd_files = [(''/d/extensions/models/a.ts'', ''import x from \"./b\"''), (''/d/extensions/models/b.ts'', ''import y from \"./a.ts\"'')],
     fd_runs = [], fd_subpaths = [], fd_trust = Absent, fd_ops = []\<rparr>"

lemma walk_entry: "ModelPath (fd_env walk_disk) ''a'' = Inr ''/d/extensions/models/a.ts''"
  by code_simp

theorem import_walk_ends_witness: "fst (ModelSources ''/d/extensions/models/a.ts'' walk_disk) \<noteq> Inl OutOfFuel"
proof -
  have "has_prefix (DataDir (fd_env walk_disk)) ''/''" by code_simp
  then show ?thesis using import_walk_ends walk_entry by blast
qed

subsection \<open>What it returns is closed\<close>

lemma calm_stat: "fd_ops d = [] \<Longrightarrow> snd (stat_file p d) = d"
  by (simp add: stat_file_def)

lemma calm_first_file: "fd_ops d = [] \<Longrightarrow> snd (first_file cs d) = d"
proof (induction cs)
  case (Cons c cs)
  then show ?case
    using calm_stat [of d "path_Clean c"] by (cases "stat_file (path_Clean c) d") (auto split: sum.split bool.split)
qed simp

lemma calm_resolveImport: "fd_ops d = [] \<Longrightarrow> snd (resolveImport fromDir spec root subs d) = d"
proof -
  assume calm: "fd_ops d = []"
  have exists: "\<exists>r. existingFile c d = (r, d)" for c
    using calm_first_file [OF calm] unfolding existingFile_def by (metis prod.collapse)
  show ?thesis
  proof (cases "import_candidate fromDir spec root subs")
    case (Inr c)
    show ?thesis
    proof (cases c)
      case (Some candidate)
      obtain r where "existingFile candidate d = (r, d)" using exists by blast
      then show ?thesis using Inr Some by (auto simp: resolveImport_def split: option.split)
    qed (simp add: resolveImport_def Inr)
  qed (simp add: resolveImport_def)
qed

lemma calm_resolve_all:
  assumes "fd_ops d = []" and "resolve_all fromDir root subs specs d = (Inr found, d')"
  shows "d' = d \<and> set found = {f. \<exists>spec\<in>set specs. fst (resolveImport fromDir spec root subs d) = Inr (Some f)}"
  using assms(2)
proof (induction specs arbitrary: found)
  case Nil
  then show ?case by (simp add: io_return_def)
next
  case (Cons spec specs)
  obtain x where one: "resolveImport fromDir spec root subs d = (x, d)"
    using calm_resolveImport [OF assms(1)] by (metis prod.collapse)
  then obtain y rest where steps: "x = Inr y" "resolve_all fromDir root subs specs d = (Inr rest, d')"
    "found = (case y of None \<Rightarrow> rest | Some p \<Rightarrow> p # rest)"
    using Cons.prems by (auto simp: io_bind_def io_return_def split: prod.splits sum.splits)
  show ?case using Cons.IH [OF steps(2)] one steps(1,3) by (auto split: option.splits)
qed

lemma calm_readSource:
  assumes "fd_ops d = []" and "readSource path root subs d = (Inr (src, imported), d')"
  shows "d' = d \<and> lookup (fd_files d) (path_Clean path) = Some (ms_Data src) \<and> ms_Path src = path \<and>
    ms_Rel src = path_Rel root path \<and>
    set imported = {f. \<exists>spec\<in>set (specifiers (ms_Data src)).
      fst (resolveImport (path_dir path) spec root subs d) = Inr (Some f)}"
proof -
  have "read_file (path_Clean path) d = (r, d1) \<Longrightarrow> d1 = d" for r d1
    using assms(1) by (simp add: read_file_def)
  then obtain data where "lookup (fd_files d) (path_Clean path) = Some data"
    "src = \<lparr>ms_Rel = path_Rel root path, ms_Path = path, ms_Data = data\<rparr>"
    "resolve_all (path_dir path) root subs (specifiers data) d = (Inr imported, d')"
    using assms(2) read_file_Inr
    by (auto simp: readSource_def io_bind_def io_return_def store_io_Inr split: prod.splits sum.splits)
  then show ?thesis using calm_resolve_all [OF assms(1)] by simp
qed

lemma resolved_within: "fst (resolveImport fromDir spec root subs d) = Inr (Some f) \<Longrightarrow> within f root"
  by (auto simp: resolveImport_def split: sum.splits option.splits prod.splits if_splits)

definition imports_of :: "string \<Rightarrow> (string, string) gomap \<Rightarrow> flow_disk \<Rightarrow> ModelSource \<Rightarrow> string set" where
  "imports_of root subs d s = {f. \<exists>spec\<in>set (specifiers (ms_Data s)).
     fst (resolveImport (path_dir (ms_Path s)) spec root subs d) = Inr (Some f)}"

definition source_ok :: "string \<Rightarrow> flow_disk \<Rightarrow> ModelSource \<Rightarrow> bool" where
  "source_ok root d s \<longleftrightarrow>
     lookup (fd_files d) (path_Clean (ms_Path s)) = Some (ms_Data s) \<and> ms_Rel s = path_Rel root (ms_Path s)"

lemma sources_loop_closed:
  assumes "fd_ops d = []" and "sources_loop n root subs seen queue d = (Inr out, d')"
  defines "paths \<equiv> set (map ms_Path out)"
  shows "distinct (map ms_Path out) \<and> paths \<inter> set seen = {} \<and> set queue \<subseteq> set seen \<union> paths \<and>
    (\<forall>s\<in>set out. source_ok root d s \<and> imports_of root subs d s \<subseteq> set seen \<union> paths \<and>
       (ms_Path s \<in> set queue \<or> within (ms_Path s) root))"
  using assms(2) unfolding paths_def
proof (induction n arbitrary: seen queue out)
  case 0
  then have "dropWhile (\<lambda>p. p \<in> set seen) queue = []"
    by (subst (asm) sources_loop.simps) (simp split: list.splits)
  then show ?case using 0 sources_loop_done [of seen queue 0] by (auto simp: dropWhile_eq_Nil_conv)
next
  case (Suc n)
  show ?case
  proof (cases "dropWhile (\<lambda>p. p \<in> set seen) queue")
    case Nil
    then show ?thesis using Suc.prems sources_loop_done [OF Nil] by (auto simp: dropWhile_eq_Nil_conv)
  next
    case (Cons path rest)
    note pick = dropWhile_in [OF Cons]
    obtain src imported d1 out' where steps: "readSource path root subs d = (Inr (src, imported), d1)"
      "sources_loop n root subs (path # seen) (rest @ imported) d1 = (Inr out', d')" "out = src # out'"
      using Suc.prems unfolding sources_loop_next [OF Cons]
      by (auto simp: io_bind_def io_return_def split: prod.splits sum.splits)
    note src = calm_readSource [OF assms(1) steps(1)]
    have imported: "set imported = imports_of root subs d src" using src by (simp add: imports_of_def)
    have loop: "sources_loop n root subs (path # seen) (rest @ imported) d = (Inr out', d')"
      using steps(2) src by simp
    note ih = Suc.IH [OF loop]
    have inside: "within f root" if "f \<in> set imported" for f
      using that src resolved_within by auto
    have "queue = takeWhile (\<lambda>p. p \<in> set seen) queue @ path # rest"
      using takeWhile_dropWhile_id [of "\<lambda>p. p \<in> set seen" queue] Cons by simp
    then have queue: "set queue \<subseteq> set seen \<union> {path} \<union> set rest"
    proof -
      have "set (takeWhile (\<lambda>p. p \<in> set seen) queue) \<subseteq> set seen" using set_takeWhileD by fastforce
      moreover have "set queue = set (takeWhile (\<lambda>p. p \<in> set seen) queue) \<union> insert path (set rest)"
        using arg_cong [OF \<open>queue = _\<close>, of set] by simp
      ultimately show ?thesis by blast
    qed
    have paths: "set (map ms_Path out) = insert path (set (map ms_Path out'))" using src steps(3) by simp
    have "set (rest @ imported) \<subseteq> insert path (set seen) \<union> set (map ms_Path out')" using ih by simp
    then have "set queue \<subseteq> set seen \<union> set (map ms_Path out)" "imports_of root subs d src \<subseteq> set seen \<union> set (map ms_Path out)"
      using queue imported paths by auto
    moreover have "source_ok root d src" using src by (simp add: source_ok_def)
    moreover have "ms_Path s \<in> set queue \<or> within (ms_Path s) root" if "s \<in> set out'" for s
      using ih inside pick that by auto
    moreover have "imports_of root subs d s \<subseteq> set seen \<union> set (map ms_Path out)" if "s \<in> set out'" for s
      using ih that paths by auto
    moreover have "distinct (map ms_Path out)" "set (map ms_Path out) \<inter> set seen = {}"
      using ih pick src steps(3) by auto
    ultimately show ?thesis using ih pick src steps(3) by simp
  qed
qed

lemma ModelSources_calm:
  assumes "fd_ops d = []" and "ModelSources entry d = (Inr sources, d')"
  shows "\<exists>out. sources_loop (sources_bound d) (ModelsDir (fd_env d)) (fd_subpaths d) [] [entry] d = (Inr out, d') \<and>
    sources = take 1 out @ sort_by (\<lambda>a b. ms_Rel a < ms_Rel b) (drop 1 out)"
  using assms by (auto simp: ModelSources_alt io_bind_def io_return_def split: prod.splits sum.splits)

lemma sources_loop_first:
  assumes "sources_loop n root subs [] (path # rest) d = (Inr out, d')"
  shows "\<exists>src out'. out = src # out' \<and> ms_Path src = path"
proof -
  have next': "dropWhile (\<lambda>p. p \<in> set []) (path # rest) = path # rest" by simp
  then obtain m where m: "n = Suc m"
    using assms by (cases n) (subst (asm) sources_loop.simps, simp)+
  show ?thesis
    using assms unfolding m sources_loop_next [OF next']
    by (auto simp: io_bind_def io_return_def dest!: readSource_Inr split: prod.splits sum.splits)
qed



end
