(* ===== verification/Spec2Isabelle.thy ===== *)
theory Spec2Isabelle
  imports SyncFacts FlowFacts WikiFacts WikiRatify DeviceFacts LoginFacts SpaceFacts EnvConfig FlowListing FlowHistory FlowClosure
begin

text \<open>
  A verification development for Jardin, a Go program that keeps the notes, rules, skills and flows of
  a coding assistant in one data directory and shares that directory between machines.

  \<^bold>\<open>The program\<close>

  \<^item> A \<^emph>\<open>client\<close> keeps a data directory and reconciles it with a server: \<open>src/internal/sync\<close>. It reads
    its settings in \<open>src/internal/config\<close>.
  \<^item> A \<^emph>\<open>server\<close> offers the same tree over HTTP: \<open>src/internal/server\<close>. A request passes the guard of its
    route, which turns a bearer token into an identity; a request for a tree then passes \<open>scopeRoot\<close>,
    which picks the common tree or that of a space; only then does a handler touch files. Tokens come
    from a password login, single sign-on, a device login, or an admin. The server reads its
    environment once, in \<open>src/internal/env\<close>. Writes to wiki pages go into a queue for embedding.
  \<^item> \<^emph>\<open>Flows\<close> are graphs of commands that a machine runs and records: \<open>src/internal/flow\<close>.

  \<^bold>\<open>Shared theories\<close>

  \<^item> \<open>Prelude\<close>: Go strings as byte lists, Go maps as association lists, package \<open>strings\<close>. \<open>Sha256\<close>: the
    hash, on 32-bit words. \<open>GoTime\<close>: instants, RFC 3339. \<open>GoTimeFacts\<close>: the calendar computation is
    inverted by its inverse for every day number, and a printed time reads back to the second.
  \<^item> \<open>Effects\<close>: operations that return an error or a value with the world they leave, the rules to
    reason about them, and the script of outcomes every effect reads its fate from.

  \<^bold>\<open>File sync\<close>

  \<^item> \<open>SyncPaths\<close>: \<open>tree.go\<close>, \<open>conflict.go\<close>, \<open>singlewriter.go\<close> and the path rules of \<open>sync_api.go\<close>.
    \<open>EmbedQueue\<close>: \<open>embed_queue.go\<close> and the queue side of \<open>embed_worker.go\<close>. \<open>SyncServer\<close>: the handlers
    of \<open>sync_api.go\<close>, the requests of \<open>client.go\<close>, and the locale \<open>sync_server\<close>, the contract the
    client relies on; its interpretation \<open>srv\<close> shows that the handlers keep it. \<open>SyncClient\<close>: \<open>sync.go\<close>,
    \<open>transfer.go\<close>, \<open>manifest.go\<close>.
  \<^item> \<open>SyncSafety\<close>, \<open>SyncLoop\<close>, \<open>SyncRun\<close>, \<open>SyncTotal\<close>, \<open>SyncCopy\<close> work inside the locale, for any server
    behind the contract: what one path's step may do, the loop over all paths, the guard and the
    whole run, runs in which nothing fails, the one-way copies. \<open>SyncFacts\<close> reads the properties off
    for the program's own server. Every property holds for every script of failing file operations
    and requests: no edit of either side is lost, deletions are bounded and justified, a run that
    succeeds leaves the three-way merge on both sides, and the next one has nothing to do.

  \<^bold>\<open>Accounts and access\<close>

  \<^item> \<open>ServerState\<close>: the state of type \<open>Server\<close> and its three stores. The locale \<open>json_store\<close> is the contract
    of a store file, interpreted for users and spaces. \<open>ServerAuth\<close>: \<open>auth.go\<close>, \<open>tokens.go\<close>, \<open>users.go\<close>
    and the sessions. \<open>ServerSpaces\<close>: \<open>spaces.go\<close>, \<open>spaces_api.go\<close>, \<open>spaces_members.go\<close>, \<open>scopeRoot\<close>.
    \<open>DeviceFlow\<close>: \<open>device.go\<close>, \<open>device_api.go\<close>, \<open>oidc_login_code.go\<close>. \<open>ServerOIDC\<close>: the other \<open>oidc\<close> files.
    \<open>ServerRoutes\<close>: the route table of \<open>server.go\<close>; \<open>endpoint\<close> is a request, \<open>handle\<close> its handler behind
    its guard, \<open>serve\<close> a sequence of requests at any times.
  \<^item> \<open>ServerInvariant\<close>: two locales in which an invariant of the state is shown to survive every route
    once it survives the few changes handlers are made of; they are interpreted for the agreement of
    the token table with its file (\<open>SessionFacts\<close>) and for the stored spaces (\<open>SpaceFacts\<close>).
  \<^item> \<open>AccountFacts\<close>: what a guard and \<open>scopeRoot\<close> let through. \<open>SpaceFacts\<close>: who may change a space.
    \<open>SessionFacts\<close>: how long a token lives, and a restart. \<open>DeviceFacts\<close>: the device store as a step
    relation; a token is delivered once, only after an approval, and then for certain. \<open>LoginFacts\<close>:
    the limiter is a sliding window, a login code is worth one session, and the inputs on which a
    login gives more than it should. \<open>ServerDemo\<close> holds the server the witnesses run on.
  \<^item> \<open>EnvConfig\<close>: what \<open>env.Load\<close> accepts, and the client's settings.

  \<^bold>\<open>Flows\<close>

  \<^item> \<open>FlowModel\<close>: \<open>flow.go\<close>, \<open>graph.go\<close>, the checks of \<open>needs.go\<close>. \<open>FlowGraph\<close>: the depth-first search
    decides whether the steps can be ordered. \<open>FlowValues\<close>: values that travel between steps,
    redaction, capture (\<open>needs.go\<close>, \<open>run.go\<close>, \<open>stream.go\<close>). \<open>FlowRun\<close>: \<open>schedule.go\<close> and one step of \<open>run.go\<close>.
  \<^item> \<open>FlowSchedule\<close>: the invariant of the scheduler, for every behaviour and interleaving of processes.
    \<open>FlowChecked\<close>: what \<open>Parse\<close> accepts. \<open>FlowFacts\<close>: an accepted flow ends with each step recorded
    once, in order of dependence, with its secrets masked, and with the status of its worst step.
  \<^item> \<open>FlowStore\<close>: the flows on a machine, their recorded runs and the pins (\<open>store.go\<close>, \<open>query.go\<close>,
    \<open>trust.go\<close>). \<open>FlowModels\<close>: the extensions typed steps call, the imports of their code, and the gate
    before a run (\<open>model.go\<close>, \<open>modelsource.go\<close>). \<open>FlowCommands\<close>: what runs, lists and approves them
    (\<open>cmd/flow.go\<close>, \<open>cmd/flow_render.go\<close>, \<open>internal/mcpserver/flows.go\<close>).
  \<^item> \<open>Approval\<close> is a locale, a store of pins that only an approval adds to. \<open>FlowDisk\<close> and \<open>FlowTrust\<close>
    show that the operations on flows keep its laws, and \<open>FlowApproved\<close> interprets it: what a machine
    runs was approved at it, with the code of every extension. \<open>FlowListing\<close>: the inventory says what
    can run. \<open>FlowHistory\<close>: what is kept of runs and what a search finds. \<open>PathFacts\<close>, \<open>FlowModelFacts\<close>,
    \<open>FlowClosure\<close>: where a type leads, that the walk over imports ends and is complete, and what its
    hash says.

  \<^bold>\<open>Wiki\<close>

  \<^item> \<open>WikiPage\<close>: the front matter of a page, its links, and the blocks a search returns
    (\<open>frontmatter.go\<close>, \<open>chunk.go\<close>, \<open>links.go\<close>, \<open>freshness.go\<close> in \<open>internal/memory\<close>). \<open>WikiPageFacts\<close>: the
    blocks have distinct keys and lose nothing of the page.
  \<^item> \<open>WikiWrite\<close>: filing a finding on a page, in the index and in the log (\<open>write.go\<close>, \<open>bookkeeping.go\<close>,
    \<open>atomic.go\<close>, \<open>language.go\<close>). \<open>WikiStamp\<close>, \<open>WikiFiling\<close>, \<open>WikiFacts\<close>: stamping changes the date
    alone, a filed finding is found, the three files change together or not at all, and the inputs on
    which they do not.
  \<^item> \<open>WikiRatify\<close>: the pages that bind, and the bytes of them this machine agreed to (\<open>ratify.go\<close>).
\<close>

text \<open>
  \<^bold>\<open>Conventions\<close>

  \<^item> What the program does not control is an argument or a script: the outcome of each file operation
    and request, the bytes of the random source, what processes do and in which order they end, the
    clock. A property that holds for every script holds for every behaviour. Hypotheses on them are
    stated in the properties and have witnesses.
  \<^item> A clock stands still during one handler and one run of \<open>Sync\<close>, and no other machine writes to the
    server during a run. Handlers run one at a time; where the code gives up the lock between a check
    and a commit, the commit is a definition of its own and its properties assume nothing of the check.
  \<^item> The bodies of requests and the store files are decoded values, with cases for what does not decode;
    the coding as JSON is the standard library's. Path parameters are raw segments, decoded where the
    handler calls \<open>pathParam\<close>. Case mapping and white space are those of ASCII.
  \<^item> Third-party code is a parameter: the identity provider, the YAML decoder and the library that
    reads the server's environment.
  \<^item> An artifact of a run is the record it decodes to, and a file of an extension may change between two
    runs but not while one is prepared. The answer of the runtime to \<open>describe\<close> is a parameter.
  \<^item> Three recursions carry a bound. \<open>walk\<close>, the search in \<open>findCycle\<close>, starts with the number of names in
    the graph: each call puts a new name on the stack, and \<open>walk_fuel\<close> shows the bound is not reached.
    \<open>drive\<close>, the scheduler's loop, starts with one more than the number of steps: each round records a
    step, and \<open>drive_ends\<close> shows that an accepted flow ends within it. \<open>sources_loop\<close>, the walk over
    imports, starts with \<open>sources_bound\<close>, the number of names a file can be reached by;
    \<open>import_walk_ends\<close> shows that it ends before.

  \<^bold>\<open>Not modelled\<close>: the ranking of search results is arithmetic on floating-point numbers, and its stores
  and the embedding service are files and network. The journal of sessions with its claims and
  statistics, consolidation, usage, artifacts and the handlers of the server over them have logic of
  their own that this development does not reach yet. The rest of the command line, terminal output, the daemon, \<open>git\<close>, the adapters that edit the
  configuration of other programs, downloads of releases and the event emitter are input and output
  around the packages above; the reference data of the API has no behaviour; HTTP middleware, health
  probes and the pages of the web client belong to libraries. Of sign-on, the coding of the cookie;
  of the embedding worker, its timers and the calls of the embedding service; of a deleted space,
  the files inside the directory that moves to the trash.
\<close>

end
